(* ===== verification/Prelude.thy ===== *)
theory Prelude
  imports Complex_Main "HOL-Library.Word" "HOL-Library.Char_ord" "HOL-Library.List_Lexorder"
begin

text \<open>
  Shared material of the development: the result type in which every return, C++ exception and
  fault of the source is a value, the state-and-result functions the stateful code is written
  with, 32-bit unsigned arithmetic as the source's \<^verbatim>\<open>size_t\<close> has it, decimal numerals as the C++
  streams print them, and the list lemmas the components share.
\<close>

named_theorems io_simps \<open>unfolding of the state-and-result combinators\<close>
named_theorems wire_simps \<open>rendering of requests and replies\<close>

section \<open>Results\<close>

text \<open>
  The exceptions the source throws: the redis_error family of redisclient.h, the standard
  exceptions it and ByteBuffer.h throw, and Boost's bad_lexical_cast and bad_get.
\<close>

datatype exn =
    redis_error string
  | connection_error string
  | protocol_error string
  | key_error string
  | timeout_error string
  | value_error string
  | runtime_error string
  | out_of_range string
  | length_error
  | bad_alloc
  | bad_lexical_cast
  | bad_get

text \<open>
  A fault is an outcome the program cannot observe: a failed \<^verbatim>\<open>assert\<close>, behaviour the language
  leaves undefined (an access outside a buffer), or a blocking call that never returns.
\<close>

datatype fault = AssertFailed | Undefined | Blocked

datatype 'a res = Ret 'a | Throw exn | Abort fault

type_synonym ('s, 'a) io = "'s \<Rightarrow> 'a res \<times> 's"

definition ret :: "'a \<Rightarrow> ('s, 'a) io" where
  "ret x = (\<lambda>s. (Ret x, s))"

definition throw :: "exn \<Rightarrow> ('s, 'a) io" where
  "throw e = (\<lambda>s. (Throw e, s))"

definition abort :: "fault \<Rightarrow> ('s, 'a) io" where
  "abort f = (\<lambda>s. (Abort f, s))"

definition bnd :: "('s, 'a) io \<Rightarrow> ('a \<Rightarrow> ('s, 'b) io) \<Rightarrow> ('s, 'b) io" where
  "bnd m k = (\<lambda>s. case m s of
      (Ret x, s') \<Rightarrow> k x s'
    | (Throw e, s') \<Rightarrow> (Throw e, s')
    | (Abort f, s') \<Rightarrow> (Abort f, s'))"

definition sq :: "('s, 'a) io \<Rightarrow> ('s, 'b) io \<Rightarrow> ('s, 'b) io" where
  "sq m n = bnd m (\<lambda>_. n)"

definition try_catch :: "('s, 'a) io \<Rightarrow> (exn \<Rightarrow> ('s, 'a) io) \<Rightarrow> ('s, 'a) io" where
  "try_catch m h = (\<lambda>s. case m s of
      (Ret x, s') \<Rightarrow> (Ret x, s')
    | (Throw e, s') \<Rightarrow> h e s'
    | (Abort f, s') \<Rightarrow> (Abort f, s'))"

definition asserting :: "bool \<Rightarrow> ('s, unit) io" where
  "asserting b = (if b then ret () else abort AssertFailed)"

definition lift_res :: "'a res \<Rightarrow> ('s, 'a) io" where
  "lift_res r = (\<lambda>s. (r, s))"

text \<open>Loops over a range of values: for the effects only, collecting the results, or summing them.\<close>

fun for_each :: "('a \<Rightarrow> ('s, 'b) io) \<Rightarrow> 'a list \<Rightarrow> ('s, unit) io" where
  "for_each f [] = ret ()"
| "for_each f (x # xs) = bnd (f x) (\<lambda>_. for_each f xs)"

fun collect :: "('a \<Rightarrow> ('s, 'b) io) \<Rightarrow> 'a list \<Rightarrow> ('s, 'b list) io" where
  "collect f [] = ret []"
| "collect f (x # xs) = bnd (f x) (\<lambda>y. bnd (collect f xs) (\<lambda>ys. ret (y # ys)))"

fun fold_io :: "('a \<Rightarrow> 'b \<Rightarrow> ('s, 'b) io) \<Rightarrow> 'a list \<Rightarrow> 'b \<Rightarrow> ('s, 'b) io" where
  "fold_io f [] b = ret b"
| "fold_io f (x # xs) b = bnd (f x b) (\<lambda>b'. fold_io f xs b')"

lemma ret_apply [simp, io_simps]: "ret x s = (Ret x, s)"
  by (simp add: ret_def)

lemma throw_apply [simp, io_simps]: "throw e s = (Throw e, s)"
  by (simp add: throw_def)

lemma abort_apply [simp, io_simps]: "abort f s = (Abort f, s)"
  by (simp add: abort_def)

lemma lift_res_apply [simp, io_simps]: "lift_res r s = (r, s)"
  by (simp add: lift_res_def)

lemma bnd_Ret [simp]: "m s = (Ret x, s') \<Longrightarrow> bnd m k s = k x s'"
  by (simp add: bnd_def)

lemma bnd_Throw [simp]: "m s = (Throw e, s') \<Longrightarrow> bnd m k s = (Throw e, s')"
  by (simp add: bnd_def)

lemma bnd_Abort [simp]: "m s = (Abort f, s') \<Longrightarrow> bnd m k s = (Abort f, s')"
  by (simp add: bnd_def)

lemma sq_Ret [simp]: "m s = (Ret x, s') \<Longrightarrow> sq m n s = n s'"
  by (simp add: sq_def)

lemma sq_Throw [simp]: "m s = (Throw e, s') \<Longrightarrow> sq m n s = (Throw e, s')"
  by (simp add: sq_def)

lemma sq_Abort [simp]: "m s = (Abort f, s') \<Longrightarrow> sq m n s = (Abort f, s')"
  by (simp add: sq_def)

lemma bnd_ret [simp]: "bnd (ret x) k = k x"
  by (rule ext) simp

lemma bnd_assoc: "bnd (bnd m f) g = bnd m (\<lambda>x. bnd (f x) g)"
  by (rule ext) (auto simp: bnd_def split: prod.splits res.splits)

lemma bnd_RetE:
  assumes "bnd m k s = (Ret y, t)"
  obtains x s' where "m s = (Ret x, s')" and "k x s' = (Ret y, t)"
  using assms by (auto simp: bnd_def split: prod.splits res.splits)

lemma asserting_apply [simp, io_simps]:
  "asserting b s = (if b then (Ret (), s) else (Abort AssertFailed, s))"
  by (simp add: asserting_def)

text \<open>Sequencing of results that need no state.\<close>

definition rbnd :: "'a res \<Rightarrow> ('a \<Rightarrow> 'b res) \<Rightarrow> 'b res" where
  "rbnd r k = (case r of Ret x \<Rightarrow> k x | Throw e \<Rightarrow> Throw e | Abort f \<Rightarrow> Abort f)"

lemma rbnd_simps [simp]:
  "rbnd (Ret x) k = k x" "rbnd (Throw e) k = Throw e" "rbnd (Abort f) k = Abort f"
  by (simp_all add: rbnd_def)

lemma rbnd_RetE:
  assumes "rbnd r k = Ret y"
  obtains x where "r = Ret x" and "k x = Ret y"
  using assms by (cases r) auto

text \<open>A state-and-result function preserves a predicate of the state on every outcome.\<close>

definition keeps :: "('s \<Rightarrow> bool) \<Rightarrow> ('s, 'a) io \<Rightarrow> bool" where
  "keeps P m \<longleftrightarrow> (\<forall>s. P s \<longrightarrow> P (snd (m s)))"

lemma keepsI [intro]: "(\<And>s. P s \<Longrightarrow> P (snd (m s))) \<Longrightarrow> keeps P m"
  by (simp add: keeps_def)

lemma keepsD: "keeps P m \<Longrightarrow> P s \<Longrightarrow> P (snd (m s))"
  by (simp add: keeps_def)

lemma keeps_ret [simp]: "keeps P (ret x)"
  and keeps_throw [simp]: "keeps P (throw e)"
  and keeps_abort [simp]: "keeps P (abort f)"
  and keeps_lift_res [simp]: "keeps P (lift_res r)"
  and keeps_asserting [simp]: "keeps P (asserting b)"
  by (auto simp: keeps_def)

lemma keeps_bnd [intro]:
  assumes "keeps P m" and "\<And>x. keeps P (k x)"
  shows "keeps P (bnd m k)"
proof
  fix s assume "P s"
  then have "P (snd (m s))" using assms(1) by (rule keepsD [rotated])
  then show "P (snd (bnd m k s))"
    using assms(2) by (auto simp: bnd_def keeps_def split: prod.splits res.splits)
qed

lemma keeps_sq [intro]: "keeps P m \<Longrightarrow> keeps P n \<Longrightarrow> keeps P (sq m n)"
  by (auto simp: sq_def)

lemma keeps_try_catch [intro]:
  assumes "keeps P m" and "\<And>e. keeps P (h e)"
  shows "keeps P (try_catch m h)"
proof
  fix s assume "P s"
  then have "P (snd (m s))" using assms(1) by (rule keepsD [rotated])
  then show "P (snd (try_catch m h s))"
    using assms(2) by (auto simp: try_catch_def keeps_def split: prod.splits res.splits)
qed

lemma keeps_for_each [intro]: "(\<And>x. keeps P (f x)) \<Longrightarrow> keeps P (for_each f xs)"
  by (induction xs) auto

lemma keeps_collect [intro]: "(\<And>x. keeps P (f x)) \<Longrightarrow> keeps P (collect f xs)"
  by (induction xs) (auto intro!: keeps_bnd)

lemma keeps_fold_io [intro]: "(\<And>x b. keeps P (f x b)) \<Longrightarrow> keeps P (fold_io f xs b)"
  by (induction xs arbitrary: b) auto

text \<open>What a computation returns, when it returns, has a property.\<close>

definition yields :: "('a \<Rightarrow> bool) \<Rightarrow> ('s, 'a) io \<Rightarrow> bool" where
  "yields P m \<longleftrightarrow> (\<forall>s x s'. m s = (Ret x, s') \<longrightarrow> P x)"

lemma yields_ret [intro!]: "P x \<Longrightarrow> yields P (ret x)"
  by (simp add: yields_def ret_def)

lemma yields_abort [intro!]: "yields P (abort f)"
  by (simp add: yields_def abort_def)

lemma yields_throw [intro!]: "yields P (throw e)"
  by (simp add: yields_def throw_def)

lemma yields_bnd: "yields Q m \<Longrightarrow> (\<And>x. Q x \<Longrightarrow> yields P (k x)) \<Longrightarrow> yields P (bnd m k)"
  unfolding yields_def by (blast elim!: bnd_RetE)

lemma yields_bnd_any [intro!]: "(\<And>x. yields P (k x)) \<Longrightarrow> yields P (bnd m k)"
  by (rule yields_bnd [where Q = "\<lambda>_. True"]) (simp_all add: yields_def)

lemma yields_sq [intro!]: "yields P n \<Longrightarrow> yields P (sq m n)"
  by (auto simp: sq_def)

lemma yields_collect: "(\<And>x. yields (P x) (f x)) \<Longrightarrow> yields (list_all2 P xs) (collect f xs)"
proof (induction xs)
  case (Cons x xs)
  from Cons.prems have "yields (list_all2 P xs) (collect f xs)" by (rule Cons.IH)
  with Cons.prems [of x] show ?case
    by (simp, intro yields_bnd [where Q = "P x"] yields_bnd [where Q = "list_all2 P xs"]) auto
qed auto

section \<open>Machine words\<close>

type_synonym byte = "8 word"

text \<open>The source's \<^verbatim>\<open>size_t\<close>, \<^verbatim>\<open>DWORD\<close> and \<^verbatim>\<open>unsigned int\<close> of the 32-bit build, kept as numbers.\<close>

definition u32_add :: "nat \<Rightarrow> nat \<Rightarrow> nat" where
  "u32_add a b = (a + b) mod 2 ^ 32"

lemma u32_add_less [simp]: "u32_add a b < 2 ^ 32"
  by (simp add: u32_add_def)

lemma u32_add_eq: "a + b < 2 ^ 32 \<Longrightarrow> u32_add a b = a + b"
  by (simp add: u32_add_def)

lemma u32_add_0 [simp]: "a < 2 ^ 32 \<Longrightarrow> u32_add a 0 = a"
  by (simp add: u32_add_def)

text \<open>The conversion of a signed result to \<^verbatim>\<open>size_t\<close>.\<close>

definition to_u32 :: "int \<Rightarrow> nat" where
  "to_u32 i = nat (i mod 2 ^ 32)"

lemma to_u32_nonneg: "0 \<le> i \<Longrightarrow> i < 2 ^ 32 \<Longrightarrow> to_u32 i = nat i"
  by (simp add: to_u32_def)

lemma to_u32_minus1: "to_u32 (- 1) = 2 ^ 32 - 1"
  by (simp add: to_u32_def)

section \<open>Lists\<close>

lemma take_drop_split: "n \<le> length xs \<Longrightarrow> xs = take n xs @ drop n xs"
  by simp

lemma append_eq_take_drop: "xs = ys @ zs \<longleftrightarrow> take (length ys) xs = ys \<and> drop (length ys) xs = zs"
  by (metis append_eq_conv_conj)

lemma takeWhile_append_stop:
  "(\<forall>x\<in>set xs. P x) \<Longrightarrow> \<not> P y \<Longrightarrow> takeWhile P (xs @ y # ys) = xs"
  by (induction xs) auto

section \<open>Decimal numerals\<close>

definition digit_char :: "nat \<Rightarrow> char" where
  "digit_char d = char_of (48 + d)"

fun show_nat :: "nat \<Rightarrow> string" where
  "show_nat n = (if n < 10 then [digit_char n] else show_nat (n div 10) @ [digit_char (n mod 10)])"

declare show_nat.simps [simp del]

definition show_int :: "int \<Rightarrow> string" where
  "show_int i = (if i < 0 then CHR ''-'' # show_nat (nat (- i)) else show_nat (nat i))"

definition is_digit :: "char \<Rightarrow> bool" where
  "is_digit c \<longleftrightarrow> 48 \<le> (of_char c :: nat) \<and> (of_char c :: nat) \<le> 57"

definition digit_val :: "char \<Rightarrow> nat" where
  "digit_val c = (of_char c :: nat) - 48"

definition read_digits :: "string \<Rightarrow> nat" where
  "read_digits cs = fold (\<lambda>c n. 10 * n + digit_val c) cs 0"

lemma digit_char_is_digit: "d < 10 \<Longrightarrow> is_digit (digit_char d)"
  by (simp add: is_digit_def digit_char_def of_char_of)

lemma digit_val_char: "d < 10 \<Longrightarrow> digit_val (digit_char d) = d"
  by (simp add: digit_val_def digit_char_def of_char_of)

lemma show_nat_nonempty [simp]: "show_nat n \<noteq> []"
  by (subst show_nat.simps) simp

lemma show_nat_digits: "\<forall>c\<in>set (show_nat n). is_digit c"
proof (induction n rule: show_nat.induct)
  case (1 n)
  then show ?case
    by (subst show_nat.simps) (auto simp: digit_char_is_digit)
qed

lemma read_digits_snoc: "read_digits (cs @ [c]) = 10 * read_digits cs + digit_val c"
  by (simp add: read_digits_def)

lemma length_show_nat: "n < 10 ^ k \<Longrightarrow> 0 < k \<Longrightarrow> length (show_nat n) \<le> k"
proof (induction n arbitrary: k rule: show_nat.induct)
  case (1 n)
  show ?case
  proof (cases "n < 10")
    case False
    obtain j where j: "k = Suc j" using "1.prems"(2) by (cases k) auto
    with False "1.prems"(1) have k: "k = Suc j" "0 < j" by (cases j; simp)+
    have "n div 10 < 10 ^ j" using "1.prems"(1) k by (simp add: less_mult_imp_div_less ac_simps)
    with "1.IH" [OF False this] k False show ?thesis by (subst show_nat.simps) simp
  qed (use "1.prems" in \<open>subst show_nat.simps, simp\<close>)
qed

lemma read_show_nat [simp]: "read_digits (show_nat n) = n"
proof (induction n rule: show_nat.induct)
  case (1 n)
  show ?case
  proof (cases "n < 10")
    case True
    then show ?thesis
      by (subst show_nat.simps) (simp add: read_digits_def digit_val_char)
  next
    case False
    with 1 show ?thesis
      by (subst show_nat.simps) (simp add: read_digits_snoc digit_val_char)
  qed
qed

lemma show_nat_inj: "show_nat m = show_nat n \<longleftrightarrow> m = n"
  by (metis read_show_nat)

lemma is_digit_not_special:
  "is_digit c \<Longrightarrow> c \<noteq> CHR 0x0A \<and> c \<noteq> CHR 0x0D \<and> c \<noteq> CHR ''-'' \<and> c \<noteq> CHR ''+'' \<and> c \<noteq> CHR '' ''"
  by (auto simp: is_digit_def)

definition read_int :: "string \<Rightarrow> int option" where
  "read_int cs = (case cs of
      [] \<Rightarrow> None
    | c # ds \<Rightarrow>
        (if c = CHR ''-'' then
           (if ds \<noteq> [] \<and> list_all is_digit ds then Some (- int (read_digits ds)) else None)
         else if c = CHR ''+'' then
           (if ds \<noteq> [] \<and> list_all is_digit ds then Some (int (read_digits ds)) else None)
         else if list_all is_digit cs then Some (int (read_digits cs)) else None))"

lemma read_show_int [simp]: "read_int (show_int i) = Some i"
proof (cases "i < 0")
  case True
  then show ?thesis
    using show_nat_digits [of "nat (- i)"]
    by (simp add: read_int_def show_int_def list_all_iff)
next
  case False
  obtain c ds where cd: "show_nat (nat i) = c # ds"
    using show_nat_nonempty by (cases "show_nat (nat i)") auto
  then have dig: "is_digit c" "list_all is_digit (c # ds)"
    using show_nat_digits [of "nat i"] by (auto simp: list_all_iff)
  have "c \<noteq> CHR ''-''" "c \<noteq> CHR ''+''"
    using is_digit_not_special [OF dig(1)] by auto
  with False cd dig show ?thesis
    using read_show_nat [of "nat i"] by (simp add: read_int_def show_int_def)
qed

lemma show_int_chars: "c \<in> set (show_int i) \<Longrightarrow> is_digit c \<or> c = CHR ''-''"
  using show_nat_digits by (auto simp: show_int_def split: if_splits)

lemma show_int_no_crlf: "c \<in> set (show_int i) \<Longrightarrow> c \<noteq> CHR 0x0A \<and> c \<noteq> CHR 0x0D"
  using show_int_chars is_digit_not_special by fastforce

lemma show_int_nonempty [simp]: "show_int i \<noteq> []"
  by (simp add: show_int_def)

end
