(* ===== verification/Sockets.thy ===== *)
theory Sockets
  imports Prelude
begin

text \<open>
  The operating system's stream sockets, as the environment of the two network clients of the
  program. The behaviour of a socket is not chosen here: it is a script carried by the state, the
  outcomes the system will give to the calls on that socket, in order, and every theorem is about
  all scripts. A chunk of received bytes may be shorter or longer than what a call asks for, a call
  may be interrupted or fail, the peer may close, and a call on an exhausted script never returns.
  The abstraction \<open>pending\<close> is the stream of bytes such a script delivers, whatever its
  segmentation; the lemmas say what one call to \<^verbatim>\<open>recv\<close>, peeking or not, does to it.
\<close>

datatype errno = EINTR | Errno string

datatype 'b recv_event = Chunk "'b list" | Closed | Failed errno

datatype send_event = Accept nat | SendFailed errno | SendBlocks

record 'b sock =
  incoming :: "'b recv_event list"
  sending :: "send_event list"
  outgoing :: "'b list"

type_synonym 'b net = "int \<Rightarrow> 'b sock"

datatype 'b recv_result = Got "'b list" | PeerClosed | RecvError errno | NoData

text \<open>
  One call \<^verbatim>\<open>recv(fd, buf, n, flags)\<close>: the bytes it stores, 0 at the end of the stream, -1 with
  \<^verbatim>\<open>errno\<close>. With \<^verbatim>\<open>MSG_PEEK\<close> the bytes stay in the socket.
\<close>

fun recv_events :: "nat \<Rightarrow> bool \<Rightarrow> 'b recv_event list \<Rightarrow> 'b recv_result \<times> 'b recv_event list" where
  "recv_events n peek [] = (NoData, [])"
| "recv_events n peek (Chunk [] # es) = recv_events n peek es"
| "recv_events n peek (Chunk (b # bs) # es) =
     (Got (take n (b # bs)), if peek then Chunk (b # bs) # es else Chunk (drop n (b # bs)) # es)"
| "recv_events n peek (Closed # es) = (PeerClosed, Closed # es)"
| "recv_events n peek (Failed e # es) = (RecvError e, es)"

definition sock_recv :: "int \<Rightarrow> nat \<Rightarrow> bool \<Rightarrow> 'b net \<Rightarrow> 'b recv_result \<times> 'b net" where
  "sock_recv fd n peek w =
     (case recv_events n peek (incoming (w fd)) of
        (r, es) \<Rightarrow> (r, w(fd := (w fd)\<lparr>incoming := es\<rparr>)))"

datatype send_result = Sent nat | SendError errno | NoRoom

text \<open>
  One call \<^verbatim>\<open>send(fd, buf, n, 0)\<close>: the system accepts a prefix of the bytes, fails, or has no room and does
  not return; it accepts all of them when the script says nothing.
\<close>

definition sock_send :: "int \<Rightarrow> 'b list \<Rightarrow> 'b net \<Rightarrow> send_result \<times> 'b net" where
  "sock_send fd bs w =
     (case sending (w fd) of
        [] \<Rightarrow> (Sent (length bs), w(fd := (w fd)\<lparr>outgoing := outgoing (w fd) @ bs\<rparr>))
      | Accept k # es \<Rightarrow>
          (Sent (min k (length bs)),
           w(fd := (w fd)\<lparr>sending := es, outgoing := outgoing (w fd) @ take k bs\<rparr>))
      | SendFailed e # es \<Rightarrow> (SendError e, w(fd := (w fd)\<lparr>sending := es\<rparr>))
      | SendBlocks # es \<Rightarrow> (NoRoom, w(fd := (w fd)\<lparr>sending := es\<rparr>)))"

section \<open>The stream a script delivers\<close>

text \<open>Chunks and interruptions deliver; the end of the stream and any other failure stop it.\<close>

fun pending_events :: "'b recv_event list \<Rightarrow> 'b list" where
  "pending_events [] = []"
| "pending_events (Chunk bs # es) = bs @ pending_events es"
| "pending_events (Failed EINTR # es) = pending_events es"
| "pending_events (Failed (Errno m) # es) = []"
| "pending_events (Closed # es) = []"

definition pending :: "'b net \<Rightarrow> int \<Rightarrow> 'b list" where
  "pending w fd = pending_events (incoming (w fd))"

text \<open>What terminates every receive loop: the bytes still scripted and the calls that will fail.\<close>

fun ev_weight :: "'b recv_event \<Rightarrow> nat" where
  "ev_weight (Chunk bs) = length bs"
| "ev_weight Closed = 0"
| "ev_weight (Failed e) = 1"

definition weight :: "'b net \<Rightarrow> int \<Rightarrow> nat" where
  "weight w fd = sum_list (map ev_weight (incoming (w fd)))"

text \<open>Two network states that differ in what one socket has still to receive, and in nothing else.\<close>

definition same_but_incoming :: "int \<Rightarrow> 'b net \<Rightarrow> 'b net \<Rightarrow> bool" where
  "same_but_incoming fd w w' \<longleftrightarrow> (\<exists>es. w' = w(fd := (w fd)\<lparr>incoming := es\<rparr>))"

lemma same_but_incoming_refl [simp]: "same_but_incoming fd w w"
  unfolding same_but_incoming_def by (rule exI [of _ "incoming (w fd)"]) simp

lemma same_but_incoming_trans [trans]:
  "same_but_incoming fd u v \<Longrightarrow> same_but_incoming fd v w \<Longrightarrow> same_but_incoming fd u w"
  by (auto simp: same_but_incoming_def)

lemma same_but_incoming_frame:
  "same_but_incoming fd w w' \<Longrightarrow> g \<noteq> fd \<Longrightarrow> pending w' g = pending w g"
  "same_but_incoming fd w w' \<Longrightarrow> outgoing (w' g) = outgoing (w g)"
  "same_but_incoming fd w w' \<Longrightarrow> sending (w' g) = sending (w g)"
  by (auto simp: same_but_incoming_def pending_def)

lemma same_but_incoming_update [simp]: "same_but_incoming fd w (w(fd := (w fd)\<lparr>incoming := es\<rparr>))"
  by (auto simp: same_but_incoming_def)

lemma sock_recv_frame: "sock_recv fd n peek w = (r, w') \<Longrightarrow> same_but_incoming fd w w'"
  by (auto simp: sock_recv_def split: prod.splits)

section \<open>What one call does to the stream\<close>

lemma recv_events_Got:
  "recv_events n peek es = (Got bs, es') \<Longrightarrow>
     bs = take (length bs) (pending_events es) \<and> length bs \<le> n \<and>
     pending_events es' = (if peek then pending_events es else drop (length bs) (pending_events es)) \<and>
     (0 < n \<longrightarrow> bs \<noteq> [])"
proof (induction n peek es rule: recv_events.induct)
  case (3 n peek c cs es)
  then show ?case by (cases n) (auto simp: min_def)
qed auto

lemma recv_events_weight:
  "recv_events n False es = (Got bs, es') \<Longrightarrow> 0 < n \<Longrightarrow>
     sum_list (map ev_weight es') < sum_list (map ev_weight es)"
  "recv_events n peek es = (RecvError e, es') \<Longrightarrow>
     sum_list (map ev_weight es') < sum_list (map ev_weight es)"
  "recv_events n True es = (Got bs, es') \<Longrightarrow>
     sum_list (map ev_weight es') \<le> sum_list (map ev_weight es)"
  by (induction n peek es rule: recv_events.induct) (auto, (case_tac n; auto)?)

lemma recv_events_pending:
  assumes "pending_events es \<noteq> []"
  shows "(\<exists>bs es'. recv_events n peek es = (Got bs, es')) \<or>
         (\<exists>es'. recv_events n peek es = (RecvError EINTR, es') \<and> pending_events es' = pending_events es)"
  using assms
proof (induction n peek es rule: recv_events.induct)
  case (5 n peek e es)
  then show ?case by (cases e) auto
qed auto

text \<open>After a peek that returned some bytes, asking for no more than those returns them.\<close>

lemma recv_after_peek:
  "recv_events n True es = (Got bs, es') \<Longrightarrow> m \<le> length bs \<Longrightarrow> 0 < m \<Longrightarrow>
     \<exists>es''. recv_events m False es' = (Got (take m bs), es'') \<and>
       pending_events es'' = drop m (pending_events es)"
proof (induction n "True" es rule: recv_events.induct)
  case (3 n c cs es)
  then have bs: "bs = take n (c # cs)" and es': "es' = Chunk (c # cs) # es" by auto
  have m: "m \<le> n" "m \<le> length (c # cs)" using 3 bs by auto
  from m(2) have "drop m (c # cs) @ pending_events es = drop m ((c # cs) @ pending_events es)"
    by (simp only: drop_append) simp
  with bs es' m show ?case by (simp add: min_absorb1 take_take)
qed auto

lemma weight_peek:
  "sock_recv fd n True w = (Got bs, w') \<Longrightarrow> weight w' fd \<le> weight w fd"
  by (auto simp: sock_recv_def weight_def split: prod.splits dest: recv_events_weight(3))

lemma weight_recv:
  "sock_recv fd n False w = (Got bs, w') \<Longrightarrow> 0 < n \<Longrightarrow> weight w' fd < weight w fd"
  by (auto simp: sock_recv_def weight_def split: prod.splits dest: recv_events_weight(1))

lemma weight_error:
  "sock_recv fd n peek w = (RecvError e, w') \<Longrightarrow> weight w' fd < weight w fd"
  by (auto simp: sock_recv_def weight_def split: prod.splits dest: recv_events_weight(2))

lemma sock_recv_Got:
  assumes "sock_recv fd n peek w = (Got bs, w')"
  shows "bs = take (length bs) (pending w fd)" "length bs \<le> n"
    "pending w' fd = (if peek then pending w fd else drop (length bs) (pending w fd))"
    "0 < n \<Longrightarrow> bs \<noteq> []"
  using assms recv_events_Got [of n peek "incoming (w fd)" bs "incoming (w' fd)"]
  by (auto simp: sock_recv_def pending_def split: prod.splits)

lemma sock_recv_pending:
  assumes "pending w fd \<noteq> []"
  shows "(\<exists>bs w'. sock_recv fd n peek w = (Got bs, w')) \<or>
         (\<exists>w'. sock_recv fd n peek w = (RecvError EINTR, w') \<and> pending w' fd = pending w fd)"
  using recv_events_pending [of "incoming (w fd)" n peek] assms
  by (auto simp: sock_recv_def pending_def)

text \<open>An interrupted call leaves the stream as it was.\<close>

lemma recv_events_interrupted:
  "recv_events n peek es = (RecvError EINTR, es') \<Longrightarrow> pending_events es' = pending_events es"
  by (induction n peek es rule: recv_events.induct) auto

lemma pending_interrupted:
  "sock_recv fd n peek w = (RecvError EINTR, w') \<Longrightarrow> pending w' fd = pending w fd"
  by (auto simp: sock_recv_def pending_def split: prod.splits dest: recv_events_interrupted)

lemma sock_recv_after_peek:
  assumes "sock_recv fd n True w = (Got bs, w')" "m \<le> length bs" "0 < m"
  shows "\<exists>w''. sock_recv fd m False w' = (Got (take m bs), w'') \<and>
           pending w'' fd = drop m (pending w fd)"
  using assms recv_after_peek [of n "incoming (w fd)" bs "incoming (w' fd)" m]
  by (auto simp: sock_recv_def pending_def split: prod.splits)

end
