(* ===== verification/TdxConnect.thy ===== *)
theory TdxConnect
  imports Sockets
begin

text \<open>
  The connection table of the quotation DLL, src/TDXHQ/TDXHQ.cpp: the globals of its shared data
  segment and the exported \<open>TDXHQ_Init\<close>, \<open>TDXHQ_Connect\<close> and \<open>TDXHQ_DisConnect\<close>. The functions run
  under one named mutex, so each is one step. The Windows and MFC functions they call are the
  environment: the configuration file is its list of lines, \<^verbatim>\<open>AfxExtractSubString\<close> and
  \<^verbatim>\<open>inet_addr\<close> are parameters, and what \<^verbatim>\<open>socket\<close> and \<^verbatim>\<open>connect\<close> will answer is scripted in the state.
\<close>

definition CONNECTNUM :: nat where
  "CONNECTNUM = 1000"

definition INVALID_SOCKET :: int where
  "INVALID_SOCKET = - 1"

definition TDXHQ_ERROR_OK :: int where
  "TDXHQ_ERROR_OK = - 1"

definition TDXHQ_ERROR_SEND :: int where
  "TDXHQ_ERROR_SEND = - 2"

definition TDXHQ_ERROR_RECV :: int where
  "TDXHQ_ERROR_RECV = - 3"

definition TDXHQ_ERROR_CONT :: int where
  "TDXHQ_ERROR_CONT = - 4"

definition TDXHQ_ERROR_COFG :: int where
  "TDXHQ_ERROR_COFG = - 5"

record sockaddr_in =
  sin_family :: nat
  sin_port :: nat
  s_addr :: nat

definition null_addr :: sockaddr_in where
  "null_addr = \<lparr>sin_family = 0, sin_port = 0, s_addr = 0\<rparr>"

datatype msgbox = CannotOpenConfig | NoServerConfigured | UnzipError

record platform =
  AfxExtractSubString :: "string \<Rightarrow> nat \<Rightarrow> char \<Rightarrow> string"
  inet_addr :: "string \<Rightarrow> nat"
  uncompress :: "byte list \<Rightarrow> nat \<Rightarrow> byte list \<times> nat"
  format_infinite :: string

text \<open>
  The globals, zero until \<open>TDXHQ_Init\<close> sets them, and the environment: the sockets' traffic, the
  answers of the coming calls to \<^verbatim>\<open>socket\<close> and \<^verbatim>\<open>connect\<close>, and the connection attempts, the sockets shut
  down and closed, and the message boxes so far.
\<close>

record tdx =
  nIP :: nat
  nCurentIP :: nat
  nConnectID :: nat
  skHQ :: "int list"
  pmtx :: bool
  dwAutoConnect :: nat
  IPS :: "sockaddr_in list"
  wire :: "byte net"
  new_sockets :: "int list"
  connect_ok :: "bool list"
  attempts :: "(int \<times> nat) list"
  closed_sockets :: "int list"
  boxes :: "msgbox list"

type_synonym 'a tio = "(tdx, 'a) io"

section \<open>TDXHQ_Init\<close>

text \<open>
  \<^verbatim>\<open>atoi\<close>: the digits after optional white space and a sign, clamped to the range of \<^verbatim>\<open>int\<close> as the
  run-time library of the compiler does (the C standard leaves an overflow open). \<^verbatim>\<open>WORD\<close> keeps the low
  16 bits.
\<close>

definition isspace :: "char \<Rightarrow> bool" where
  "isspace c \<longleftrightarrow> c \<in> {CHR '' '', CHR 0x09, CHR 0x0A, CHR 0x0B, CHR 0x0C, CHR 0x0D}"

definition clamp_int :: "int \<Rightarrow> int" where
  "clamp_int i = max (- (2 ^ 31)) (min (2 ^ 31 - 1) i)"

definition atoi :: "string \<Rightarrow> int" where
  "atoi s =
     (case dropWhile isspace s of
        [] \<Rightarrow> 0
      | c # ds \<Rightarrow>
          clamp_int (if c = CHR ''-'' then - int (read_digits (takeWhile is_digit ds))
                     else if c = CHR ''+'' then int (read_digits (takeWhile is_digit ds))
                     else int (read_digits (takeWhile is_digit (c # ds)))))"

definition to_WORD :: "int \<Rightarrow> nat" where
  "to_WORD i = nat (i mod 2 ^ 16)"

definition htons :: "nat \<Rightarrow> nat" where
  "htons p = (p mod 256) * 256 + p div 256 mod 256"

definition AF_INET :: nat where
  "AF_INET = 2"

definition parse_server :: "platform \<Rightarrow> string \<Rightarrow> sockaddr_in" where
  "parse_server P line =
     \<lparr>sin_family = AF_INET,
      sin_port = htons (to_WORD (atoi (AfxExtractSubString P line 1 (CHR '':'')))),
      s_addr = inet_addr P (AfxExtractSubString P line 0 (CHR '':''))\<rparr>"

text \<open>The loop over the lines; the array has 100 places and no bound is checked.\<close>

fun read_servers :: "platform \<Rightarrow> string list \<Rightarrow> nat \<Rightarrow> sockaddr_in list \<Rightarrow> (sockaddr_in list \<times> nat) res" where
  "read_servers P [] i ips = Ret (ips, i)"
| "read_servers P (line # lines) i ips =
     (if i < length ips then read_servers P lines (i + 1) (ips[i := parse_server P line])
      else Abort Undefined)"

definition TDXHQ_Init :: "platform \<Rightarrow> string list option \<Rightarrow> nat \<Rightarrow> nat \<Rightarrow> int tio" where
  "TDXHQ_Init P config dwChoiceFast dwAutoCon s =
     (let s1 = s\<lparr>dwAutoConnect := dwAutoCon\<rparr>
      in case config of
           None \<Rightarrow> (Ret TDXHQ_ERROR_COFG, s1\<lparr>boxes := boxes s1 @ [CannotOpenConfig]\<rparr>)
         | Some lines \<Rightarrow>
             (case read_servers P lines 0 (IPS s1) of
                Ret (ips, i) \<Rightarrow>
                  (Ret (if dwChoiceFast \<noteq> 0 then TDXHQ_ERROR_OK else TDXHQ_ERROR_OK),
                   s1\<lparr>IPS := ips, nCurentIP := 0, nConnectID := 0, nIP := i, pmtx := True,
                      skHQ := replicate CONNECTNUM INVALID_SOCKET\<rparr>)
              | Throw e \<Rightarrow> (Throw e, s1)
              | Abort f \<Rightarrow> (Abort f, s1)))"

section \<open>TDXHQ_Connect\<close>

text \<open>The first free slot, if there is one.\<close>

fun free_slot :: "int list \<Rightarrow> nat option" where
  "free_slot [] = None"
| "free_slot (k # ks) = (if k = INVALID_SOCKET then Some 0 else map_option Suc (free_slot ks))"

definition call_socket :: "int tio" where
  "call_socket s =
     (case new_sockets s of
        [] \<Rightarrow> (Ret INVALID_SOCKET, s)
      | k # ks \<Rightarrow> (Ret k, s\<lparr>new_sockets := ks\<rparr>))"

definition call_connect :: "int \<Rightarrow> nat \<Rightarrow> bool tio" where
  "call_connect k ip s =
     (let s1 = s\<lparr>attempts := attempts s @ [(k, ip)]\<rparr>
      in case connect_ok s of
           [] \<Rightarrow> (Ret False, s1)
         | r # rs \<Rightarrow> (Ret (r \<and> k \<noteq> INVALID_SOCKET), s1\<lparr>connect_ok := rs\<rparr>))"

definition choose_slot :: "tdx \<Rightarrow> tdx" where
  "choose_slot s = (case free_slot (skHQ s) of None \<Rightarrow> s | Some i \<Rightarrow> s\<lparr>nConnectID := i\<rparr>)"

definition open_slot :: "unit tio" where
  "open_slot s =
     (if nConnectID s < length (skHQ s) then
        (if skHQ s ! nConnectID s = INVALID_SOCKET
         then bnd call_socket (\<lambda>k s'. (Ret (), s'\<lparr>skHQ := (skHQ s')[nConnectID s' := k]\<rparr>)) s
         else (Ret (), s))
      else (Abort Undefined, s))"

definition next_server :: "tdx \<Rightarrow> tdx" where
  "next_server s =
     (if 0 < nIP s then s\<lparr>nCurentIP := u32_add (nCurentIP s mod nIP s) 1\<rparr>
      else s\<lparr>boxes := boxes s @ [NoServerConfigured]\<rparr>)"

definition connect_server :: "int tio" where
  "connect_server s =
     (if nCurentIP s < length (IPS s) then
        bnd (call_connect (skHQ s ! nConnectID s) (nCurentIP s))
          (\<lambda>ok s'. (Ret (if ok then int (nConnectID s') else TDXHQ_ERROR_CONT), s')) s
      else (Abort Undefined, s))"

definition TDXHQ_Connect :: "int tio" where
  "TDXHQ_Connect s =
     (if pmtx s
      then bnd open_slot (\<lambda>_ s'. connect_server (next_server s')) (choose_slot s)
      else (Abort Undefined, s))"

section \<open>TDXHQ_DisConnect\<close>

text \<open>\<^verbatim>\<open>shutdown\<close> and \<^verbatim>\<open>closesocket\<close> on the socket of the slot, which is free again then.\<close>

definition TDXHQ_DisConnect :: "int \<Rightarrow> int tio" where
  "TDXHQ_DisConnect conID s =
     (if \<not> pmtx s \<or> conID < 0 \<or> int (length (skHQ s)) \<le> conID then (Abort Undefined, s)
      else (Ret TDXHQ_ERROR_OK,
            if skHQ s ! nat conID \<noteq> INVALID_SOCKET
            then s\<lparr>closed_sockets := closed_sockets s @ [skHQ s ! nat conID], skHQ := (skHQ s)[nat conID := INVALID_SOCKET]\<rparr>
            else s))"

section \<open>Invariant\<close>

text \<open>
  After initialisation the table has its 1000 slots, the current slot is one of them, and the
  server index is at most the number of servers.
\<close>

definition tdx_inv :: "tdx \<Rightarrow> bool" where
  "tdx_inv s \<longleftrightarrow>
     pmtx s \<and> length (skHQ s) = CONNECTNUM \<and> nConnectID s < CONNECTNUM \<and> length (IPS s) = 100 \<and>
     nIP s \<le> 100 \<and> nCurentIP s \<le> nIP s"

lemma read_servers_Ret:
  "read_servers P lines i ips = Ret (ips', n) \<Longrightarrow> i \<le> length ips \<Longrightarrow>
     length ips' = length ips \<and> n = i + length lines \<and> n \<le> length ips \<and>
     (\<forall>j<length ips. ips' ! j = (if i \<le> j \<and> j < n then parse_server P (lines ! (j - i)) else ips ! j))"
proof (induction P lines i ips rule: read_servers.induct)
  case (2 P line lines i ips)
  then have i: "i < length ips" by (auto split: if_splits)
  with 2 have "length ips' = length (ips[i := parse_server P line]) \<and> n = i + 1 + length lines \<and>
      n \<le> length (ips[i := parse_server P line]) \<and>
      (\<forall>j<length (ips[i := parse_server P line]).
         ips' ! j = (if i + 1 \<le> j \<and> j < n then parse_server P (lines ! (j - (i + 1)))
                     else ips[i := parse_server P line] ! j))"
    by simp
  with i show ?case by (auto simp: nth_list_update nth_Cons' Suc_le_eq)
qed auto

lemma read_servers_fits:
  "i + length lines \<le> length ips \<Longrightarrow> \<exists>ips'. read_servers P lines i ips = Ret (ips', i + length lines)"
  by (induction P lines i ips rule: read_servers.induct) auto

lemma read_servers_overflow:
  "length ips < i + length lines \<Longrightarrow> i \<le> length ips \<Longrightarrow> read_servers P lines i ips = Abort Undefined"
  by (induction P lines i ips rule: read_servers.induct) auto

lemma TDXHQ_Init_inv:
  assumes "TDXHQ_Init P (Some lines) f a s = (Ret c, s')" "length (IPS s) = 100"
  shows "tdx_inv s'"
proof -
  from assms(1) obtain ips n where r: "read_servers P lines 0 (IPS s) = Ret (ips, n)"
    and s': "s' = s\<lparr>dwAutoConnect := a, IPS := ips, nCurentIP := 0, nConnectID := 0, nIP := n,
              pmtx := True, skHQ := replicate CONNECTNUM INVALID_SOCKET\<rparr>"
    by (auto simp: TDXHQ_Init_def Let_def split: res.splits prod.splits)
  from read_servers_Ret [OF r] assms(2) s' show ?thesis
    by (simp add: tdx_inv_def CONNECTNUM_def)
qed

lemma free_slot_Some:
  "free_slot ks = Some i \<Longrightarrow> i < length ks \<and> ks ! i = INVALID_SOCKET \<and> (\<forall>j<i. ks ! j \<noteq> INVALID_SOCKET)"
  by (induction ks arbitrary: i) (auto simp: nth_Cons' split: if_splits)

lemma free_slot_None: "free_slot ks = None \<longleftrightarrow> INVALID_SOCKET \<notin> set ks"
  by (induction ks) auto

section \<open>What one connection attempt does\<close>

text \<open>The slot an attempt uses: the first free one, or the last one used when the table is full.\<close>

definition slot_of :: "tdx \<Rightarrow> nat" where
  "slot_of s = (case free_slot (skHQ s) of None \<Rightarrow> nConnectID s | Some i \<Rightarrow> i)"

text \<open>The server index it uses.\<close>

definition server_of :: "tdx \<Rightarrow> nat" where
  "server_of s = (if 0 < nIP s then nCurentIP s mod nIP s + 1 else nCurentIP s)"

lemma slot_of_less: "tdx_inv s \<Longrightarrow> slot_of s < CONNECTNUM"
  by (auto simp: slot_of_def tdx_inv_def split: option.splits dest: free_slot_Some)

lemma server_of_le: "tdx_inv s \<Longrightarrow> server_of s \<le> nIP s"
  by (simp add: server_of_def tdx_inv_def Suc_le_eq)

lemma choose_slot_fields [simp]:
  "nConnectID (choose_slot s) = slot_of s" "skHQ (choose_slot s) = skHQ s" "pmtx (choose_slot s) = pmtx s"
  "nIP (choose_slot s) = nIP s" "nCurentIP (choose_slot s) = nCurentIP s" "IPS (choose_slot s) = IPS s"
  "attempts (choose_slot s) = attempts s" "new_sockets (choose_slot s) = new_sockets s"
  "connect_ok (choose_slot s) = connect_ok s"
  by (simp_all add: choose_slot_def slot_of_def split: option.splits)

lemma open_slot_spec:
  assumes "nConnectID s < length (skHQ s)"
  shows "\<exists>s'. open_slot s = (Ret (), s') \<and> nConnectID s' = nConnectID s \<and> pmtx s' = pmtx s \<and>
    nIP s' = nIP s \<and> nCurentIP s' = nCurentIP s \<and> IPS s' = IPS s \<and> attempts s' = attempts s \<and>
    connect_ok s' = connect_ok s \<and> length (skHQ s') = length (skHQ s) \<and>
    (\<forall>j<length (skHQ s). j \<noteq> nConnectID s \<longrightarrow> skHQ s' ! j = skHQ s ! j) \<and>
    (skHQ s ! nConnectID s = INVALID_SOCKET \<longrightarrow> new_sockets s \<noteq> [] \<longrightarrow>
       skHQ s' = (skHQ s)[nConnectID s := hd (new_sockets s)]) \<and>
    (skHQ s ! nConnectID s \<noteq> INVALID_SOCKET \<longrightarrow> skHQ s' = skHQ s)"
  using assms by (auto simp: open_slot_def call_socket_def bnd_def split: list.splits)

lemma next_server_fields [simp]:
  "nConnectID (next_server s) = nConnectID s" "skHQ (next_server s) = skHQ s" "pmtx (next_server s) = pmtx s"
  "nIP (next_server s) = nIP s" "IPS (next_server s) = IPS s" "attempts (next_server s) = attempts s"
  "connect_ok (next_server s) = connect_ok s"
  by (simp_all add: next_server_def)

lemma next_server_index: "nIP s \<le> 100 \<Longrightarrow> nCurentIP (next_server s) = server_of s"
proof (cases "0 < nIP s")
  case True
  assume "nIP s \<le> 100"
  with mod_less_divisor [OF True, of "nCurentIP s"] have "nCurentIP s mod nIP s + 1 < 2 ^ 32" by simp
  from u32_add_eq [OF this] True show ?thesis by (simp add: next_server_def server_of_def)
qed (simp add: next_server_def server_of_def)

lemma connect_server_spec:
  assumes "nCurentIP s < length (IPS s)"
  shows "\<exists>c s'. connect_server s = (Ret c, s') \<and>
    c = (if connect_ok s \<noteq> [] \<and> hd (connect_ok s) \<and> skHQ s ! nConnectID s \<noteq> INVALID_SOCKET
         then int (nConnectID s) else TDXHQ_ERROR_CONT) \<and>
    nConnectID s' = nConnectID s \<and> skHQ s' = skHQ s \<and> pmtx s' = pmtx s \<and> nIP s' = nIP s \<and>
    nCurentIP s' = nCurentIP s \<and> IPS s' = IPS s \<and>
    attempts s' = attempts s @ [(skHQ s ! nConnectID s, nCurentIP s)]"
  using assms by (auto simp: connect_server_def call_connect_def bnd_def Let_def split: list.splits)

lemma TDXHQ_Connect_spec:
  assumes inv: "tdx_inv s" and room: "server_of s < 100"
  shows "\<exists>c s'. TDXHQ_Connect s = (Ret c, s') \<and> tdx_inv s' \<and>
    c = (if connect_ok s \<noteq> [] \<and> hd (connect_ok s) \<and> skHQ s' ! slot_of s \<noteq> INVALID_SOCKET
         then int (slot_of s) else TDXHQ_ERROR_CONT) \<and>
    nConnectID s' = slot_of s \<and> nIP s' = nIP s \<and> nCurentIP s' = server_of s \<and> IPS s' = IPS s \<and>
    attempts s' = attempts s @ [(skHQ s' ! slot_of s, server_of s)] \<and>
    (\<forall>j<CONNECTNUM. j \<noteq> slot_of s \<longrightarrow> skHQ s' ! j = skHQ s ! j) \<and>
    (skHQ s ! slot_of s = INVALID_SOCKET \<longrightarrow> new_sockets s \<noteq> [] \<longrightarrow>
       skHQ s' = (skHQ s)[slot_of s := hd (new_sockets s)]) \<and>
    (skHQ s ! slot_of s \<noteq> INVALID_SOCKET \<longrightarrow> skHQ s' = skHQ s)"
proof -
  let ?s1 = "choose_slot s"
  have fields: "pmtx s" "length (skHQ s) = CONNECTNUM" "length (IPS s) = 100" "nIP s \<le> 100"
    using inv by (simp_all add: tdx_inv_def)
  have slot: "nConnectID ?s1 < length (skHQ ?s1)" using slot_of_less [OF inv] fields by simp
  from open_slot_spec [OF slot] obtain s2 where s2: "open_slot ?s1 = (Ret (), s2)"
    and f2: "nConnectID s2 = slot_of s" "pmtx s2 = pmtx s" "nIP s2 = nIP s" "nCurentIP s2 = nCurentIP s"
      "IPS s2 = IPS s" "attempts s2 = attempts s" "connect_ok s2 = connect_ok s"
      "length (skHQ s2) = length (skHQ s)"
      "\<forall>j<length (skHQ s). j \<noteq> slot_of s \<longrightarrow> skHQ s2 ! j = skHQ s ! j"
      "skHQ s ! slot_of s = INVALID_SOCKET \<longrightarrow> new_sockets s \<noteq> [] \<longrightarrow>
         skHQ s2 = (skHQ s)[slot_of s := hd (new_sockets s)]"
      "skHQ s ! slot_of s \<noteq> INVALID_SOCKET \<longrightarrow> skHQ s2 = skHQ s" by auto
  have srv: "server_of s2 = server_of s" by (simp add: server_of_def f2)
  have idx: "nCurentIP (next_server s2) = server_of s"
    using next_server_index [of s2] fields f2 srv by simp
  then have "nCurentIP (next_server s2) < length (IPS (next_server s2))" using room fields f2 by simp
  from connect_server_spec [OF this] obtain c s3 where s3: "connect_server (next_server s2) = (Ret c, s3)"
    and f3: "c = (if connect_ok s \<noteq> [] \<and> hd (connect_ok s) \<and> skHQ s2 ! slot_of s \<noteq> INVALID_SOCKET
         then int (slot_of s) else TDXHQ_ERROR_CONT)"
      "nConnectID s3 = slot_of s" "skHQ s3 = skHQ s2" "pmtx s3 = pmtx s" "nIP s3 = nIP s"
      "nCurentIP s3 = server_of s" "IPS s3 = IPS s"
      "attempts s3 = attempts s @ [(skHQ s2 ! slot_of s, server_of s)]"
    by (auto simp: f2 idx)
  have run: "TDXHQ_Connect s = (Ret c, s3)"
    using fields s2 s3 by (simp add: TDXHQ_Connect_def)
  have "tdx_inv s3"
    using inv fields slot_of_less [OF inv] server_of_le [OF inv] f2 f3 by (simp add: tdx_inv_def)
  with run f2 f3 fields show ?thesis by auto
qed

text \<open>An attempt that would use the place after the last one of the server array is undefined.\<close>

lemma TDXHQ_Connect_overrun:
  assumes "tdx_inv s" "server_of s = 100"
  shows "fst (TDXHQ_Connect s) = Abort Undefined"
proof -
  have fields: "pmtx s" "length (skHQ s) = CONNECTNUM" "length (IPS s) = 100" "nIP s \<le> 100"
    using assms(1) by (simp_all add: tdx_inv_def)
  have slot: "nConnectID (choose_slot s) < length (skHQ (choose_slot s))"
    using slot_of_less [OF assms(1)] fields by simp
  from open_slot_spec [OF slot] obtain s2 where s2: "open_slot (choose_slot s) = (Ret (), s2)"
    and f2: "nIP s2 = nIP s" "nCurentIP s2 = nCurentIP s" "IPS s2 = IPS s" by auto
  have "server_of s2 = server_of s" by (simp add: server_of_def f2)
  then have "nCurentIP (next_server s2) = 100"
    using next_server_index [of s2] fields f2 assms(2) by simp
  then show ?thesis using fields s2 f2 by (simp add: TDXHQ_Connect_def connect_server_def)
qed

lemma TDXHQ_DisConnect_spec:
  assumes "tdx_inv s" "0 \<le> conID" "conID < int CONNECTNUM"
  shows "\<exists>s'. TDXHQ_DisConnect conID s = (Ret TDXHQ_ERROR_OK, s') \<and> tdx_inv s' \<and>
    skHQ s' = (skHQ s)[nat conID := INVALID_SOCKET] \<and> nIP s' = nIP s \<and> nCurentIP s' = nCurentIP s \<and>
    IPS s' = IPS s \<and> attempts s' = attempts s \<and>
    closed_sockets s' = closed_sockets s @ filter (\<lambda>k. k \<noteq> INVALID_SOCKET) [skHQ s ! nat conID]"
proof -
  have "(skHQ s)[nat conID := INVALID_SOCKET] = skHQ s" if "skHQ s ! nat conID = INVALID_SOCKET"
    using that by (metis list_update_id)
  with assms show ?thesis
    by (auto simp: TDXHQ_DisConnect_def tdx_inv_def)
qed

section \<open>Runs\<close>

text \<open>
  The callers of the DLL, in any order and from any thread: connection attempts and disconnections
  of valid identifiers. (Requests do not touch the table.)
\<close>

inductive tdx_step :: "tdx \<Rightarrow> tdx \<Rightarrow> bool" where
  connect: "TDXHQ_Connect s = (Ret c, s') \<Longrightarrow> tdx_step s s'"
| disconnect: "0 \<le> conID \<Longrightarrow> conID < int CONNECTNUM \<Longrightarrow>
     TDXHQ_DisConnect conID s = (Ret c, s') \<Longrightarrow> tdx_step s s'"

inductive tdx_reach :: "tdx \<Rightarrow> tdx \<Rightarrow> bool" for s0 where
  start: "tdx_reach s0 s0"
| step: "tdx_reach s0 s \<Longrightarrow> tdx_step s s' \<Longrightarrow> tdx_reach s0 s'"

text \<open>
  The servers are tried in turn. The attempts made since initialisation, counted from zero, use the
  indices \<open>i mod nIP + 1\<close>.
\<close>

definition round_robin :: "tdx \<Rightarrow> tdx \<Rightarrow> bool" where
  "round_robin s0 s \<longleftrightarrow>
     tdx_inv s \<and> nIP s = nIP s0 \<and> IPS s = IPS s0 \<and>
     (\<exists>tr. attempts s = attempts s0 @ tr \<and>
        map snd tr = map (\<lambda>i. i mod nIP s0 + 1) [0..<length tr] \<and>
        nCurentIP s = (if tr = [] then 0 else (length tr - 1) mod nIP s0 + 1))"

lemma server_of_round_robin:
  assumes "0 < n" "nIP s = n" "nCurentIP s = (if m = 0 then 0 else (m - 1) mod n + 1)"
  shows "server_of s = m mod n + 1"
proof (cases m)
  case (Suc k)
  have "(k mod n + 1) mod n = (k + 1) mod n" by (simp add: mod_Suc_eq)
  with Suc assms show ?thesis by (simp add: server_of_def)
qed (use assms in \<open>simp add: server_of_def\<close>)

lemma tdx_step_round_robin:
  assumes "tdx_step s s'" "round_robin s0 s" "0 < nIP s0" "nIP s0 < 100"
  shows "round_robin s0 s'"
  using assms(1)
proof cases
  case (connect c)
  from assms(2) obtain tr where inv: "tdx_inv s" "nIP s = nIP s0" "IPS s = IPS s0"
    and tr: "attempts s = attempts s0 @ tr" "map snd tr = map (\<lambda>i. i mod nIP s0 + 1) [0..<length tr]"
      "nCurentIP s = (if tr = [] then 0 else (length tr - 1) mod nIP s0 + 1)"
    by (auto simp: round_robin_def)
  have srv: "server_of s = length tr mod nIP s0 + 1"
    using server_of_round_robin [OF assms(3) inv(2)] tr(3) by simp
  have "length tr mod nIP s0 < nIP s0" using assms(3) by simp
  then have "server_of s < 100" using srv assms(4) by linarith
  from TDXHQ_Connect_spec [OF inv(1) this] connect obtain k where
    "tdx_inv s'" "nIP s' = nIP s" "nCurentIP s' = server_of s" "IPS s' = IPS s"
    "attempts s' = attempts s @ [(k, server_of s)]" by auto
  then show ?thesis
    using inv tr srv unfolding round_robin_def by (intro conjI exI [of _ "tr @ [(k, server_of s)]"]) auto
next
  case (disconnect conID c)
  from assms(2) have inv: "tdx_inv s" by (simp add: round_robin_def)
  from TDXHQ_DisConnect_spec [OF inv disconnect(1,2)] disconnect(3) show ?thesis
    using assms(2) by (auto simp: round_robin_def)
qed

lemma tdx_reach_round_robin:
  assumes "tdx_reach s0 s" "tdx_inv s0" "nCurentIP s0 = 0" "0 < nIP s0" "nIP s0 < 100"
  shows "round_robin s0 s"
  using assms(1)
proof induction
  case start
  show ?case using assms by (auto simp: round_robin_def)
next
  case (step s s')
  then show ?case using assms tdx_step_round_robin by blast
qed

section \<open>Properties\<close>

text \<open>A concrete environment, for the instances below: a machine with three servers in its configuration.\<close>

definition init_platform :: platform where
  "init_platform =
     \<lparr>AfxExtractSubString = (\<lambda>line n c. if n = 0 then takeWhile (\<lambda>d. d \<noteq> c) line
        else drop 1 (dropWhile (\<lambda>d. d \<noteq> c) line)),
      inet_addr = length, uncompress = (\<lambda>z n. ([], 0)), format_infinite = ''1.#IO''\<rparr>"

definition fresh_tdx :: "int list \<Rightarrow> bool list \<Rightarrow> tdx" where
  "fresh_tdx ks oks =
     \<lparr>nIP = 0, nCurentIP = 0, nConnectID = 0, skHQ = replicate CONNECTNUM 0, pmtx = False, dwAutoConnect = 0,
      IPS = replicate 100 null_addr, wire = (\<lambda>_. \<lparr>incoming = [], sending = [], outgoing = []\<rparr>),
      new_sockets = ks, connect_ok = oks, attempts = [], closed_sockets = [], boxes = []\<rparr>"

definition three_lines :: "string list" where
  "three_lines = [''1.2.3.4:7709'', ''1.2.3.5:7709'', ''1.2.3.6:7709'']"

definition ready_tdx :: "int list \<Rightarrow> bool list \<Rightarrow> tdx" where
  "ready_tdx ks oks = snd (TDXHQ_Init init_platform (Some three_lines) 0 0 (fresh_tdx ks oks))"

lemma init_three_lines:
  "TDXHQ_Init init_platform (Some three_lines) 0 0 (fresh_tdx ks oks) = (Ret TDXHQ_ERROR_OK, ready_tdx ks oks)"
  by (simp add: ready_tdx_def TDXHQ_Init_def three_lines_def fresh_tdx_def Let_def)

lemma ready_tdx_inv: "tdx_inv (ready_tdx ks oks)"
  using TDXHQ_Init_inv [OF init_three_lines] by (simp add: fresh_tdx_def)

lemma ready_tdx_fields:
  "nIP (ready_tdx ks oks) = 3" "nCurentIP (ready_tdx ks oks) = 0"
  "skHQ (ready_tdx ks oks) = replicate CONNECTNUM INVALID_SOCKET"
  "new_sockets (ready_tdx ks oks) = ks" "connect_ok (ready_tdx ks oks) = oks" "attempts (ready_tdx ks oks) = []"
  by (simp_all add: ready_tdx_def TDXHQ_Init_def three_lines_def fresh_tdx_def Let_def)

lemma seven_valid: "7 \<noteq> INVALID_SOCKET" "INVALID_SOCKET \<noteq> 7"
  by (simp_all add: INVALID_SOCKET_def)

lemma free_slot_replicate: "free_slot (replicate CONNECTNUM INVALID_SOCKET) = Some 0"
  by (simp add: CONNECTNUM_def numeral_eq_Suc)

text \<open>
  Property C33. Initialisation with at most 100 configured servers succeeds and establishes the
  invariant of the connection table: all slots free, the servers of the file in order at the start
  of the address array, and their number recorded.
\<close>

theorem Init_establishes:
  assumes "length (IPS s) = 100" "length lines \<le> 100"
  shows "\<exists>s'. TDXHQ_Init P (Some lines) f a s = (Ret TDXHQ_ERROR_OK, s') \<and> tdx_inv s' \<and>
    skHQ s' = replicate CONNECTNUM INVALID_SOCKET \<and> nIP s' = length lines \<and> nCurentIP s' = 0 \<and>
    (\<forall>j<length lines. IPS s' ! j = parse_server P (lines ! j))"
proof -
  obtain ips where r: "read_servers P lines 0 (IPS s) = Ret (ips, length lines)"
    using read_servers_fits [of 0 lines "IPS s" P] assms by auto
  then obtain s' where s': "TDXHQ_Init P (Some lines) f a s = (Ret TDXHQ_ERROR_OK, s')"
    "skHQ s' = replicate CONNECTNUM INVALID_SOCKET" "nIP s' = length lines" "nCurentIP s' = 0" "IPS s' = ips"
    by (auto simp: TDXHQ_Init_def Let_def)
  moreover have "tdx_inv s'" using TDXHQ_Init_inv [OF s'(1) assms(1)] .
  moreover have "\<forall>j<length lines. ips ! j = parse_server P (lines ! j)"
    using read_servers_Ret [OF r] assms by auto
  ultimately show ?thesis by auto
qed

theorem Init_establishes_witness:
  "\<exists>s'. TDXHQ_Init init_platform (Some three_lines) 0 1 (fresh_tdx [] []) = (Ret TDXHQ_ERROR_OK, s') \<and> tdx_inv s' \<and>
    skHQ s' = replicate CONNECTNUM INVALID_SOCKET \<and> nIP s' = length three_lines \<and> nCurentIP s' = 0 \<and>
    (\<forall>j<length three_lines. IPS s' ! j = parse_server init_platform (three_lines ! j))"
  by (rule Init_establishes) (simp_all add: fresh_tdx_def three_lines_def)

text \<open>
  A configuration with more lines than the address array has places writes outside it.
\<close>

theorem Init_overflow:
  assumes "length (IPS s) = 100" "100 < length lines"
  shows "fst (TDXHQ_Init P (Some lines) f a s) = Abort Undefined"
  using read_servers_overflow [of "IPS s" 0 lines P] assms by (simp add: TDXHQ_Init_def Let_def)

theorem Init_overflow_witness:
  "fst (TDXHQ_Init init_platform (Some (replicate 101 ''1.2.3.4:7709'')) 0 0 (fresh_tdx [] [])) = Abort Undefined"
  by (rule Init_overflow) (simp_all add: fresh_tdx_def)

text \<open>
  Property C24. From initialisation on, in every interleaving of connections and disconnections, the
  connection attempts use the places 1, 2, ..., \<open>n\<close>, 1, 2, ... of the address array in turn, where
  \<open>n\<close> is the number of configured servers: the first server of the file, in place 0, is never
  tried, and place \<open>n\<close>, which the file does not fill, is tried every \<open>n\<close> attempts.
\<close>

theorem Connect_round_robin:
  assumes init: "TDXHQ_Init P (Some lines) f a s = (Ret c, s0)" "length (IPS s) = 100"
    and n: "0 < length lines" "length lines < 100"
    and run: "tdx_reach s0 s'"
  shows "tdx_inv s' \<and> (\<exists>tr. attempts s' = attempts s @ tr \<and>
    map snd tr = map (\<lambda>i. i mod length lines + 1) [0..<length tr] \<and> 0 \<notin> snd ` set tr) \<and>
    IPS s' ! length lines = IPS s ! length lines"
proof -
  from init(1) obtain ips m where r: "read_servers P lines 0 (IPS s) = Ret (ips, m)"
    and s0: "s0 = s\<lparr>dwAutoConnect := a, IPS := ips, nCurentIP := 0, nConnectID := 0, nIP := m,
              pmtx := True, skHQ := replicate CONNECTNUM INVALID_SOCKET\<rparr>"
    by (auto simp: TDXHQ_Init_def Let_def split: res.splits prod.splits)
  from read_servers_Ret [OF r] init(2) n have m: "m = length lines" and
    ips: "ips ! length lines = IPS s ! length lines" by auto
  have rr: "round_robin s0 s'"
    by (rule tdx_reach_round_robin [OF run TDXHQ_Init_inv [OF init]]) (use s0 m n in simp_all)
  then obtain tr where tr: "attempts s' = attempts s @ tr"
    "map snd tr = map (\<lambda>i. i mod length lines + 1) [0..<length tr]" and keep: "IPS s' = ips" "tdx_inv s'"
    by (auto simp: round_robin_def s0 m)
  have "snd ` set tr = set (map (\<lambda>i. i mod length lines + 1) [0..<length tr])"
    using tr(2) by (metis list.set_map)
  then have "0 \<notin> snd ` set tr" by auto
  with tr keep ips show ?thesis by blast
qed

theorem Connect_round_robin_witness:
  "\<exists>s'. tdx_reach (ready_tdx [7] [True]) s' \<and> attempts s' = [(7, 1)] \<and>
    (\<exists>tr. attempts s' = attempts (fresh_tdx [7] [True]) @ tr \<and>
       map snd tr = map (\<lambda>i. i mod length three_lines + 1) [0..<length tr] \<and> 0 \<notin> snd ` set tr)"
proof -
  let ?s = "ready_tdx [7] [True]"
  have srv: "server_of ?s < 100" by (simp add: server_of_def ready_tdx_fields)
  have slot: "slot_of ?s = 0" by (simp add: slot_of_def ready_tdx_fields free_slot_replicate)
  from TDXHQ_Connect_spec [OF ready_tdx_inv srv] obtain c s' where
    con: "TDXHQ_Connect ?s = (Ret c, s')" and at: "attempts s' = [(7, 1)]"
    by (auto simp: slot ready_tdx_fields server_of_def CONNECTNUM_def)
  have run: "tdx_reach ?s s'" using con by (blast intro: tdx_reach.intros tdx_step.intros)
  have "length (IPS (fresh_tdx [7] [True])) = 100" "0 < length three_lines" "length three_lines < 100"
    by (simp_all add: fresh_tdx_def three_lines_def)
  from Connect_round_robin [OF init_three_lines this run] run at show ?thesis by blast
qed

text \<open>
  A successful attempt returns the first free slot: the new socket is stored there, no
  other slot changes, and it is the socket that was connected.
\<close>

theorem Connect_allocates:
  assumes "tdx_inv s" "server_of s < 100" "free_slot (skHQ s) = Some i" "new_sockets s = k # ks"
    "k \<noteq> INVALID_SOCKET" "connect_ok s = True # oks"
  shows "\<exists>s'. TDXHQ_Connect s = (Ret (int i), s') \<and> tdx_inv s' \<and> skHQ s' = (skHQ s)[i := k] \<and>
    attempts s' = attempts s @ [(k, server_of s)]"
proof -
  have i: "slot_of s = i" "skHQ s ! i = INVALID_SOCKET" "i < length (skHQ s)"
    using assms(3) free_slot_Some by (auto simp: slot_of_def)
  from TDXHQ_Connect_spec [OF assms(1,2)] i assms(4-6) show ?thesis by auto
qed

theorem Connect_allocates_witness:
  "\<exists>s'. TDXHQ_Connect (ready_tdx [7] [True]) = (Ret (int 0), s') \<and> tdx_inv s' \<and>
    skHQ s' = (skHQ (ready_tdx [7] [True]))[0 := 7] \<and>
    attempts s' = attempts (ready_tdx [7] [True]) @ [(7, server_of (ready_tdx [7] [True]))]"
  by (rule Connect_allocates [where ks = "[]" and oks = "[]"])
    (simp_all add: ready_tdx_inv ready_tdx_fields free_slot_replicate server_of_def seven_valid)

text \<open>
  A failed attempt returns \<open>TDXHQ_ERROR_CONT\<close> and yet keeps the slot: its socket stays in
  the table, where nothing tells the caller which slot to disconnect, and the slot is not free for
  the next attempt.
\<close>

theorem Connect_failure_keeps_slot:
  assumes "tdx_inv s" "server_of s < 100" "free_slot (skHQ s) = Some i" "new_sockets s = k # ks"
    "k \<noteq> INVALID_SOCKET" "connect_ok s = False # oks"
  shows "\<exists>s'. TDXHQ_Connect s = (Ret TDXHQ_ERROR_CONT, s') \<and> skHQ s' = (skHQ s)[i := k] \<and>
    free_slot (skHQ s') \<noteq> Some i"
proof -
  have i: "slot_of s = i" "skHQ s ! i = INVALID_SOCKET" "i < length (skHQ s)"
    using assms(3) free_slot_Some by (auto simp: slot_of_def)
  from TDXHQ_Connect_spec [OF assms(1,2)] i assms(4-6) obtain s' where
    s': "TDXHQ_Connect s = (Ret TDXHQ_ERROR_CONT, s')" "skHQ s' = (skHQ s)[i := k]" by auto
  have "free_slot (skHQ s') \<noteq> Some i"
    using free_slot_Some [of "skHQ s'" i] s'(2) i(3) assms(5) by auto
  with s' show ?thesis by auto
qed

theorem Connect_failure_keeps_slot_witness:
  "\<exists>s'. TDXHQ_Connect (ready_tdx [7] [False]) = (Ret TDXHQ_ERROR_CONT, s') \<and>
    skHQ s' = (skHQ (ready_tdx [7] [False]))[0 := 7] \<and> free_slot (skHQ s') \<noteq> Some 0"
  by (rule Connect_failure_keeps_slot [where ks = "[]" and oks = "[]"])
    (simp_all add: ready_tdx_inv ready_tdx_fields free_slot_replicate server_of_def seven_valid)

end
