(* ===== verification/ByteBuffer.thy ===== *)
theory ByteBuffer
  imports Prelude
begin

text \<open>
  \<^verbatim>\<open>CByteBuffer\<close> of src/TDXHQ/ByteBuffer.h: a growable byte array with a read and a write position,
  through which the quotation client builds its requests and reads its reply headers. Positions
  and sizes are the 32-bit \<^verbatim>\<open>size_t\<close> of the build, with its wrap-around. The diagnostic files the
  catch blocks write before they throw again are the \<open>dumps\<close> of the state. Values are stored in
  the byte order of the machine, little endian; \<^verbatim>\<open>float\<close> and \<^verbatim>\<open>double\<close> are their bit patterns.
\<close>

section \<open>The byte order\<close>

fun le_bytes :: "nat \<Rightarrow> nat \<Rightarrow> byte list" where
  "le_bytes 0 v = []"
| "le_bytes (Suc n) v = word_of_nat v # le_bytes n (v div 256)"

fun le_val :: "byte list \<Rightarrow> nat" where
  "le_val [] = 0"
| "le_val (b # bs) = unat b + 256 * le_val bs"

lemma length_le_bytes [simp]: "length (le_bytes n v) = n"
  by (induction n arbitrary: v) auto

lemma le_val_bytes: "le_val (le_bytes n v) = v mod 256 ^ n"
proof (induction n arbitrary: v)
  case (Suc n)
  have "unat (word_of_nat v :: byte) = v mod 256" by (simp add: unat_of_nat)
  with Suc show ?case by (simp add: mod_mult2_eq add.commute)
qed simp

lemma le_bytes_val: "le_bytes (length bs) (le_val bs) = bs"
proof (induction bs)
  case (Cons b bs)
  have "unat b < 256" using unsigned_less [of b] by simp
  then have "(unat b + 256 * le_val bs) div 256 = le_val bs" by simp
  moreover have "word_of_nat (unat b + 256 * le_val bs) = b"
  proof -
    have "word_of_nat (unat b + 256 * le_val bs) = (b + 256 * word_of_nat (le_val bs) :: byte)"
      by simp
    also have "(256 :: byte) = 0" by simp
    finally show ?thesis by simp
  qed
  ultimately show ?case using Cons by simp
qed simp

lemma le_val_less: "le_val bs < 256 ^ length bs"
proof (induction bs)
  case (Cons b bs)
  have "unat b < 256" using unsigned_less [of b] by simp
  then have "unat b + 256 * le_val bs < 256 + 256 * le_val bs" by simp
  also have "\<dots> \<le> 256 * 256 ^ length bs" using Cons by (simp add: Suc_leI flip: mult_Suc_right)
  finally show ?case by simp
qed simp

definition word_bytes :: "'a::len word \<Rightarrow> byte list" where
  "word_bytes w = le_bytes (LENGTH('a) div 8) (unat w)"

definition bytes_word :: "byte list \<Rightarrow> 'a::len word" where
  "bytes_word bs = word_of_nat (le_val bs)"

lemma bytes_word_bytes:
  assumes "LENGTH('a::len) = 8 * k"
  shows "bytes_word (word_bytes w) = (w :: 'a word)"
proof -
  have "unat w < 256 ^ k"
    using unsigned_less [of w] assms by (simp add: power_mult)
  then show ?thesis
    using assms by (simp add: bytes_word_def word_bytes_def le_val_bytes)
qed

section \<open>State\<close>

record bytebuffer =
  mReadPos :: nat
  mWritePos :: nat
  mStorage :: "byte list"
  dumps :: "byte list list"

type_synonym 'a bb = "(bytebuffer, 'a) io"

definition DEFAULT_SIZE :: nat where
  "DEFAULT_SIZE = 0x4000"

definition CByteBuffer :: bytebuffer where
  "CByteBuffer = \<lparr>mReadPos = 0, mWritePos = 0, mStorage = [], dumps = []\<rparr>"

text \<open>Reserving capacity is not observable in the contents.\<close>

definition CByteBuffer_reserve :: "nat \<Rightarrow> bytebuffer" where
  "CByteBuffer_reserve res = \<lparr>mReadPos = 0, mWritePos = 0, mStorage = [], dumps = []\<rparr>"

definition CByteBuffer_copy :: "bytebuffer \<Rightarrow> bytebuffer" where
  "CByteBuffer_copy buf =
     \<lparr>mReadPos = mReadPos buf, mWritePos = mWritePos buf, mStorage = mStorage buf, dumps = []\<rparr>"

definition bb_clear :: "unit bb" where
  "bb_clear b = (Ret (), b\<lparr>mStorage := [], mReadPos := 0, mWritePos := 0\<rparr>)"

definition bb_size :: "bytebuffer \<Rightarrow> nat" where
  "bb_size b = length (mStorage b)"

definition bb_empty :: "bytebuffer \<Rightarrow> bool" where
  "bb_empty b = (mStorage b = [])"

definition bb_rpos :: "bytebuffer \<Rightarrow> nat" where
  "bb_rpos b = mReadPos b"

definition bb_set_rpos :: "nat \<Rightarrow> nat bb" where
  "bb_set_rpos p b = (Ret p, b\<lparr>mReadPos := p\<rparr>)"

definition bb_wpos :: "bytebuffer \<Rightarrow> nat" where
  "bb_wpos b = mWritePos b"

definition bb_set_wpos :: "nat \<Rightarrow> nat bb" where
  "bb_set_wpos p b = (Ret p, b\<lparr>mWritePos := p\<rparr>)"

text \<open>The pointer \<^verbatim>\<open>contents\<close> returns: the bytes from the read position on.\<close>

definition bb_contents :: "bytebuffer \<Rightarrow> byte list" where
  "bb_contents b = drop (mReadPos b) (mStorage b)"

text \<open>\<^verbatim>\<open>vector::resize\<close>: new elements are zero; more than the address space cannot be had.\<close>

definition vec_resize :: "nat \<Rightarrow> byte list \<Rightarrow> byte list res" where
  "vec_resize n xs =
     (if n < 2 ^ 31 then Ret (take n xs @ replicate (n - length xs) 0) else Throw bad_alloc)"

definition bb_resize :: "nat \<Rightarrow> unit bb" where
  "bb_resize n b =
     (case vec_resize n (mStorage b) of
        Ret st \<Rightarrow> (Ret (), b\<lparr>mStorage := st, mReadPos := 0, mWritePos := length st\<rparr>)
      | Throw e \<Rightarrow> (Throw e, b)
      | Abort f \<Rightarrow> (Abort f, b))"

definition bb_reserve :: "nat \<Rightarrow> unit bb" where
  "bb_reserve n b = (if bb_size b < n \<and> 2 ^ 31 \<le> n then (Throw bad_alloc, b) else (Ret (), b))"

section \<open>Writing\<close>

text \<open>
  \<^verbatim>\<open>append(const uint8 *src, size_t cnt)\<close>: the catch block is for \<^verbatim>\<open>CException*\<close>, which nothing in the
  body throws, so a failed allocation leaves through it. The assertion is that of a debug build; a
  release build drops it and copies.
\<close>

definition bb_append :: "byte list \<Rightarrow> nat \<Rightarrow> unit bb" where
  "bb_append src cnt b =
     (if cnt = 0 then (Ret (), b)
      else if \<not> bb_size b < 10000000 then (Abort AssertFailed, b)
      else
        (case (if bb_size b < u32_add (mWritePos b) cnt
               then vec_resize (u32_add (mWritePos b) cnt) (mStorage b) else Ret (mStorage b)) of
           Ret st \<Rightarrow>
             (if length st < mWritePos b + cnt \<or> length src < cnt
              then (Abort Undefined, b\<lparr>mStorage := st\<rparr>)
              else (Ret (),
                    b\<lparr>mStorage := take (mWritePos b) st @ take cnt src @ drop (mWritePos b + cnt) st,
                      mWritePos := u32_add (mWritePos b) cnt\<rparr>))
         | Throw e \<Rightarrow> (Throw e, b)
         | Abort f \<Rightarrow> (Abort f, b)))"

definition bb_append_T :: "('v \<Rightarrow> byte list) \<Rightarrow> 'v \<Rightarrow> unit bb" where
  "bb_append_T enc v = bb_append (enc v) (length (enc v))"

definition char_byte :: "char \<Rightarrow> byte" where
  "char_byte c = word_of_nat (of_char c)"

definition byte_char :: "byte \<Rightarrow> char" where
  "byte_char b = char_of (unat b)"

definition string_bytes :: "string \<Rightarrow> byte list" where
  "string_bytes s = map char_byte s"

definition bb_append_chars :: "string \<Rightarrow> nat \<Rightarrow> unit bb" where
  "bb_append_chars src cnt = bb_append (string_bytes src) cnt"

text \<open>\<^verbatim>\<open>append(const std::string&)\<close> stores the terminating zero as well.\<close>

definition bb_append_string :: "string \<Rightarrow> unit bb" where
  "bb_append_string s = bb_append (string_bytes s @ [0]) (u32_add (length s) 1)"

text \<open>
  \<^verbatim>\<open>append(const CByteBuffer&)\<close> copies \<^verbatim>\<open>size()\<close> bytes from \<^verbatim>\<open>contents()\<close>, which starts at the read
  position.
\<close>

definition bb_append_buffer :: "bytebuffer \<Rightarrow> unit bb" where
  "bb_append_buffer buf =
     (if bb_size buf \<noteq> 0 then bb_append (bb_contents buf) (bb_size buf) else ret ())"

definition PrintPosError :: "bool \<Rightarrow> nat \<Rightarrow> nat \<Rightarrow> bool" where
  "PrintPosError adding pos esize = False"

definition bb_put :: "nat \<Rightarrow> byte list \<Rightarrow> nat \<Rightarrow> unit bb" where
  "bb_put pos src cnt b =
     (if \<not> (u32_add pos cnt \<le> bb_size b \<or> PrintPosError True pos cnt) then (Abort AssertFailed, b)
      else if bb_size b < pos + cnt \<or> length src < cnt then (Abort Undefined, b)
      else (Ret (), b\<lparr>mStorage := take pos (mStorage b) @ take cnt src @ drop (pos + cnt) (mStorage b)\<rparr>))"

definition bb_put_T :: "('v \<Rightarrow> byte list) \<Rightarrow> nat \<Rightarrow> 'v \<Rightarrow> unit bb" where
  "bb_put_T enc pos v = bb_put pos (enc v) (length (enc v))"

text \<open>The stream insertions.\<close>

definition bool_bytes :: "bool \<Rightarrow> byte list" where
  "bool_bytes v = [if v then 1 else 0]"

definition put_bool :: "bool \<Rightarrow> unit bb" where
  "put_bool v = bb_append_T bool_bytes v"

definition put_uint8 :: "8 word \<Rightarrow> unit bb" where
  "put_uint8 v = bb_append_T word_bytes v"

definition put_uint16 :: "16 word \<Rightarrow> unit bb" where
  "put_uint16 v = bb_append_T word_bytes v"

definition put_uint32 :: "32 word \<Rightarrow> unit bb" where
  "put_uint32 v = bb_append_T word_bytes v"

definition put_uint64 :: "64 word \<Rightarrow> unit bb" where
  "put_uint64 v = bb_append_T word_bytes v"

text \<open>Signed values are stored as their two's complement patterns.\<close>

definition put_int8 :: "int \<Rightarrow> unit bb" where
  "put_int8 v = bb_append_T (\<lambda>i. word_bytes (word_of_int i :: 8 word)) v"

definition put_int16 :: "int \<Rightarrow> unit bb" where
  "put_int16 v = bb_append_T (\<lambda>i. word_bytes (word_of_int i :: 16 word)) v"

definition put_int32 :: "int \<Rightarrow> unit bb" where
  "put_int32 v = bb_append_T (\<lambda>i. word_bytes (word_of_int i :: 32 word)) v"

definition put_int64 :: "int \<Rightarrow> unit bb" where
  "put_int64 v = bb_append_T (\<lambda>i. word_bytes (word_of_int i :: 64 word)) v"

definition put_float :: "32 word \<Rightarrow> unit bb" where
  "put_float v = bb_append_T word_bytes v"

definition put_double :: "64 word \<Rightarrow> unit bb" where
  "put_double v = bb_append_T word_bytes v"

definition put_string :: "string \<Rightarrow> unit bb" where
  "put_string s = sq (bb_append (string_bytes s) (length s)) (bb_append_T word_bytes (0 :: 8 word))"

text \<open>A null pointer is \<open>None\<close>; a C string ends before its first zero character.\<close>

definition put_cstr :: "string option \<Rightarrow> unit bb" where
  "put_cstr str =
     sq (case str of None \<Rightarrow> bb_append [] 0
         | Some s \<Rightarrow> bb_append (string_bytes s) (length (takeWhile (\<lambda>c. c \<noteq> CHR 0x00) s)))
        (bb_append_T word_bytes (0 :: 8 word))"

section \<open>Reading\<close>

text \<open>The catch blocks write the whole storage to a file and throw the exception again.\<close>

definition bb_dump_throw :: "'a bb" where
  "bb_dump_throw b =
     (Throw (out_of_range ''out of range''), b\<lparr>dumps := dumps b @ [mStorage b]\<rparr>)"

definition bb_read_at :: "nat \<Rightarrow> (byte list \<Rightarrow> 'v) \<Rightarrow> nat \<Rightarrow> 'v bb" where
  "bb_read_at sz dec pos b =
     (if bb_size b < u32_add pos sz then bb_dump_throw b
      else if bb_size b \<le> pos then bb_dump_throw b
      else if bb_size b < pos + sz then (Abort Undefined, b)
      else (Ret (dec (take sz (drop pos (mStorage b)))), b))"

definition bb_read_T :: "nat \<Rightarrow> (byte list \<Rightarrow> 'v) \<Rightarrow> 'v bb" where
  "bb_read_T sz dec =
     (\<lambda>b. bnd (bb_read_at sz dec (mReadPos b))
            (\<lambda>r b'. (Ret r, b'\<lparr>mReadPos := u32_add (mReadPos b') sz\<rparr>)) b)"

definition bb_read :: "nat \<Rightarrow> byte list bb" where
  "bb_read len b =
     (if bb_size b < u32_add (mReadPos b) len then bb_dump_throw b
      else if bb_size b \<le> mReadPos b then bb_dump_throw b
      else if bb_size b < mReadPos b + len then (Abort Undefined, b)
      else (Ret (take len (drop (mReadPos b) (mStorage b))), b\<lparr>mReadPos := u32_add (mReadPos b) len\<rparr>))"

definition bb_index :: "nat \<Rightarrow> 8 word bb" where
  "bb_index pos = bb_read_at 1 bytes_word pos"

text \<open>The stream extractions; \<^verbatim>\<open>char\<close> is signed.\<close>

definition get_bool :: "bool bb" where
  "get_bool = bnd (bb_read_T 1 (\<lambda>bs. sint (bytes_word bs :: 8 word))) (\<lambda>c. ret (0 < c))"

definition get_uint8 :: "8 word bb" where
  "get_uint8 = bb_read_T 1 bytes_word"

definition get_uint16 :: "16 word bb" where
  "get_uint16 = bb_read_T 2 bytes_word"

definition get_uint32 :: "32 word bb" where
  "get_uint32 = bb_read_T 4 bytes_word"

definition get_uint64 :: "64 word bb" where
  "get_uint64 = bb_read_T 8 bytes_word"

definition get_int8 :: "int bb" where
  "get_int8 = bb_read_T 1 (\<lambda>bs. sint (bytes_word bs :: 8 word))"

definition get_int16 :: "int bb" where
  "get_int16 = bb_read_T 2 (\<lambda>bs. sint (bytes_word bs :: 16 word))"

definition get_int32 :: "int bb" where
  "get_int32 = bb_read_T 4 (\<lambda>bs. sint (bytes_word bs :: 32 word))"

definition get_int64 :: "int bb" where
  "get_int64 = bb_read_T 8 (\<lambda>bs. sint (bytes_word bs :: 64 word))"

definition get_float :: "32 word bb" where
  "get_float = bb_read_T 4 bytes_word"

definition get_double :: "64 word bb" where
  "get_double = bb_read_T 8 bytes_word"

text \<open>
  \<^verbatim>\<open>operator>>(time_t value)\<close> takes its argument by value: it moves the read position over eight
  bytes (\<^verbatim>\<open>time_t\<close> of the compiler is 64 bits wide) and the caller's variable keeps its value.
\<close>

definition get_time_t :: "int \<Rightarrow> int bb" where
  "get_time_t caller = bnd (bb_read_T 8 (\<lambda>bs. sint (bytes_word bs :: 64 word))) (\<lambda>value. ret caller)"

text \<open>
  The loop of the two string extractions, up to a zero byte or the end of the storage. The first
  argument bounds its turns: the bytes left to read are enough (\<open>get_chars_total\<close>).
\<close>

fun get_chars :: "nat \<Rightarrow> string \<Rightarrow> string bb" where
  "get_chars 0 acc b = (if mReadPos b < bb_size b then (Abort Blocked, b) else (Ret acc, b))"
| "get_chars (Suc n) acc b =
     (if mReadPos b < bb_size b
      then bnd (bb_read_T 1 (\<lambda>bs. byte_char (bytes_word bs)))
             (\<lambda>c. if c = CHR 0x00 then ret acc else get_chars n (acc @ [c])) b
      else (Ret acc, b))"

definition get_string :: "string bb" where
  "get_string b = get_chars (bb_size b - mReadPos b) [] b"

text \<open>
  \<^verbatim>\<open>operator>>(char value[])\<close> copies exactly the characters read: \<^verbatim>\<open>strncpy\<close> with the length of the
  source as its bound writes no terminator.
\<close>

definition get_char_array :: "string \<Rightarrow> string bb" where
  "get_char_array value =
     bnd get_string (\<lambda>s. if length value < length s then abort Undefined
                             else ret (s @ drop (length s) value))"

definition Erase :: "nat \<Rightarrow> int bb" where
  "Erase num b =
     (if num \<le> bb_size b
      then (Ret 1, b\<lparr>mStorage := drop num (mStorage b), mReadPos := 0,
                     mWritePos := bb_size b - num\<rparr>)
      else (Ret 0, b))"

section \<open>Containers\<close>

text \<open>The templates for \<^verbatim>\<open>std::vector\<close>, \<^verbatim>\<open>std::list\<close> and \<^verbatim>\<open>std::map\<close> over element operations.\<close>

definition put_vector :: "('v \<Rightarrow> unit bb) \<Rightarrow> 'v list \<Rightarrow> unit bb" where
  "put_vector put v = sq (put_uint32 (word_of_nat (length v))) (for_each put v)"

fun get_loop :: "'v bb \<Rightarrow> nat \<Rightarrow> 'v list \<Rightarrow> 'v list bb" where
  "get_loop get 0 acc = ret acc"
| "get_loop get (Suc n) acc = bnd get (\<lambda>t. get_loop get n (acc @ [t]))"

definition get_vector :: "'v bb \<Rightarrow> 'v list bb" where
  "get_vector get = bnd get_uint32 (\<lambda>vsize. get_loop get (unat vsize) [])"

definition put_list :: "('v \<Rightarrow> unit bb) \<Rightarrow> 'v list \<Rightarrow> unit bb" where
  "put_list put v = sq (put_uint32 (word_of_nat (length v))) (for_each put v)"

definition get_list :: "'v bb \<Rightarrow> 'v list bb" where
  "get_list get = bnd get_uint32 (\<lambda>vsize. get_loop get (unat vsize) [])"

text \<open>A \<^verbatim>\<open>std::map\<close> is its entries in key order; \<^verbatim>\<open>insert\<close> keeps an entry that is already there.\<close>

fun map_insert :: "'k::linorder \<Rightarrow> 'v \<Rightarrow> ('k \<times> 'v) list \<Rightarrow> ('k \<times> 'v) list" where
  "map_insert k v [] = [(k, v)]"
| "map_insert k v ((k', v') # m) =
     (if k < k' then (k, v) # (k', v') # m
      else if k = k' then (k', v') # m
      else (k', v') # map_insert k v m)"

definition put_map :: "('k \<Rightarrow> unit bb) \<Rightarrow> ('v \<Rightarrow> unit bb) \<Rightarrow> ('k \<times> 'v) list \<Rightarrow> unit bb" where
  "put_map putk putv m =
     sq (put_uint32 (word_of_nat (length m))) (for_each (\<lambda>(k, v). sq (putk k) (putv v)) m)"

fun get_map_loop :: "'k::linorder bb \<Rightarrow> 'v bb \<Rightarrow> nat \<Rightarrow> ('k \<times> 'v) list \<Rightarrow> ('k \<times> 'v) list bb" where
  "get_map_loop getk getv 0 m = ret m"
| "get_map_loop getk getv (Suc n) m =
     bnd getk (\<lambda>k. bnd getv (\<lambda>v. get_map_loop getk getv n (map_insert k v m)))"

definition get_map :: "'k::linorder bb \<Rightarrow> 'v bb \<Rightarrow> ('k \<times> 'v) list bb" where
  "get_map getk getv = bnd get_uint32 (\<lambda>msize. get_map_loop getk getv (unat msize) [])"

section \<open>Invariant\<close>

text \<open>
  The positions stay inside the storage and the storage inside the address space. A fresh buffer
  has this, and every operation of the class keeps it but the two that set a position unchecked,
  \<^verbatim>\<open>rpos(n)\<close> and \<^verbatim>\<open>wpos(n)\<close>, which keep it exactly for positions inside the storage.
\<close>

definition bb_inv :: "bytebuffer \<Rightarrow> bool" where
  "bb_inv b \<longleftrightarrow> mReadPos b \<le> bb_size b \<and> mWritePos b \<le> bb_size b \<and> bb_size b < 2 ^ 31"

lemma bb_inv_init [simp]: "bb_inv CByteBuffer" "bb_inv (CByteBuffer_reserve n)"
  by (simp_all add: bb_inv_def CByteBuffer_def CByteBuffer_reserve_def bb_size_def)

lemma vec_resize_Ret: "vec_resize n xs = Ret ys \<Longrightarrow> length ys = n \<and> n < 2 ^ 31"
  by (auto simp: vec_resize_def split: if_splits)

lemma vec_resize_cases: "(\<exists>ys. vec_resize n xs = Ret ys) \<or> vec_resize n xs = Throw bad_alloc"
  by (simp add: vec_resize_def)

lemma bb_append_inv:
  assumes "bb_inv b" shows "bb_inv (snd (bb_append src cnt b))"
proof (cases "cnt = 0 \<or> \<not> bb_size b < 10000000")
  case True
  with assms show ?thesis by (auto simp: bb_append_def)
next
  case False
  let ?w = "u32_add (mWritePos b) cnt"
  show ?thesis
  proof (cases "bb_size b < ?w")
    case True
    show ?thesis
    proof (cases "vec_resize ?w (mStorage b)")
      case (Ret st)
      then have "length st = ?w" "?w < 2 ^ 31" by (auto dest: vec_resize_Ret)
      with Ret True False assms show ?thesis
        by (auto simp: bb_append_def bb_inv_def bb_size_def)
    qed (use True False assms in \<open>auto simp: bb_append_def\<close>)
  next
    case le: False
    with False assms show ?thesis
      by (auto simp: bb_append_def bb_inv_def bb_size_def)
  qed
qed

lemma keeps_bb_append [intro, simp]: "keeps bb_inv (bb_append src cnt)"
  by (rule keepsI) (rule bb_append_inv)

lemma keeps_bb_append_T [intro, simp]: "keeps bb_inv (bb_append_T enc v)"
  by (simp add: bb_append_T_def)

lemma keeps_bb_append_buffer [intro, simp]: "keeps bb_inv (bb_append_buffer buf)"
  by (simp add: bb_append_buffer_def)

lemma keeps_bb_put [intro, simp]: "keeps bb_inv (bb_put pos src cnt)"
  by (rule keepsI) (auto simp: bb_put_def bb_inv_def bb_size_def)

lemma keeps_bb_reserve [intro, simp]: "keeps bb_inv (bb_reserve n)"
  by (rule keepsI) (simp add: bb_reserve_def)

lemma bb_inv_set_pos:
  assumes "bb_inv b"
  shows "bb_inv (snd (bb_set_rpos p b)) \<longleftrightarrow> p \<le> bb_size b" "bb_inv (snd (bb_set_wpos p b)) \<longleftrightarrow> p \<le> bb_size b"
  using assms by (auto simp: bb_inv_def bb_set_rpos_def bb_set_wpos_def bb_size_def)

lemma keeps_bb_resize [intro, simp]: "keeps bb_inv (bb_resize n)"
  by (rule keepsI) (auto simp: bb_resize_def bb_inv_def bb_size_def split: res.splits dest: vec_resize_Ret)

lemma keeps_bb_clear [intro, simp]: "keeps bb_inv bb_clear"
  by (rule keepsI) (auto simp: bb_clear_def bb_inv_def bb_size_def)

lemma keeps_Erase [intro, simp]: "keeps bb_inv (Erase n)"
  by (rule keepsI) (auto simp: Erase_def bb_inv_def bb_size_def)

lemma keeps_bb_dump_throw [intro, simp]: "keeps bb_inv bb_dump_throw"
  by (rule keepsI) (auto simp: bb_dump_throw_def bb_inv_def bb_size_def)

lemma bb_read_at_inv: "bb_inv b \<Longrightarrow> bb_inv (snd (bb_read_at sz dec pos b))"
  by (auto simp: bb_read_at_def intro: keepsD [OF keeps_bb_dump_throw])

lemma bb_read_T_inv:
  assumes "bb_inv b" shows "bb_inv (snd (bb_read_T sz dec b))"
proof (cases "bb_size b < u32_add (mReadPos b) sz \<or> bb_size b \<le> mReadPos b \<or> bb_size b < mReadPos b + sz")
  case True
  then show ?thesis
    using bb_read_at_inv [OF assms, of sz dec "mReadPos b"]
    by (auto simp: bb_read_T_def bnd_def bb_read_at_def bb_dump_throw_def split: if_splits)
next
  case False
  then show ?thesis
    using assms by (auto simp: bb_read_T_def bnd_def bb_read_at_def bb_inv_def bb_size_def)
qed

lemma keeps_bb_read_T [intro, simp]: "keeps bb_inv (bb_read_T sz dec)"
  by (rule keepsI) (rule bb_read_T_inv)

lemma keeps_bb_read [intro, simp]: "keeps bb_inv (bb_read len)"
proof
  fix b assume "bb_inv b"
  then show "bb_inv (snd (bb_read len b))"
    by (auto simp: bb_read_def bb_dump_throw_def bb_inv_def bb_size_def)
qed

lemma get_chars_inv: "bb_inv b \<Longrightarrow> bb_inv (snd (get_chars n acc b))"
proof (induction n arbitrary: acc b)
  case (Suc n)
  have "keeps bb_inv (bnd (bb_read_T 1 (\<lambda>bs. byte_char (bytes_word bs)))
     (\<lambda>c. if c = CHR 0x00 then ret acc else get_chars n (acc @ [c])))"
    using Suc.IH by (intro keeps_bnd) auto
  with Suc.prems show ?case by (auto dest: keepsD)
qed auto

lemma keeps_get_string [intro, simp]: "keeps bb_inv get_string"
  by (rule keepsI) (simp add: get_string_def get_chars_inv)

section \<open>The buffer as a queue of bytes\<close>

text \<open>
  What the class promises to a client that only appends and reads: the unread bytes are a queue.
  The abstraction holds as long as the write position is the end, which nothing but \<^verbatim>\<open>wpos(n)\<close>
  changes.
\<close>

definition bb_queue :: "bytebuffer \<Rightarrow> byte list" where
  "bb_queue b = drop (mReadPos b) (mStorage b)"

definition bb_open :: "bytebuffer \<Rightarrow> bool" where
  "bb_open b \<longleftrightarrow> bb_inv b \<and> mWritePos b = bb_size b \<and> bb_size b < 10000000"

lemma bb_append_open:
  assumes "bb_open b" "cnt \<le> length src" "cnt < 2 ^ 30"
  shows "bb_append src cnt b =
    (Ret (), b\<lparr>mStorage := mStorage b @ take cnt src, mWritePos := mWritePos b + cnt\<rparr>)"
proof (cases "cnt = 0")
  case False
  have sz: "mWritePos b = length (mStorage b)" "length (mStorage b) < 10000000"
    using assms(1) by (auto simp: bb_open_def bb_size_def)
  then have eq: "u32_add (mWritePos b) cnt = length (mStorage b) + cnt"
    using assms(3) by (simp add: u32_add_eq)
  with False sz assms show ?thesis
    by (simp add: bb_append_def bb_size_def vec_resize_def eq)
qed (simp add: bb_append_def)

lemma bb_read_T_at:
  assumes "mStorage b = pre @ bs @ post" "mReadPos b = length pre" "length bs = sz" "0 < sz"
    "bb_inv b"
  shows "bb_read_T sz dec b = (Ret (dec bs), b\<lparr>mReadPos := mReadPos b + sz\<rparr>)"
proof -
  have "length pre + sz \<le> bb_size b" using assms by (simp add: bb_size_def)
  moreover from this have "u32_add (length pre) sz = length pre + sz"
    using assms(5) by (intro u32_add_eq) (simp add: bb_inv_def)
  ultimately show ?thesis
    using assms by (simp add: bb_read_T_def bnd_def bb_read_at_def bb_size_def)
qed

lemma bb_read_T_short:
  assumes "bb_inv b" "bb_size b < mReadPos b + sz" "sz < 2 ^ 31"
  shows "bb_read_T sz dec b = bb_dump_throw b"
proof -
  have "u32_add (mReadPos b) sz = mReadPos b + sz"
    using assms by (intro u32_add_eq) (simp add: bb_inv_def)
  then show ?thesis
    using assms by (simp add: bb_read_T_def bnd_def bb_read_at_def bb_dump_throw_def)
qed

end
