(* ===== verification/Ieee.thy ===== *)
theory Ieee
  imports Prelude "HOL-Library.Log_Nat"
begin

text \<open>
  The floating-point arithmetic the quotation client uses: the result of a \<^verbatim>\<open>double\<close> operation is
  the exact result rounded to 53 significant bits, ties to even, and a conversion to \<^verbatim>\<open>float\<close> rounds
  to 24 bits with the format's smallest exponent and its overflow. Values are rationals, so every
  definition computes. The lemmas say that numbers with few bits are exact, that the rounding
  error is at most half a unit in the last place, and what \<^verbatim>\<open>printf\<close>'s \<^verbatim>\<open>%.3f\<close> prints.
\<close>

section \<open>Rounding\<close>

definition round_half_even :: "rat \<Rightarrow> int" where
  "round_half_even y =
     (let f = \<lfloor>y\<rfloor>; d = y - of_int f
      in if d < 1 / 2 then f else if 1 / 2 < d then f + 1 else if even f then f else f + 1)"

text \<open>The binary exponent of a positive rational.\<close>

definition ilog2 :: "rat \<Rightarrow> int" where
  "ilog2 x =
     (let (a, b) = quotient_of x;
          k = int (floorlog 2 (nat a)) - int (floorlog 2 (nat b))
      in if 2 powi k \<le> x then k else k - 1)"

definition rnd :: "nat \<Rightarrow> rat \<Rightarrow> rat" where
  "rnd p x =
     (if x = 0 then 0
      else let u = 2 powi (ilog2 \<bar>x\<bar> - (int p - 1)) in of_int (round_half_even (x / u)) * u)"

definition dadd :: "rat \<Rightarrow> rat \<Rightarrow> rat" where
  "dadd x y = rnd 53 (x + y)"

definition dmul :: "rat \<Rightarrow> rat \<Rightarrow> rat" where
  "dmul x y = rnd 53 (x * y)"

definition ddiv :: "rat \<Rightarrow> rat \<Rightarrow> rat" where
  "ddiv x y = rnd 53 (x / y)"

text \<open>\<^verbatim>\<open>pow(2.0, n)\<close>: a power of two is exact.\<close>

definition pow2 :: "int \<Rightarrow> rat" where
  "pow2 n = 2 powi n"

datatype fval = Fin rat | Infinite

definition to_float :: "rat \<Rightarrow> fval" where
  "to_float x =
     (if x = 0 then Fin 0
      else let u = 2 powi (max (ilog2 \<bar>x\<bar> - 23) (- 149)); r = of_int (round_half_even (x / u)) * u
           in if 2 powi 128 \<le> \<bar>r\<bar> then Infinite else Fin r)"

section \<open>The exponent\<close>

lemma floorlog_rat_bounds:
  assumes "0 < a" shows "2 powi (int (floorlog 2 (nat a)) - 1) \<le> (of_int a :: rat)"
    "(of_int a :: rat) < 2 powi int (floorlog 2 (nat a))"
proof -
  obtain n where n: "a = int n" "0 < n" using assms by (metis pos_int_cases)
  have fl: "floorlog 2 n \<noteq> 0" using n by (simp add: floorlog_eq_zero_iff)
  have b: "2 ^ (floorlog 2 n - 1) \<le> n" "n < 2 ^ floorlog 2 n"
    using floorlog_bounds [of n 2] n by auto
  have "(2::rat) ^ (floorlog 2 n - 1) \<le> of_nat n"
    using b(1) by (metis of_nat_le_iff of_nat_numeral of_nat_power)
  moreover have "(2::rat) powi (int (floorlog 2 n) - 1) = 2 ^ (floorlog 2 n - 1)"
    using fl by (metis One_nat_def Suc_leI int_ops(2) bot_nat_0.not_eq_extremum of_nat_diff power_int_of_nat)
  ultimately show "2 powi (int (floorlog 2 (nat a)) - 1) \<le> (of_int a :: rat)" using n by simp
  have "(of_nat n :: rat) < 2 ^ floorlog 2 n"
    using b(2) by (metis of_nat_less_iff of_nat_numeral of_nat_power)
  then show "(of_int a :: rat) < 2 powi int (floorlog 2 (nat a))" using n by simp
qed

lemma ilog2_bounds:
  assumes "0 < x" shows "2 powi (ilog2 x) \<le> x" "x < 2 powi (ilog2 x + 1)"
proof -
  obtain a b where ab: "quotient_of x = (a, b)" by (cases "quotient_of x")
  have b: "0 < b" and x: "x = of_int a / of_int b"
    using quotient_of_denom_pos [OF ab] quotient_of_div [OF ab] by auto
  have a: "0 < a" using assms x b by (simp add: zero_less_divide_iff)
  let ?la = "int (floorlog 2 (nat a))" and ?lb = "int (floorlog 2 (nat b))"
  note ba = floorlog_rat_bounds [OF a] and bb = floorlog_rat_bounds [OF b]
  have pos: "(0::rat) < of_int b" using b by simp
  have up: "x < 2 powi (?la - ?lb + 1)"
  proof -
    have "x * 2 powi (?lb - 1) \<le> x * of_int b" using bb(1) assms by (intro mult_left_mono) auto
    also have "\<dots> < 2 powi ?la" using ba(2) x b by simp
    finally have "x < 2 powi ?la / 2 powi (?lb - 1)" by (simp add: pos_less_divide_eq)
    also have "(2::rat) powi ?la / 2 powi (?lb - 1) = 2 powi (?la - (?lb - 1))"
      by (rule power_int_diff [symmetric]) simp
    finally show ?thesis by (simp add: algebra_simps)
  qed
  have lo: "2 powi (?la - ?lb - 1) \<le> x"
  proof -
    have "2 powi (?la - 1) \<le> x * of_int b" using ba(1) x b by simp
    also have "\<dots> \<le> x * 2 powi ?lb" using bb(2) assms by (intro mult_left_mono) auto
    finally have "2 powi (?la - 1) / 2 powi ?lb \<le> x" by (simp add: pos_divide_le_eq)
    moreover have "(2::rat) powi (?la - 1) / 2 powi ?lb = 2 powi (?la - 1 - ?lb)"
      by (rule power_int_diff [symmetric]) simp
    ultimately show ?thesis by (simp add: algebra_simps)
  qed
  have def: "ilog2 x = (if 2 powi (?la - ?lb) \<le> x then ?la - ?lb else ?la - ?lb - 1)"
    by (simp add: ilog2_def ab Let_def)
  from lo show "2 powi (ilog2 x) \<le> x" by (simp add: def)
  from up show "x < 2 powi (ilog2 x + 1)" by (simp add: def)
qed

lemma powi_less_iff [simp]: "(2::rat) powi m < 2 powi n \<longleftrightarrow> m < n"
  using power_int_increasing [of n m "2::rat"] power_int_strict_increasing [of m n "2::rat"]
  by (cases "m < n") auto

lemma ilog2_less:
  assumes "0 < x" "x < 2 powi n" shows "ilog2 x < n"
proof -
  have "(2::rat) powi (ilog2 x) < 2 powi n" using ilog2_bounds(1) [OF assms(1)] assms(2) by linarith
  then show ?thesis by simp
qed

section \<open>Exactness and error\<close>

lemma round_half_even_int [simp]: "round_half_even (of_int z) = z"
  by (simp add: round_half_even_def)

lemma round_half_even_error: "\<bar>of_int (round_half_even y) - y\<bar> \<le> 1 / 2"
proof -
  define f where "f = \<lfloor>y\<rfloor>"
  have "of_int f \<le> y" "y < of_int f + 1" unfolding f_def by linarith+
  then show ?thesis
    unfolding round_half_even_def Let_def abs_le_iff f_def [symmetric] by auto
qed

lemma dyadic_quotient_int:
  assumes "j \<le> k" shows "of_int m * 2 powi k / (2 powi j :: rat) = of_int (m * 2 ^ nat (k - j))"
proof -
  have "(2::rat) powi k / 2 powi j = 2 powi (k - j)" by (simp add: power_int_diff)
  also have "\<dots> = 2 ^ nat (k - j)" using assms by (simp add: power_int_def)
  finally show ?thesis by (simp flip: times_divide_eq_right)
qed

lemma ilog2_dyadic:
  assumes "x = of_int m * 2 powi k" "\<bar>m\<bar> < 2 ^ p" "m \<noteq> 0"
  shows "ilog2 \<bar>x\<bar> < int p + k"
proof (rule ilog2_less)
  show "0 < \<bar>x\<bar>" using assms by simp
  have "(of_int \<bar>m\<bar> :: rat) < of_int (2 ^ p)" using assms(2) by (simp only: of_int_less_iff)
  then have "of_int \<bar>m\<bar> * 2 powi k < (2 ^ p * 2 powi k :: rat)" by (intro mult_strict_right_mono) auto
  then show "\<bar>x\<bar> < 2 powi (int p + k)" using assms(1) by (simp add: abs_mult power_int_add)
qed

lemma rnd_exact:
  assumes "x = of_int m * 2 powi k" "\<bar>m\<bar> < 2 ^ p"
  shows "rnd p x = x"
proof (cases "m = 0")
  case False
  let ?j = "ilog2 \<bar>x\<bar> - (int p - 1)"
  have "?j \<le> k" using ilog2_dyadic [OF assms False] by linarith
  then have q: "x / 2 powi ?j = of_int (m * 2 ^ nat (k - ?j))"
    by (simp only: assms(1) dyadic_quotient_int)
  have "of_int (m * 2 ^ nat (k - ?j)) * 2 powi ?j = x"
    by (simp only: q [symmetric]) simp
  moreover have "x \<noteq> 0" using False assms(1) by simp
  ultimately show ?thesis by (simp only: rnd_def Let_def q round_half_even_int if_False)
qed (simp add: assms rnd_def)

lemma to_float_exact:
  assumes "x = of_int m * 2 powi k" "\<bar>m\<bar> < 2 ^ 24" "- 149 \<le> k" "\<bar>x\<bar> < 2 powi 128"
  shows "to_float x = Fin x"
proof (cases "m = 0")
  case False
  let ?j = "max (ilog2 \<bar>x\<bar> - 23) (- 149)"
  have "?j \<le> k" using ilog2_dyadic [OF assms(1,2) False] assms(3) by linarith
  then have q: "x / 2 powi ?j = of_int (m * 2 ^ nat (k - ?j))"
    by (simp only: assms(1) dyadic_quotient_int)
  have r: "of_int (m * 2 ^ nat (k - ?j)) * 2 powi ?j = x"
    by (simp only: q [symmetric]) simp
  have "x \<noteq> 0" using False assms(1) by simp
  with assms(4) show ?thesis
    by (simp only: to_float_def Let_def q round_half_even_int r if_False not_le [symmetric] not_not if_True simp_thms)
qed (simp add: assms to_float_def)

lemma rnd_error: "\<bar>rnd p x - x\<bar> \<le> \<bar>x\<bar> * 2 powi (- int p)"
proof (cases "x = 0")
  case False
  let ?u = "2 powi (ilog2 \<bar>x\<bar> - (int p - 1)) :: rat"
  have u: "0 < ?u" by simp
  have "rnd p x - x = (of_int (round_half_even (x / ?u)) - x / ?u) * ?u"
    using False by (simp add: rnd_def Let_def left_diff_distrib)
  then have "\<bar>rnd p x - x\<bar> = \<bar>of_int (round_half_even (x / ?u)) - x / ?u\<bar> * ?u"
    by (simp add: abs_mult)
  also have "\<dots> \<le> 1 / 2 * ?u" by (intro mult_right_mono round_half_even_error) simp
  also have "\<dots> = 2 powi ilog2 \<bar>x\<bar> * 2 powi (- int p)"
    by (simp add: power_int_diff power_int_minus power_int_add field_simps)
  also have "\<dots> \<le> \<bar>x\<bar> * 2 powi (- int p)"
    using ilog2_bounds(1) [of "\<bar>x\<bar>"] False by (intro mult_right_mono) auto
  finally show ?thesis .
qed (simp add: rnd_def)

section \<open>Fixed-point printing\<close>

text \<open>Rounding to the nearest integer, ties away from zero, of a non-negative number.\<close>

definition round_half_up :: "rat \<Rightarrow> nat" where
  "round_half_up y = nat \<lfloor>y + 1 / 2\<rfloor>"

definition pad0 :: "nat \<Rightarrow> string \<Rightarrow> string" where
  "pad0 n s = replicate (n - length s) (CHR ''0'') @ s"

text \<open>The text of \<open>n\<close> thousandths.\<close>

definition show_milli :: "nat \<Rightarrow> string" where
  "show_milli n = show_nat (n div 1000) @ ''.'' @ pad0 3 (show_nat (n mod 1000))"

text \<open>\<^verbatim>\<open>%.3f\<close> of a finite \<^verbatim>\<open>double\<close>.\<close>

definition show_f3 :: "rat \<Rightarrow> string" where
  "show_f3 x = (if x < 0 then ''-'' else []) @ show_milli (round_half_up (\<bar>x\<bar> * 1000))"

lemma round_half_up_near: "\<bar>y - of_nat n\<bar> < 1 / 2 \<Longrightarrow> round_half_up y = n"
proof -
  assume "\<bar>y - of_nat n\<bar> < 1 / 2"
  then have "of_int (int n) \<le> y + 1 / 2" "y + 1 / 2 < of_int (int n) + 1"
    unfolding abs_less_iff by simp_all
  then have "\<lfloor>y + 1 / 2\<rfloor> = int n" by (rule floor_unique)
  then show "round_half_up y = n" by (simp add: round_half_up_def)
qed

text \<open>
  An \<^verbatim>\<open>int\<close> divided by 1000.0 and printed with three decimals is the exact decimal fraction, for
  every value of the type.
\<close>

lemma show_f3_div1000:
  assumes "\<bar>p\<bar> \<le> 2 ^ 31"
  shows "show_f3 (ddiv (of_int p) 1000) = (if p < 0 then ''-'' else []) @ show_milli (nat \<bar>p\<bar>)"
proof (cases "p = 0")
  case True
  then show ?thesis by (simp add: show_f3_def ddiv_def rnd_def round_half_up_def)
next
  case False
  let ?x = "of_int p / 1000 :: rat" and ?r = "ddiv (of_int p) 1000"
  have "(of_int \<bar>p\<bar> :: rat) \<le> of_int (2 ^ 31)" using assms by (simp only: of_int_le_iff)
  then have "\<bar>?x\<bar> \<le> 2 ^ 31 / 1000" by simp
  then have "\<bar>?x\<bar> * 2 powi (- int 53) \<le> 2 ^ 31 / 1000 * 2 powi (- int 53)"
    by (intro mult_right_mono) auto
  also have "\<dots> \<le> 1 / 1000000" by (simp add: power_int_def power_one_over)
  finally have err: "\<bar>?r - ?x\<bar> \<le> 1 / 1000000"
    using rnd_error [of 53 ?x] by (simp add: ddiv_def)
  have "1 \<le> \<bar>p\<bar>" using False by simp
  then have "(1::rat) \<le> of_int \<bar>p\<bar>" by (simp only: of_int_1_le_iff)
  then have big: "1 / 1000 \<le> \<bar>?x\<bar>" by simp
  have sgn: "?r < 0 \<longleftrightarrow> p < 0"
  proof -
    have "?r < 0 \<longleftrightarrow> ?x < 0" using err big by (auto simp: abs_if split: if_splits)
    also have "\<dots> \<longleftrightarrow> p < 0" by (simp add: divide_less_0_iff)
    finally show ?thesis .
  qed
  have "\<bar>\<bar>?r\<bar> - \<bar>?x\<bar>\<bar> \<le> 1 / 1000000" using err by linarith
  then have "\<bar>\<bar>?r\<bar> * 1000 - \<bar>?x\<bar> * 1000\<bar> < 1 / 2" by (simp add: abs_if split: if_splits)
  moreover have "\<bar>?x\<bar> * 1000 = of_nat (nat \<bar>p\<bar>)" by simp
  ultimately have "round_half_up (\<bar>?r\<bar> * 1000) = nat \<bar>p\<bar>" by (intro round_half_up_near) simp
  then show ?thesis by (simp add: show_f3_def sgn)
qed

end
