(* ===== verification/PriceCodec.thy ===== *)
theory PriceCodec
  imports ByteBuffer Ieee
begin

unbundle bit_operations_syntax

text \<open>
  The two number formats of the quotation server's replies, as src/TDXHQ/TDXHQ.cpp decodes them:
  \<open>getPrice\<close>, a signed variable-length integer, and \<open>GetVolume\<close>, a 32-bit pattern. The reference
  for the first is the encoder \<open>encodePrice\<close>, for the second the IEEE single-precision reading of
  the same 32 bits.
\<close>

section \<open>Variable-length integers\<close>

definition byte_at :: "byte list \<Rightarrow> nat \<Rightarrow> byte res" where
  "byte_at pData pos = (if pos < length pData then Ret (pData ! pos) else Abort Undefined)"

text \<open>
  The do-while loop: the next byte adds seven bits at \<^verbatim>\<open>posByte\<close>, and its top bit continues. A read
  outside the buffer is undefined, and so is a shift by the width of an \<^verbatim>\<open>int\<close> or more.
\<close>

function getPrice_loop :: "byte list \<Rightarrow> nat \<Rightarrow> 32 word \<Rightarrow> nat \<Rightarrow> (32 word \<times> nat) res" where
  "getPrice_loop pData pos acc posByte =
     (if length pData \<le> pos + 1 \<or> 32 \<le> posByte then Abort Undefined
      else let bdata = pData ! (pos + 1);
               acc' = acc + push_bit posByte (ucast (bdata AND 0x7f))
           in if bdata AND 0x80 \<noteq> 0 then getPrice_loop pData (pos + 1) acc' (posByte + 7)
              else Ret (acc', pos + 1))"
  by pat_completeness auto
termination
  by (relation "measure (\<lambda>(pData, pos, acc, posByte). length pData - pos)") auto

declare getPrice_loop.simps [simp del]

definition getPrice :: "byte list \<Rightarrow> nat \<Rightarrow> (32 word \<times> nat) res" where
  "getPrice pData pos =
     (case byte_at pData pos of
        Ret bdata \<Rightarrow>
          (let data = ucast (bdata AND 0x3f) :: 32 word;
               bSign = (bdata AND 0x40 \<noteq> 0)
           in case (if bdata AND 0x80 \<noteq> 0 then getPrice_loop pData pos data 6 else Ret (data, pos)) of
                Ret (d, p) \<Rightarrow> Ret (if bSign then - d else d, p + 1)
              | Throw e \<Rightarrow> Throw e
              | Abort f \<Rightarrow> Abort f)
      | Throw e \<Rightarrow> Throw e
      | Abort f \<Rightarrow> Abort f)"

text \<open>The reference encoder: six bits and the sign in the first byte, then groups of seven bits.\<close>

fun put7 :: "nat \<Rightarrow> byte list" where
  "put7 n = (if n < 128 then [word_of_nat n] else word_of_nat (n mod 128 + 128) # put7 (n div 128))"

declare put7.simps [simp del]

definition encodePrice :: "int \<Rightarrow> byte list" where
  "encodePrice v =
     (let m = nat \<bar>v\<bar>; b = m mod 64 + (if v < 0 then 64 else 0)
      in if m < 64 then [word_of_nat b] else word_of_nat (b + 128) # put7 (m div 64))"

lemma byte_and_7f: "unat (b AND 0x7f :: byte) = unat b mod 128"
proof -
  have "mask 7 = (0x7f :: byte)" by (simp add: mask_eq_exp_minus_1)
  then have "b AND 0x7f = take_bit 7 b" by (simp only: take_bit_eq_mask)
  then show ?thesis by (simp add: unat_mod_distrib take_bit_eq_mod)
qed

lemma byte_and_3f: "unat (b AND 0x3f :: byte) = unat b mod 64"
proof -
  have "mask 6 = (0x3f :: byte)" by (simp add: mask_eq_exp_minus_1)
  then have "b AND 0x3f = take_bit 6 b" by (simp only: take_bit_eq_mask)
  then show ?thesis by (simp add: unat_mod_distrib take_bit_eq_mod)
qed

lemma byte_bit: "bit (b :: byte) n \<longleftrightarrow> odd (unat b div 2 ^ n)"
proof -
  have "bit b n = bit (unat b) n" by (simp add: bit_unsigned_iff)
  also have "\<dots> \<longleftrightarrow> odd (unat b div 2 ^ n)" by (rule bit_iff_odd)
  finally show ?thesis .
qed

lemma byte_and_80: "b AND 0x80 \<noteq> (0 :: byte) \<longleftrightarrow> 128 \<le> unat b"
proof -
  have "b AND 0x80 \<noteq> 0 \<longleftrightarrow> odd (unat b div 128)"
    using and_exp_eq_0_iff_not_bit [of b 7] by (simp add: byte_bit)
  also have "\<dots> \<longleftrightarrow> 128 \<le> unat b"
  proof (cases "unat b < 128")
    case False
    have "unat b < 256" using unsigned_less [of b, where 'a = nat] by simp
    with False have "unat b div 128 = 1" by (simp add: div_nat_eqI)
    with False show ?thesis by simp
  qed simp
  finally show ?thesis .
qed

lemma byte_and_40: "b AND 0x40 \<noteq> (0 :: byte) \<longleftrightarrow> odd (unat b div 64)"
  using and_exp_eq_0_iff_not_bit [of b 6] by (simp add: byte_bit)

lemma ucast_byte: "(ucast (b :: byte) :: 32 word) = word_of_nat (unat b)"
  by simp

lemma split7:
  "push_bit k (word_of_nat (n mod 128)) + push_bit (k + 7) (word_of_nat (n div 128)) =
   (push_bit k (word_of_nat n) :: 32 word)"
proof -
  have "(word_of_nat n :: 32 word) = word_of_nat (n mod 128 + 128 * (n div 128))" by simp
  also have "\<dots> = word_of_nat (n mod 128) + 128 * word_of_nat (n div 128)"
    by (simp only: of_nat_add of_nat_mult of_nat_numeral)
  finally show ?thesis
    by (simp add: push_bit_eq_mult power_add algebra_simps)
qed

text \<open>The loop reads back what \<open>put7\<close> wrote, as long as the value fits the 32 bits.\<close>

lemma getPrice_loop_put7:
  assumes "pData = pre @ put7 n @ post" "length pre = pos + 1" "posByte < 32" "n < 2 ^ (32 - posByte)"
  shows "getPrice_loop pData pos acc posByte =
    Ret (acc + push_bit posByte (word_of_nat n), pos + length (put7 n))"
  using assms
proof (induction n arbitrary: pre pos acc posByte rule: put7.induct)
  case (1 n)
  show ?case
  proof (cases "n < 128")
    case True
    then have p: "put7 n = [word_of_nat n]" by (simp add: put7.simps)
    have u: "unat (word_of_nat n :: byte) = n" using True by (simp add: unat_of_nat)
    then have "(word_of_nat n AND 0x80 :: byte) = 0" using byte_and_80 [of "word_of_nat n"] True by simp
    moreover have "ucast (word_of_nat n AND 0x7f :: byte) = (word_of_nat n :: 32 word)"
      by (simp only: ucast_byte byte_and_7f u) (use True in simp)
    ultimately show ?thesis
      using "1.prems" p by (subst getPrice_loop.simps) (simp add: nth_append)
  next
    case False
    let ?b = "word_of_nat (n mod 128 + 128) :: byte"
    let ?acc = "acc + push_bit posByte (word_of_nat (n mod 128))"
    have p: "put7 n = ?b # put7 (n div 128)" using False by (subst put7.simps) simp
    have u: "unat ?b = n mod 128 + 128" by (simp only: unat_of_nat) simp
    then have cont: "?b AND 0x80 \<noteq> 0" by (simp only: byte_and_80)
    have low: "ucast (?b AND 0x7f) = (word_of_nat (n mod 128) :: 32 word)"
      by (simp only: ucast_byte byte_and_7f u) simp
    have "128 < (2::nat) ^ (32 - posByte)" using False "1.prems"(4) by linarith
    then have "(2::nat) ^ 7 < 2 ^ (32 - posByte)" by simp
    then have k: "posByte + 7 < 32" using power_less_imp_less_exp [of "2::nat" 7 "32 - posByte"] by simp
    have "n div 128 < 2 ^ (32 - (posByte + 7))"
    proof -
      have "(2::nat) ^ (32 - posByte) = 2 ^ (32 - (posByte + 7)) * 128"
        using k power_add [of "2::nat" "32 - (posByte + 7)" 7] by simp
      with "1.prems"(4) show ?thesis by (simp add: less_mult_imp_div_less)
    qed
    then have "getPrice_loop pData (pos + 1) ?acc (posByte + 7) =
      Ret (?acc + push_bit (posByte + 7) (word_of_nat (n div 128)), pos + 1 + length (put7 (n div 128)))"
      using False "1.prems" p k by (intro "1.IH" [where pre = "pre @ [?b]"]) auto
    moreover have "?acc + push_bit (posByte + 7) (word_of_nat (n div 128)) =
        acc + push_bit posByte (word_of_nat n)"
      by (simp only: split7 add.assoc)
    moreover have "pData ! (pos + 1) = ?b" "pos + 1 < length pData"
      using "1.prems" p by (simp_all add: nth_append)
    ultimately show ?thesis
      using "1.prems"(3) cont low p by (subst getPrice_loop.simps) (simp add: Let_def)
  qed
qed

lemma first_byte_sign:
  fixes r :: nat
  assumes "r < 64" shows "odd ((r + (if n then 64 else 0) + 128) div 64) \<longleftrightarrow> n"
proof -
  have "(r + 64 + 128) div 64 = 3" "(r + 0 + 128) div 64 = 2" using assms by linarith+
  then show ?thesis by (cases n) (simp_all only: if_True if_False, simp_all)
qed

lemma first_byte_low: "(r::nat) < 64 \<Longrightarrow> (r + (if n then 64 else 0) + 128) mod 64 = r"
  using mod_mult_self2 [of r 64 3] mod_mult_self2 [of r 64 2] by (cases n) (simp_all add: add.commute)

lemma getPrice_encodePrice:
  assumes "pData = pre @ encodePrice v @ post" "\<bar>v\<bar> < 2 ^ 32"
  shows "getPrice pData (length pre) = Ret (word_of_int v, length pre + length (encodePrice v))"
proof -
  let ?m = "nat \<bar>v\<bar>" and ?s = "if v < 0 then 64 else 0 :: nat"
  let ?b = "?m mod 64 + ?s"
  have b: "?b < 128" by auto
  have v: "(if v < 0 then - word_of_nat ?m else word_of_nat ?m) = (word_of_int v :: 32 word)"
    by (simp add: of_nat_nat)
  show ?thesis
  proof (cases "?m < 64")
    case True
    let ?w = "word_of_nat ?b :: byte"
    have e: "encodePrice v = [?w]" using True by (simp add: encodePrice_def Let_def)
    have u: "unat ?w = ?b" using b by (simp only: unat_of_nat) simp
    have "?w AND 0x80 = 0" using byte_and_80 [of ?w] u b by simp
    moreover have "?w AND 0x40 \<noteq> 0 \<longleftrightarrow> v < 0" by (simp only: byte_and_40 u) (use True in auto)
    moreover have "ucast (?w AND 0x3f) = (word_of_nat ?m :: 32 word)"
      by (simp only: ucast_byte byte_and_3f u) (use True in auto)
    ultimately show ?thesis
      using assms(1) v by (auto simp: getPrice_def byte_at_def e Let_def split: if_splits)
  next
    case False
    let ?w = "word_of_nat (?b + 128) :: byte"
    have e: "encodePrice v = ?w # put7 (?m div 64)" using False by (simp add: encodePrice_def Let_def)
    have u: "unat ?w = ?b + 128" using b by (simp only: unat_of_nat) simp
    have c: "?w AND 0x80 \<noteq> 0" by (simp only: byte_and_80 u)
    have r: "?m mod 64 < 64" by simp
    have s: "?w AND 0x40 \<noteq> 0 \<longleftrightarrow> v < 0"
      by (simp only: byte_and_40 u first_byte_sign [OF r])
    have d: "ucast (?w AND 0x3f) = (word_of_nat (?m mod 64) :: 32 word)"
      by (simp only: ucast_byte byte_and_3f u first_byte_low [OF r])
    have "?m div 64 < 2 ^ (32 - 6)" using assms(2) by (simp add: div_less_iff_less_mult)
    then have "getPrice_loop pData (length pre) (word_of_nat (?m mod 64)) 6 =
      Ret (word_of_nat (?m mod 64) + push_bit 6 (word_of_nat (?m div 64)), length pre + length (put7 (?m div 64)))"
      using assms(1) e by (intro getPrice_loop_put7 [where pre = "pre @ [?w]" and post = post]) auto
    moreover have "word_of_nat (?m mod 64) + push_bit 6 (word_of_nat (?m div 64)) = (word_of_nat ?m :: 32 word)"
    proof -
      have "(word_of_nat ?m :: 32 word) = word_of_nat (?m mod 64 + 64 * (?m div 64))" by simp
      also have "\<dots> = word_of_nat (?m mod 64) + 64 * word_of_nat (?m div 64)"
        by (simp only: of_nat_add of_nat_mult of_nat_numeral)
      finally show ?thesis by (simp add: push_bit_eq_mult)
    qed
    ultimately show ?thesis
      using assms(1) v c s d by (auto simp: getPrice_def byte_at_def e Let_def split: if_splits)
  qed
qed

section \<open>Volumes\<close>

text \<open>
  \<open>GetVolume\<close>, statement by statement. The four bytes of the argument; \<^verbatim>\<open>logpoint\<close> is a signed
  \<^verbatim>\<open>char\<close>. Every \<^verbatim>\<open>double\<close> operation rounds, and the result is narrowed to \<^verbatim>\<open>float\<close>.
\<close>

definition vol_byte :: "nat \<Rightarrow> 32 word \<Rightarrow> byte" where
  "vol_byte i ivol = ucast (drop_bit (8 * i) ivol)"

definition vol_xmm6 :: "int \<Rightarrow> rat" where
  "vol_xmm6 dwEcx =
     (let x = pow2 (if dwEcx < 0 then - dwEcx else dwEcx) in if dwEcx < 0 then ddiv 1 x else x)"

definition vol_xmm4 :: "int \<Rightarrow> byte \<Rightarrow> rat" where
  "vol_xmm4 dwEdx hleax =
     (if 0x80 < hleax then
        dadd (dmul (pow2 dwEdx) 128) (dmul (of_nat (unat (hleax AND 0x7f))) (pow2 (dwEdx + 1)))
      else if 0 \<le> dwEdx then dmul (pow2 dwEdx) (of_nat (unat hleax))
      else dmul (ddiv 1 (pow2 dwEdx)) (of_nat (unat hleax)))"

definition GetVolume :: "32 word \<Rightarrow> fval" where
  "GetVolume ivol =
     (let logpoint = sint (vol_byte 3 ivol);
          hleax = vol_byte 2 ivol; lheax = vol_byte 1 ivol; lleax = vol_byte 0 ivol;
          dwEcx = logpoint * 2 - 0x7f; dwEdx = logpoint * 2 - 0x86;
          dwEsi = logpoint * 2 - 0x8e; dwEax = logpoint * 2 - 0x96;
          xmm3 = dmul (pow2 dwEsi) (of_nat (unat lheax));
          xmm1 = dmul (pow2 dwEax) (of_nat (unat lleax));
          high = (hleax AND 0x80 \<noteq> 0);
          xmm3' = (if high then dmul xmm3 2 else xmm3);
          xmm1' = (if high then dmul xmm1 2 else xmm1)
      in to_float (dadd (dadd (dadd (vol_xmm6 dwEcx) (vol_xmm4 dwEdx hleax)) xmm3') xmm1'))"

text \<open>The IEEE single-precision number with a given bit pattern (normal, non-negative).\<close>

definition ieee_single :: "32 word \<Rightarrow> rat" where
  "ieee_single w =
     of_nat (2 ^ 23 + unat w mod 2 ^ 23) * 2 powi (int (unat w div 2 ^ 23) - 150)"

text \<open>Everything \<open>GetVolume\<close> adds is a multiple of one power of two with few bits, hence exact.\<close>

definition dyad :: "int \<Rightarrow> nat \<Rightarrow> rat" where
  "dyad e m = of_nat m * 2 powi e"

lemma rnd_dyad: "m < 2 ^ 53 \<Longrightarrow> rnd 53 (dyad e m) = dyad e m"
  using rnd_exact [of "dyad e m" "int m" e 53] by (simp add: dyad_def)

lemma dadd_dyad: "a + b < 2 ^ 53 \<Longrightarrow> dadd (dyad e a) (dyad e b) = dyad e (a + b)"
  using rnd_dyad [of "a + b" e] by (simp add: dadd_def dyad_def algebra_simps)

lemma dyad_shift: "dyad (e + int j) n = dyad e (n * 2 ^ j)"
  by (simp add: dyad_def power_int_add)

lemma pow2_dyad: "pow2 (e + int j) = dyad e (2 ^ j)"
  using dyad_shift [of e j 1] by (simp add: pow2_def dyad_def)

lemma dmul_dyad: "a * n < 2 ^ 53 \<Longrightarrow> dmul (dyad e a) (of_nat n) = dyad e (a * n)"
  using rnd_dyad [of "a * n" e] by (simp add: dmul_def dyad_def algebra_simps)

lemma dmul_dyad': "a * n < 2 ^ 53 \<Longrightarrow> dmul (of_nat n) (dyad e a) = dyad e (a * n)"
  using rnd_dyad [of "a * n" e] by (simp add: dmul_def dyad_def algebra_simps)

lemma vol_xmm6_dyad: "vol_xmm6 (e + 23) = dyad e (2 ^ 23)"
proof -
  have "rnd 53 (dyad (e + 23) 1) = dyad (e + 23) 1" by (rule rnd_dyad) simp
  then have "ddiv 1 (pow2 (- (e + 23))) = pow2 (e + 23)"
    by (simp add: ddiv_def pow2_def dyad_def power_int_minus inverse_eq_divide [symmetric]
          del: minus_add_distrib)
  then have "vol_xmm6 (e + 23) = pow2 (e + 23)"
    by (simp add: vol_xmm6_def Let_def del: minus_add_distrib)
  also have "\<dots> = dyad e (2 ^ 23)" using pow2_dyad [of e 23] by simp
  finally show ?thesis .
qed

text \<open>The high bit of the second byte doubles the other three terms.\<close>

definition vol_scale :: "nat \<Rightarrow> nat" where
  "vol_scale h = (if 128 \<le> h then 2 else 1)"

lemma vol_xmm4_dyad:
  assumes "unat h = 0 \<or> 128 < unat h \<or> 0 \<le> e + 16"
  shows "vol_xmm4 (e + 16) h =
    dyad e (if 128 \<le> unat h then 2 ^ 23 + 2 * (unat h mod 128) * 2 ^ 16 else unat h * 2 ^ 16)"
proof -
  have h: "unat h < 256" using unsigned_less [of h, where 'a = nat] by simp
  have gt: "0x80 < h \<longleftrightarrow> 128 < unat h" by (simp add: word_less_nat_alt)
  have p: "pow2 (e + 16) = dyad e (2 ^ 16)" "pow2 (e + 16 + 1) = dyad e (2 ^ 17)"
    using pow2_dyad [of e 16] pow2_dyad [of e 17] by (simp_all add: add.assoc)
  show ?thesis
  proof (cases "128 < unat h")
    case True
    have "dmul (dyad e (2 ^ 16)) 128 = dyad e (2 ^ 16 * 128)"
      using dmul_dyad [of "2 ^ 16" 128 e] by simp
    moreover have "dmul (of_nat (unat h mod 128)) (dyad e (2 ^ 17)) = dyad e (2 ^ 17 * (unat h mod 128))"
      using h by (intro dmul_dyad') (simp add: mult.commute)
    moreover have "dadd (dyad e (2 ^ 16 * 128)) (dyad e (2 ^ 17 * (unat h mod 128))) =
        dyad e (2 ^ 16 * 128 + 2 ^ 17 * (unat h mod 128))"
      using h by (intro dadd_dyad) simp
    ultimately show ?thesis
      using True by (simp only: vol_xmm4_def gt if_True p byte_and_7f) (simp add: mult.commute)
  next
    case False
    show ?thesis
    proof (cases "0 \<le> e + 16")
      case True
      have "dmul (dyad e (2 ^ 16)) (of_nat (unat h)) = dyad e (2 ^ 16 * unat h)"
        using h by (intro dmul_dyad) simp
      moreover have "2 ^ 16 * unat h =
          (if 128 \<le> unat h then 2 ^ 23 + 2 * (unat h mod 128) * 2 ^ 16 else unat h * 2 ^ 16)"
        using False by (cases "unat h = 128") auto
      ultimately show ?thesis using True False by (simp only: vol_xmm4_def gt if_False if_True p)
    next
      case e: False
      with assms False have "unat h = 0" by simp
      moreover have "dmul x 0 = 0" for x by (simp add: dmul_def rnd_def)
      ultimately show ?thesis using e False by (simp add: vol_xmm4_def gt dyad_def)
    qed
  qed
qed

text \<open>The four bytes of a word and its single-precision fields.\<close>

lemma unat_vol_byte: "unat (vol_byte i w) = unat w div 2 ^ (8 * i) mod 256"
proof -
  have "unat (vol_byte i w) = take_bit 8 (unat (drop_bit (8 * i) w))"
    by (simp add: vol_byte_def unsigned_ucast_eq)
  also have "unat (drop_bit (8 * i) w) = unat w div 2 ^ (8 * i)"
    unfolding unat_drop_bit_eq by (rule drop_bit_eq_div)
  finally show ?thesis by (simp add: take_bit_eq_mod)
qed

definition vol_mantissa :: "32 word \<Rightarrow> nat" where
  "vol_mantissa w = (unat (vol_byte 2 w) mod 128) * 2 ^ 16 + unat (vol_byte 1 w) * 2 ^ 8 + unat (vol_byte 0 w)"

lemma nat_bytes:
  fixes n :: nat
  shows "n = (n div 2 ^ 24) * 2 ^ 24 + (n div 2 ^ 16 mod 256) * 2 ^ 16 + (n div 2 ^ 8 mod 256) * 2 ^ 8 + n mod 256"
proof -
  define q1 q2 where "q1 = n div 256" and "q2 = q1 div 256"
  define q3 r0 r1 r2 where "q3 = q2 div 256" and "r0 = n mod 256" and "r1 = q1 mod 256" and "r2 = q2 mod 256"
  have "n = q1 * 256 + r0" "q1 = q2 * 256 + r1" "q2 = q3 * 256 + r2"
    by (simp_all add: q1_def q2_def q3_def r0_def r1_def r2_def)
  then have "n = q3 * 16777216 + r2 * 65536 + r1 * 256 + r0" by linarith
  moreover have "n div 2 ^ 24 = q3" "n div 2 ^ 16 = q2" "n div 2 ^ 8 = q1"
    by (simp_all add: q1_def q2_def q3_def div_mult2_eq [symmetric])
  ultimately show ?thesis by (simp add: r0_def r1_def r2_def)
qed

lemma word_fields:
  shows "unat w = (unat (vol_byte 3 w) * 2 + unat (vol_byte 2 w) div 128) * 2 ^ 23 + vol_mantissa w"
    and "vol_mantissa w < 2 ^ 23"
proof -
  have w32: "unat w < 2 ^ 32" using unsigned_less [of w, where 'a = nat] by simp
  have b3: "unat w div 2 ^ 24 mod 256 = unat w div 2 ^ 24"
    using w32 by (intro mod_less) (simp add: div_less_iff_less_mult)
  define a h m l where "a = unat (vol_byte 3 w)" and "h = unat (vol_byte 2 w)"
    and "m = unat (vol_byte 1 w)" and "l = unat (vol_byte 0 w)"
  have "unat w = a * 2 ^ 24 + h * 2 ^ 16 + m * 2 ^ 8 + l"
    using nat_bytes [of "unat w"] b3 by (simp add: a_def h_def m_def l_def unat_vol_byte)
  define hq hr where "hq = h div 128" and "hr = h mod 128"
  have "h = hq * 128 + hr" by (simp add: hq_def hr_def)
  with \<open>unat w = a * 2 ^ 24 + h * 2 ^ 16 + m * 2 ^ 8 + l\<close> show "unat w = (unat (vol_byte 3 w) * 2 + unat (vol_byte 2 w) div 128) * 2 ^ 23 + vol_mantissa w"
    unfolding vol_mantissa_def a_def [symmetric] h_def [symmetric] m_def [symmetric] l_def [symmetric]
      hq_def [symmetric] hr_def [symmetric] by simp
  have "m < 256" "l < 256" "hr < 128"
    by (simp_all add: m_def l_def hr_def unat_vol_byte)
  then show "vol_mantissa w < 2 ^ 23"
    unfolding vol_mantissa_def h_def [symmetric] m_def [symmetric] l_def [symmetric] hr_def [symmetric]
    by simp
qed

lemma quot_rem: "r < k \<Longrightarrow> (q * k + r) div k = q" "r < k \<Longrightarrow> (q * k + r) mod k = (r :: nat)"
  by simp_all

lemma word_fields_divmod:
  "unat w div 2 ^ 23 = unat (vol_byte 3 w) * 2 + unat (vol_byte 2 w) div 128"
  "unat w mod 2 ^ 23 = vol_mantissa w"
  using quot_rem [OF word_fields(2) [of w], of "unat (vol_byte 3 w) * 2 + unat (vol_byte 2 w) div 128"]
  by (simp_all only: word_fields(1) [symmetric])

text \<open>
  For every normal non-negative pattern outside the branch with the inverted scale, \<open>GetVolume\<close> is
  the single-precision number with that pattern, exactly.
\<close>

lemma to_float_ieee:
  assumes "1 \<le> unat w div 2 ^ 23" "unat w div 2 ^ 23 \<le> 254"
  shows "to_float (ieee_single w) = Fin (ieee_single w)"
proof (rule to_float_exact)
  let ?m = "2 ^ 23 + unat w mod 2 ^ 23" and ?k = "int (unat w div 2 ^ 23) - 150"
  show x: "ieee_single w = of_int (int ?m) * 2 powi ?k" by (simp add: ieee_single_def)
  have "unat w mod 2 ^ 23 < 2 ^ 23" by simp
  then have m: "?m < 2 ^ 24" by (simp del: mod_less_divisor)
  then show "\<bar>int ?m\<bar> < 2 ^ 24" by (simp add: of_nat_less_numeral_power_cancel_iff [symmetric] del: of_nat_add)
  show "- 149 \<le> ?k" using assms(1) by simp
  have "(of_nat ?m :: rat) < of_nat (2 ^ 24)" using m by (simp only: of_nat_less_iff)
  then have "ieee_single w < 2 ^ 24 * 2 powi ?k"
    by (simp only: ieee_single_def of_nat_power of_nat_numeral) (intro mult_strict_right_mono, auto)
  also have "\<dots> = 2 powi (24 + ?k)" by (subst power_int_add) auto
  also have "\<dots> \<le> 2 powi 128" using assms(2) by (intro power_int_increasing) auto
  finally show "\<bar>ieee_single w\<bar> < 2 powi 128" by (simp add: ieee_single_def abs_mult)
qed

text \<open>The multiples of the common power of two that the terms of \<open>GetVolume\<close> are.\<close>

definition vol_high :: "nat \<Rightarrow> nat" where
  "vol_high h = (if 128 \<le> h then 2 ^ 23 + 2 * (h mod 128) * 2 ^ 16 else h * 2 ^ 16)"

definition vol_total :: "nat \<Rightarrow> nat \<Rightarrow> nat \<Rightarrow> nat" where
  "vol_total h m l = 2 ^ 23 + vol_high h + m * 2 ^ 8 * vol_scale h + l * vol_scale h"

lemma vol_high_less: "h < 256 \<Longrightarrow> vol_high h < 2 ^ 25"
proof -
  assume "h < 256"
  moreover have "h mod 128 \<le> 127" by (rule less_Suc_eq_le [THEN iffD1]) simp
  ultimately show ?thesis by (simp add: vol_high_def)
qed

text \<open>One of the two low terms, doubled when the high bit is set.\<close>

lemma vol_low_term:
  assumes "n < 256" "j \<le> 8"
  shows "(if hb AND 0x80 \<noteq> 0 then dmul (dmul (pow2 (e + int j)) (of_nat n)) 2
          else dmul (pow2 (e + int j)) (of_nat n)) = dyad e (n * 2 ^ j * vol_scale (unat (hb :: byte)))"
proof -
  have "n * 2 ^ j \<le> 255 * 2 ^ 8" using assms by (intro mult_le_mono power_increasing) auto
  then have small: "n * 2 ^ j < 2 ^ 20" by simp
  have "dmul (dyad e (2 ^ j)) (of_nat n) = dyad e (2 ^ j * n)"
    using small by (intro dmul_dyad) (simp add: mult.commute)
  then have one: "dmul (pow2 (e + int j)) (of_nat n) = dyad e (n * 2 ^ j)"
    by (simp only: pow2_dyad) (simp add: mult.commute)
  have two: "dmul (dyad e (n * 2 ^ j)) 2 = dyad e (n * 2 ^ j * 2)"
    using dmul_dyad [of "n * 2 ^ j" 2 e] small by simp
  show ?thesis by (simp only: one two byte_and_80 vol_scale_def) simp
qed

lemma vol_sum:
  assumes "h < 256" "m < 256" "l < 256"
  shows "dadd (dadd (dadd (dyad e (2 ^ 23)) (dyad e (vol_high h))) (dyad e (m * 2 ^ 8 * vol_scale h)))
      (dyad e (l * vol_scale h)) = dyad e (vol_total h m l)"
proof -
  have small: "m * 2 ^ 8 * vol_scale h < 2 ^ 17" "l * vol_scale h < 2 ^ 9"
    using assms by (simp_all add: vol_scale_def)
  have room: "x < 2 ^ 25 \<Longrightarrow> y < 2 ^ 17 \<Longrightarrow> 2 ^ 23 + x + y < 2 ^ 53"
    "x < 2 ^ 25 \<Longrightarrow> y < 2 ^ 17 \<Longrightarrow> z < 2 ^ 9 \<Longrightarrow> 2 ^ 23 + x + y + z < 2 ^ 53" for x y z :: nat
    by simp_all
  note H = vol_high_less [OF assms(1)]
  have "dadd (dyad e (2 ^ 23)) (dyad e (vol_high h)) = dyad e (2 ^ 23 + vol_high h)"
    using H by (intro dadd_dyad) simp
  moreover have "dadd (dyad e (2 ^ 23 + vol_high h)) (dyad e (m * 2 ^ 8 * vol_scale h)) =
      dyad e (2 ^ 23 + vol_high h + m * 2 ^ 8 * vol_scale h)"
    by (intro dadd_dyad room(1) H small)
  moreover have "dadd (dyad e (2 ^ 23 + vol_high h + m * 2 ^ 8 * vol_scale h)) (dyad e (l * vol_scale h)) =
      dyad e (vol_total h m l)"
    unfolding vol_total_def by (intro dadd_dyad room(2) H small)
  ultimately show ?thesis by simp
qed

lemma vol_total_ieee:
  "dyad (2 * int (unat (vol_byte 3 w)) - 150)
     (vol_total (unat (vol_byte 2 w)) (unat (vol_byte 1 w)) (unat (vol_byte 0 w))) = ieee_single w"
proof -
  define a h where "a = unat (vol_byte 3 w)" and "h = unat (vol_byte 2 w)"
  define e where "e = 2 * int a - 150"
  have h: "h < 256" by (simp add: h_def unat_vol_byte)
  let ?t = "vol_total h (unat (vol_byte 1 w)) (unat (vol_byte 0 w))"
  note unf = vol_total_def vol_high_def vol_scale_def vol_mantissa_def h_def [symmetric]
  show ?thesis
  proof (cases "128 \<le> h")
    case True
    then have h1: "h div 128 = 1" using h by (simp add: div_nat_eqI)
    have "?t = 2 * (2 ^ 23 + vol_mantissa w)" using True unfolding unf by simp
    moreover have "int (unat w div 2 ^ 23) - 150 = e + 1"
      unfolding word_fields_divmod(1) a_def [symmetric] h_def [symmetric] h1 e_def by simp
    ultimately show ?thesis unfolding a_def [symmetric] h_def [symmetric] e_def [symmetric]
      by (simp only: ieee_single_def word_fields_divmod(2) dyad_def) (simp add: power_int_add)
  next
    case False
    then have "?t = 2 ^ 23 + vol_mantissa w" unfolding unf by simp
    moreover have "int (unat w div 2 ^ 23) - 150 = e"
      using False unfolding word_fields_divmod(1) a_def [symmetric] h_def [symmetric] e_def by simp
    ultimately show ?thesis unfolding a_def [symmetric] h_def [symmetric] e_def [symmetric]
      by (simp only: ieee_single_def word_fields_divmod(2) dyad_def)
  qed
qed

lemma GetVolume_exact:
  assumes expo: "1 \<le> unat w div 2 ^ 23" "unat w div 2 ^ 23 \<le> 254"
    and safe: "unat (vol_byte 2 w) = 0 \<or> 128 < unat (vol_byte 2 w) \<or> 134 \<le> 2 * unat (vol_byte 3 w)"
  shows "GetVolume w = Fin (ieee_single w)"
proof -
  define a h where "a = unat (vol_byte 3 w)" and "h = unat (vol_byte 2 w)"
  define m l where "m = unat (vol_byte 1 w)" and "l = unat (vol_byte 0 w)"
  have bounds: "h < 256" "m < 256" "l < 256" by (simp_all add: m_def l_def h_def unat_vol_byte)
  have "a \<le> 127" using expo word_fields_divmod(1) [of w] by (simp add: a_def)
  moreover have "uint (vol_byte 3 w) = int a" by (simp add: a_def)
  ultimately have sg: "sint (vol_byte 3 w) = int a" by (simp add: sint_uint signed_take_bit_int_eq_self)
  define e where "e = 2 * int a - 150"
  have exps: "int a * 2 - 0x7f = e + 23" "int a * 2 - 0x86 = e + 16"
    "int a * 2 - 0x8e = e + int 8" "int a * 2 - 0x96 = e + int 0" by (simp_all add: e_def)
  have "unat (vol_byte 2 w) = 0 \<or> 128 < unat (vol_byte 2 w) \<or> 0 \<le> e + 16"
    using safe unfolding e_def a_def [symmetric] by auto
  from vol_xmm4_dyad [OF this] have x4: "vol_xmm4 (e + 16) (vol_byte 2 w) = dyad e (vol_high h)"
    unfolding vol_high_def h_def .
  note low = vol_low_term [OF bounds(2) order.refl, where hb = "vol_byte 2 w" and e = e]
    vol_low_term [OF bounds(3), of 0, where hb = "vol_byte 2 w" and e = e]
  have "GetVolume w = to_float (dyad e (vol_total h m l))"
    unfolding GetVolume_def Let_def sg exps
    using low vol_sum [OF bounds, of e] by (simp only: vol_xmm6_dyad x4 flip: m_def l_def h_def) simp
  also have "\<dots> = to_float (ieee_single w)"
    using vol_total_ieee [of w] by (simp only: e_def a_def h_def m_def l_def)
  finally show ?thesis using to_float_ieee [OF expo] by simp
qed

section \<open>Properties\<close>

text \<open>
  Property C13. \<open>getPrice\<close> reads back what the reference encoder wrote, wherever it stands in the
  buffer, and moves the position just behind it, for every value whose magnitude fits 32 bits.
\<close>

theorem getPrice_roundtrip:
  assumes "pData = pre @ encodePrice v @ post" "\<bar>v\<bar> < 2 ^ 32"
  shows "getPrice pData (length pre) = Ret (word_of_int v, length pre + length (encodePrice v))"
  using assms by (rule getPrice_encodePrice)

theorem getPrice_roundtrip_witness:
  "getPrice ([9] @ encodePrice (- 1000) @ [5]) (length [9 :: byte]) =
    Ret (word_of_int (- 1000), length [9 :: byte] + length (encodePrice (- 1000)))"
  by (rule getPrice_roundtrip) simp_all

text \<open>
  Property C29. \<open>GetVolume\<close> computes the IEEE single-precision value of its bit pattern, exactly and with
  no rounding error, for every positive normal pattern, except where its last branch divides by
  the scale it should multiply with (second byte between 1 and 128, exponent below 134).
\<close>

theorem GetVolume_ieee:
  assumes "1 \<le> unat w div 2 ^ 23" "unat w div 2 ^ 23 \<le> 254"
    and "unat (vol_byte 2 w) = 0 \<or> 128 < unat (vol_byte 2 w) \<or> 134 \<le> 2 * unat (vol_byte 3 w)"
  shows "GetVolume w = Fin (ieee_single w)"
  using assms by (rule GetVolume_exact)

theorem GetVolume_ieee_witness: "GetVolume 0x4d7cc397 = Fin (ieee_single 0x4d7cc397)"
  by (rule GetVolume_ieee) (simp_all add: unat_vol_byte)

text \<open>
  In the excepted branch the value is wrong: the pattern of 32.25 is read as 36.
\<close>

theorem GetVolume_inverted_scale:
  "GetVolume 0x42010000 = Fin 36 \<and> ieee_single 0x42010000 = 32.25"
proof -
  have b: "vol_byte 3 0x42010000 = 0x42" "vol_byte 2 0x42010000 = 1" "vol_byte 1 0x42010000 = 0"
    "vol_byte (Suc 0) 0x42010000 = 0" "vol_byte 0 0x42010000 = 0" by (simp_all add: vol_byte_def)
  have r: "rnd 53 (of_int m) = of_int m" if "\<bar>m\<bar> < 2 ^ 53" for m :: int
    using rnd_exact [of "of_int m" m 0 53] that by simp
  have "to_float 36 = Fin 36" using to_float_exact [of 36 36 0] by simp
  moreover have "vol_xmm6 5 = 32" by (simp add: vol_xmm6_def pow2_def)
  moreover have "1 / pow2 (- 2) = 4" by (simp add: pow2_def power_int_def power_divide)
  then have "vol_xmm4 (- 2) 1 = 4" using r [of 4] by (simp add: vol_xmm4_def ddiv_def dmul_def)
  moreover have "dmul x 0 = 0" for x by (simp add: dmul_def rnd_def)
  moreover have "dadd 32 4 = 36" "dadd 36 0 = 36" using r [of 36] by (simp_all add: dadd_def)
  ultimately have "GetVolume 0x42010000 = Fin 36" by (simp add: GetVolume_def Let_def b)
  moreover have "ieee_single 0x42010000 = 32.25" by (simp add: ieee_single_def power_int_def power_divide)
  ultimately show ?thesis by simp
qed

end
