(* ===== verification/ByteStreams.thy ===== *)
theory ByteStreams
  imports ByteBuffer
begin

text \<open>
  The insertion and extraction operators of \<^verbatim>\<open>CByteBuffer\<close> under one contract. A pair of operators
  is \<open>streamable\<close> when inserting a value appends its representation and extracting at that
  representation gives the value back and moves the read position over it. The contract is proved
  for every operator pair of the class, and the container templates are verified once, for all
  element types that have it.
\<close>

locale streamable =
  fixes put :: "'v \<Rightarrow> unit bb"
    and get :: "'v bb"
    and rep :: "'v \<Rightarrow> byte list"
    and ok :: "'v \<Rightarrow> bool"
  assumes put_law: "bb_open b \<Longrightarrow> ok v \<Longrightarrow> bb_size b + length (rep v) < 10000000 \<Longrightarrow>
      put v b = (Ret (), b\<lparr>mStorage := mStorage b @ rep v, mWritePos := mWritePos b + length (rep v)\<rparr>)"
    and get_law: "bb_inv b \<Longrightarrow> ok v \<Longrightarrow> mStorage b = pre @ rep v @ post \<Longrightarrow> mReadPos b = length pre \<Longrightarrow>
      get b = (Ret v, b\<lparr>mReadPos := mReadPos b + length (rep v)\<rparr>)"
begin

lemma put_open:
  assumes "bb_open b" "ok v" "bb_size b + length (rep v) < 10000000"
  shows "bb_open (snd (put v b))"
  using assms by (auto simp: put_law bb_open_def bb_inv_def bb_size_def)

lemma put_then_get:
  assumes "bb_open b" "ok v" "bb_size b + length (rep v) < 10000000" "mReadPos b = bb_size b"
  shows "\<exists>b'. sq (put v) get b = (Ret v, b') \<and> bb_open b' \<and> mReadPos b' = bb_size b'"
proof -
  let ?b = "b\<lparr>mStorage := mStorage b @ rep v, mWritePos := mWritePos b + length (rep v)\<rparr>"
  have p: "put v b = (Ret (), ?b)" using assms(1-3) by (rule put_law)
  have op: "bb_open ?b" using put_open [OF assms(1-3)] by (simp add: p)
  have "get ?b = (Ret v, ?b\<lparr>mReadPos := mReadPos ?b + length (rep v)\<rparr>)"
    by (rule get_law [where pre = "mStorage b" and post = "[]"])
       (use op assms in \<open>auto simp: bb_open_def bb_size_def\<close>)
  with p op assms(4) show ?thesis
    by (auto simp: bb_open_def bb_inv_def bb_size_def)
qed

lemma for_each_put:
  assumes "bb_open b" "list_all ok vs" "bb_size b + length (concat (map rep vs)) < 10000000"
  shows "for_each put vs b =
    (Ret (), b\<lparr>mStorage := mStorage b @ concat (map rep vs),
               mWritePos := mWritePos b + length (concat (map rep vs))\<rparr>)"
  using assms
proof (induction vs arbitrary: b)
  case (Cons v vs)
  let ?b = "b\<lparr>mStorage := mStorage b @ rep v, mWritePos := mWritePos b + length (rep v)\<rparr>"
  have p: "put v b = (Ret (), ?b)" using Cons.prems by (intro put_law) auto
  have "bb_open ?b" using put_open [of b v] Cons.prems by (simp add: p)
  then have "for_each put vs ?b =
    (Ret (), ?b\<lparr>mStorage := mStorage ?b @ concat (map rep vs),
                mWritePos := mWritePos ?b + length (concat (map rep vs))\<rparr>)"
    using Cons.prems by (intro Cons.IH) (auto simp: bb_size_def)
  with p show ?case by simp
qed simp

lemma get_loop_law:
  assumes "bb_inv b" "list_all ok vs" "mStorage b = pre @ concat (map rep vs) @ post"
    "mReadPos b = length pre"
  shows "get_loop get (length vs) acc b =
    (Ret (acc @ vs), b\<lparr>mReadPos := mReadPos b + length (concat (map rep vs))\<rparr>)"
  using assms
proof (induction vs arbitrary: b pre acc)
  case (Cons v vs)
  let ?b = "b\<lparr>mReadPos := mReadPos b + length (rep v)\<rparr>"
  have g: "get b = (Ret v, ?b)"
    by (rule get_law [where pre = pre and post = "concat (map rep vs) @ post"]) (use Cons.prems in auto)
  have "get_loop get (length vs) (acc @ [v]) ?b =
    (Ret ((acc @ [v]) @ vs), ?b\<lparr>mReadPos := mReadPos ?b + length (concat (map rep vs))\<rparr>)"
    by (rule Cons.IH [where pre = "pre @ rep v"])
       (use Cons.prems in \<open>auto simp: bb_inv_def bb_size_def\<close>)
  with g show ?case by (simp add: add.assoc)
qed simp

end

section \<open>The scalar operators\<close>

text \<open>A fixed-size encoding gives a streamable pair through the two append and read templates.\<close>

locale codec =
  fixes sz :: nat and enc :: "'v \<Rightarrow> byte list" and dec :: "byte list \<Rightarrow> 'v" and ok :: "'v \<Rightarrow> bool"
  assumes enc_length: "length (enc v) = sz"
    and sz_pos: "0 < sz"
    and dec_enc: "ok v \<Longrightarrow> dec (enc v) = v"
begin

lemma codec_streamable: "streamable (bb_append_T enc) (bb_read_T sz dec) enc ok"
proof
  fix b v assume *: "bb_open b" "ok v" "bb_size b + length (enc v) < 10000000"
  then show "bb_append_T enc v b =
     (Ret (), b\<lparr>mStorage := mStorage b @ enc v, mWritePos := mWritePos b + length (enc v)\<rparr>)"
    by (simp add: bb_append_T_def bb_append_open)
next
  fix b v pre post
  assume "bb_inv b" "ok v" "mStorage b = pre @ enc v @ post" "mReadPos b = length pre"
  then show "bb_read_T sz dec b = (Ret v, b\<lparr>mReadPos := mReadPos b + length (enc v)\<rparr>)"
    by (simp add: bb_read_T_at enc_length sz_pos dec_enc)
qed

end

text \<open>The value of an \<open>n\<close>-bit two's complement pattern gives the integer back when it is in range.\<close>

lemma sint_bytes_word:
  assumes "LENGTH('a::len) = 8 * k" "- (2 ^ (8 * k - 1)) \<le> i" "i < 2 ^ (8 * k - 1)"
  shows "sint (bytes_word (word_bytes (word_of_int i :: 'a word)) :: 'a word) = i"
proof -
  have "bytes_word (word_bytes (word_of_int i :: 'a word)) = (word_of_int i :: 'a word)"
    using assms(1) by (rule bytes_word_bytes)
  moreover have "sint (word_of_int i :: 'a word) = i"
    using assms by (simp add: signed_of_int signed_take_bit_int_eq_self)
  ultimately show ?thesis by simp
qed

lemma length_word_bytes [simp]: "length (word_bytes (w :: 'a::len word)) = LENGTH('a) div 8"
  by (simp add: word_bytes_def)

definition in_range :: "nat \<Rightarrow> int \<Rightarrow> bool" where
  "in_range bits i \<longleftrightarrow> - (2 ^ (bits - 1)) \<le> i \<and> i < 2 ^ (bits - 1)"

interpretation u8: codec 1 "word_bytes :: 8 word \<Rightarrow> byte list" bytes_word "\<lambda>_. True"
  by unfold_locales (simp_all add: bytes_word_bytes [where k = 1])

interpretation u16: codec 2 "word_bytes :: 16 word \<Rightarrow> byte list" bytes_word "\<lambda>_. True"
  by unfold_locales (simp_all add: bytes_word_bytes [where k = 2])

interpretation u32: codec 4 "word_bytes :: 32 word \<Rightarrow> byte list" bytes_word "\<lambda>_. True"
  by unfold_locales (simp_all add: bytes_word_bytes [where k = 4])

interpretation u64: codec 8 "word_bytes :: 64 word \<Rightarrow> byte list" bytes_word "\<lambda>_. True"
  by unfold_locales (simp_all add: bytes_word_bytes [where k = 8])

interpretation i8: codec 1 "\<lambda>i. word_bytes (word_of_int i :: 8 word)"
    "\<lambda>bs. sint (bytes_word bs :: 8 word)" "in_range 8"
  by unfold_locales (simp_all add: in_range_def sint_bytes_word [where k = 1])

interpretation i16: codec 2 "\<lambda>i. word_bytes (word_of_int i :: 16 word)"
    "\<lambda>bs. sint (bytes_word bs :: 16 word)" "in_range 16"
  by unfold_locales (simp_all add: in_range_def sint_bytes_word [where k = 2])

interpretation i32: codec 4 "\<lambda>i. word_bytes (word_of_int i :: 32 word)"
    "\<lambda>bs. sint (bytes_word bs :: 32 word)" "in_range 32"
  by unfold_locales (simp_all add: in_range_def sint_bytes_word [where k = 4])

interpretation i64: codec 8 "\<lambda>i. word_bytes (word_of_int i :: 64 word)"
    "\<lambda>bs. sint (bytes_word bs :: 64 word)" "in_range 64"
  by unfold_locales (simp_all add: in_range_def sint_bytes_word [where k = 8])

interpretation st_u8: streamable put_uint8 get_uint8 word_bytes "\<lambda>_. True"
  using u8.codec_streamable by (simp add: put_uint8_def [abs_def] get_uint8_def)

interpretation st_u16: streamable put_uint16 get_uint16 word_bytes "\<lambda>_. True"
  using u16.codec_streamable by (simp add: put_uint16_def [abs_def] get_uint16_def)

interpretation st_u32: streamable put_uint32 get_uint32 word_bytes "\<lambda>_. True"
  using u32.codec_streamable by (simp add: put_uint32_def [abs_def] get_uint32_def)

interpretation st_u64: streamable put_uint64 get_uint64 word_bytes "\<lambda>_. True"
  using u64.codec_streamable by (simp add: put_uint64_def [abs_def] get_uint64_def)

interpretation st_i8: streamable put_int8 get_int8 "\<lambda>i. word_bytes (word_of_int i :: 8 word)" "in_range 8"
  using i8.codec_streamable by (simp add: put_int8_def [abs_def] get_int8_def)

interpretation st_i16: streamable put_int16 get_int16 "\<lambda>i. word_bytes (word_of_int i :: 16 word)" "in_range 16"
  using i16.codec_streamable by (simp add: put_int16_def [abs_def] get_int16_def)

interpretation st_i32: streamable put_int32 get_int32 "\<lambda>i. word_bytes (word_of_int i :: 32 word)" "in_range 32"
  using i32.codec_streamable by (simp add: put_int32_def [abs_def] get_int32_def)

interpretation st_i64: streamable put_int64 get_int64 "\<lambda>i. word_bytes (word_of_int i :: 64 word)" "in_range 64"
  using i64.codec_streamable by (simp add: put_int64_def [abs_def] get_int64_def)

interpretation st_float: streamable put_float get_float word_bytes "\<lambda>_. True"
  using u32.codec_streamable by (simp add: put_float_def [abs_def] get_float_def)

interpretation st_double: streamable put_double get_double word_bytes "\<lambda>_. True"
  using u64.codec_streamable by (simp add: put_double_def [abs_def] get_double_def)

interpretation st_bool: streamable put_bool get_bool bool_bytes "\<lambda>_. True"
proof
  fix b v assume "bb_open b" "True" "bb_size b + length (bool_bytes v) < 10000000"
  then show "put_bool v b =
     (Ret (), b\<lparr>mStorage := mStorage b @ bool_bytes v, mWritePos := mWritePos b + length (bool_bytes v)\<rparr>)"
    by (simp add: put_bool_def bb_append_T_def bb_append_open bool_bytes_def)
next
  fix b v pre post
  assume *: "bb_inv b" "True" "mStorage b = pre @ bool_bytes v @ post" "mReadPos b = length pre"
  have "bb_read_T 1 (\<lambda>bs. sint (bytes_word bs :: 8 word)) b =
      (Ret (sint (bytes_word (bool_bytes v) :: 8 word)), b\<lparr>mReadPos := mReadPos b + 1\<rparr>)"
    using * by (intro bb_read_T_at) (auto simp: bool_bytes_def)
  then show "get_bool b = (Ret v, b\<lparr>mReadPos := mReadPos b + length (bool_bytes v)\<rparr>)"
    by (cases v) (simp_all add: get_bool_def bool_bytes_def bytes_word_def)
qed

section \<open>Strings\<close>

lemma byte_char_byte [simp]: "byte_char (char_byte c) = c"
  by (simp add: byte_char_def char_byte_def unat_of_nat)

lemma bytes_word_singleton [simp]: "(bytes_word [b] :: 8 word) = b"
  by (simp add: bytes_word_def)

lemma length_string_bytes [simp]: "length (string_bytes s) = length s"
  by (simp add: string_bytes_def)

lemma string_bytes_Cons [simp]: "string_bytes (c # s) = char_byte c # string_bytes s"
  by (simp add: string_bytes_def)

lemma string_bytes_Nil [simp]: "string_bytes [] = []"
  by (simp add: string_bytes_def)

lemma byte_char_0 [simp]: "byte_char 0 = CHR 0x00"
  by (simp add: byte_char_def char_of_def)

lemma read_char_at:
  assumes "mStorage b = pre @ x # post" "mReadPos b = length pre" "bb_inv b"
  shows "bb_read_T 1 (\<lambda>bs. byte_char (bytes_word bs)) b =
    (Ret (byte_char x), b\<lparr>mReadPos := mReadPos b + 1\<rparr>)"
  using bb_read_T_at [of b pre "[x]" post 1 "\<lambda>bs. byte_char (bytes_word bs)"] assms by simp

text \<open>The extraction loop always ends, with as many turns as there are bytes left.\<close>

lemma get_chars_total:
  assumes "bb_inv b" "bb_size b - mReadPos b \<le> n"
  shows "\<exists>s b'. get_chars n acc b = (Ret s, b')"
  using assms
proof (induction n arbitrary: acc b)
  case (Suc n)
  show ?case
  proof (cases "mReadPos b < bb_size b")
    case True
    then have "mStorage b = take (mReadPos b) (mStorage b) @
        mStorage b ! mReadPos b # drop (Suc (mReadPos b)) (mStorage b)"
      by (simp add: bb_size_def id_take_nth_drop)
    then have r: "bb_read_T 1 (\<lambda>bs. byte_char (bytes_word bs)) b =
        (Ret (byte_char (mStorage b ! mReadPos b)), b\<lparr>mReadPos := mReadPos b + 1\<rparr>)"
      by (rule read_char_at) (use True Suc.prems in \<open>auto simp: bb_size_def\<close>)
    have "bb_inv (b\<lparr>mReadPos := mReadPos b + 1\<rparr>)"
      "bb_size (b\<lparr>mReadPos := mReadPos b + 1\<rparr>) - mReadPos (b\<lparr>mReadPos := mReadPos b + 1\<rparr>) \<le> n"
      using True Suc.prems by (auto simp: bb_inv_def bb_size_def)
    with Suc.IH r True show ?thesis by simp
  qed simp
qed simp

lemma get_chars_string:
  assumes "bb_inv b" "CHR 0x00 \<notin> set s" "mStorage b = pre @ string_bytes s @ 0 # post"
    "mReadPos b = length pre" "length s < n"
  shows "get_chars n acc b = (Ret (acc @ s), b\<lparr>mReadPos := mReadPos b + length s + 1\<rparr>)"
  using assms
proof (induction s arbitrary: n acc b pre)
  case Nil
  then obtain m where "n = Suc m" by (cases n) auto
  with Nil read_char_at [of b pre 0 post] show ?case by (simp add: bb_size_def)
next
  case (Cons c s)
  then obtain m where n: "n = Suc m" by (cases n) auto
  let ?b = "b\<lparr>mReadPos := mReadPos b + 1\<rparr>"
  have r: "bb_read_T 1 (\<lambda>bs. byte_char (bytes_word bs)) b = (Ret c, ?b)"
    using Cons.prems read_char_at [of b pre "char_byte c" "string_bytes s @ 0 # post"] by simp
  have "get_chars m (acc @ [c]) ?b = (Ret ((acc @ [c]) @ s), ?b\<lparr>mReadPos := mReadPos ?b + length s + 1\<rparr>)"
    by (rule Cons.IH [where pre = "pre @ [char_byte c]"])
       (use Cons.prems n in \<open>auto simp: bb_inv_def bb_size_def\<close>)
  with n r Cons.prems show ?case by (auto simp: bb_size_def)
qed

definition string_rep :: "string \<Rightarrow> byte list" where
  "string_rep s = string_bytes s @ [0]"

interpretation st_string: streamable put_string get_string string_rep "\<lambda>s. CHR 0x00 \<notin> set s"
proof
  fix b s assume *: "bb_open b" "CHR 0x00 \<notin> set s" "bb_size b + length (string_rep s) < 10000000"
  let ?b = "b\<lparr>mStorage := mStorage b @ string_bytes s, mWritePos := mWritePos b + length s\<rparr>"
  have a: "bb_append (string_bytes s) (length s) b = (Ret (), ?b)"
    using * by (simp add: bb_append_open string_rep_def)
  have "bb_open ?b" using * by (auto simp: bb_open_def bb_inv_def bb_size_def string_rep_def)
  then have "bb_append_T word_bytes (0 :: 8 word) ?b =
      (Ret (), ?b\<lparr>mStorage := mStorage ?b @ [0], mWritePos := mWritePos ?b + 1\<rparr>)"
    by (simp add: bb_append_T_def bb_append_open word_bytes_def)
  with a show "put_string s b = (Ret (), b\<lparr>mStorage := mStorage b @ string_rep s,
      mWritePos := mWritePos b + length (string_rep s)\<rparr>)"
    by (simp add: put_string_def string_rep_def)
next
  fix b s pre post
  assume "bb_inv b" "CHR 0x00 \<notin> set s" "mStorage b = pre @ string_rep s @ post" "mReadPos b = length pre"
  then show "get_string b = (Ret s, b\<lparr>mReadPos := mReadPos b + length (string_rep s)\<rparr>)"
    unfolding get_string_def
    by (subst get_chars_string [where pre = pre and post = post and s = s])
       (auto simp: string_rep_def bb_size_def)
qed

section \<open>Containers\<close>

definition vector_rep :: "('v \<Rightarrow> byte list) \<Rightarrow> 'v list \<Rightarrow> byte list" where
  "vector_rep rep vs = word_bytes (word_of_nat (length vs) :: 32 word) @ concat (map rep vs)"

definition vector_ok :: "('v \<Rightarrow> bool) \<Rightarrow> 'v list \<Rightarrow> bool" where
  "vector_ok ok vs \<longleftrightarrow> list_all ok vs \<and> length vs < 2 ^ 32"

context streamable
begin

lemma vector_streamable: "streamable (put_vector put) (get_vector get) (vector_rep rep) (vector_ok ok)"
proof
  fix b vs
  assume *: "bb_open b" "vector_ok ok vs" "bb_size b + length (vector_rep rep vs) < 10000000"
  let ?n = "word_of_nat (length vs) :: 32 word"
  let ?b = "b\<lparr>mStorage := mStorage b @ word_bytes ?n, mWritePos := mWritePos b + 4\<rparr>"
  have p: "put_uint32 ?n b = (Ret (), ?b)"
    using * st_u32.put_law [where b = b and v = ?n] by (simp add: vector_rep_def)
  have "for_each put vs ?b = (Ret (), ?b\<lparr>mStorage := mStorage ?b @ concat (map rep vs),
      mWritePos := mWritePos ?b + length (concat (map rep vs))\<rparr>)"
    using * by (intro for_each_put)
      (auto simp: vector_rep_def vector_ok_def bb_open_def bb_inv_def bb_size_def)
  with p show "put_vector put vs b = (Ret (), b\<lparr>mStorage := mStorage b @ vector_rep rep vs,
      mWritePos := mWritePos b + length (vector_rep rep vs)\<rparr>)"
    by (simp add: put_vector_def vector_rep_def)
next
  fix b vs pre post
  assume *: "bb_inv b" "vector_ok ok vs" "mStorage b = pre @ vector_rep rep vs @ post"
    "mReadPos b = length pre"
  let ?n = "word_of_nat (length vs) :: 32 word"
  let ?b = "b\<lparr>mReadPos := mReadPos b + 4\<rparr>"
  have g: "get_uint32 b = (Ret ?n, ?b)"
    using * st_u32.get_law [where b = b and v = ?n and pre = pre and post = "concat (map rep vs) @ post"] by (simp add: vector_rep_def)
  have n: "unat ?n = length vs"
    using * by (simp add: vector_ok_def unat_of_nat)
  have "get_loop get (length vs) [] ?b =
     (Ret ([] @ vs), ?b\<lparr>mReadPos := mReadPos ?b + length (concat (map rep vs))\<rparr>)"
    by (rule get_loop_law [where pre = "pre @ word_bytes ?n" and post = post])
       (use * in \<open>auto simp: vector_rep_def vector_ok_def bb_inv_def bb_size_def\<close>)
  with g n show "get_vector get b = (Ret vs, b\<lparr>mReadPos := mReadPos b + length (vector_rep rep vs)\<rparr>)"
    by (simp add: get_vector_def vector_rep_def add.assoc)
qed

lemma list_streamable: "streamable (put_list put) (get_list get) (vector_rep rep) (vector_ok ok)"
  using vector_streamable
  by (simp add: put_list_def [abs_def] get_list_def put_vector_def [abs_def] get_vector_def)

end

interpretation st_vec_u32: streamable "put_vector put_uint32" "get_vector get_uint32"
    "vector_rep word_bytes" "vector_ok (\<lambda>_. True)"
  by (rule st_u32.vector_streamable)

interpretation st_list_string: streamable "put_list put_string" "get_list get_string"
    "vector_rep string_rep" "vector_ok (\<lambda>s. CHR 0x00 \<notin> set s)"
  by (rule st_string.list_streamable)

text \<open>Maps: a map that was stored comes back entry by entry in key order.\<close>

lemma map_insert_last:
  "(\<forall>k'\<in>set (map fst m). k' < k) \<Longrightarrow> map_insert k v m = m @ [(k, v)]"
  by (induction m) auto

definition map_rep :: "('k \<Rightarrow> byte list) \<Rightarrow> ('v \<Rightarrow> byte list) \<Rightarrow> ('k \<times> 'v) list \<Rightarrow> byte list" where
  "map_rep repk repv m =
     word_bytes (word_of_nat (length m) :: 32 word) @ concat (map (\<lambda>(k, v). repk k @ repv v) m)"

definition map_ok :: "('k::linorder \<Rightarrow> bool) \<Rightarrow> ('v \<Rightarrow> bool) \<Rightarrow> ('k \<times> 'v) list \<Rightarrow> bool" where
  "map_ok okk okv m \<longleftrightarrow> sorted_wrt (<) (map fst m) \<and> list_all (\<lambda>(k, v). okk k \<and> okv v) m \<and> length m < 2 ^ 32"

lemma get_loop_extends:
  "get_loop get n acc b = (Ret zs, b') \<Longrightarrow> \<exists>xs. zs = acc @ xs \<and> length xs = n"
proof (induction n arbitrary: acc b)
  case (Suc n)
  then obtain t b1 where "get_loop get n (acc @ [t]) b1 = (Ret zs, b')" by (auto elim!: bnd_RetE)
  with Suc.IH show ?case by fastforce
qed auto

locale stream_map =
  keys: streamable putk getk repk okk + vals: streamable putv getv repv okv
  for putk :: "'k::linorder \<Rightarrow> unit bb" and getk :: "'k bb" and repk and okk
    and putv :: "'v \<Rightarrow> unit bb" and getv :: "'v bb" and repv and okv
begin

lemma pair_streamable:
  "streamable (\<lambda>(k, v). sq (putk k) (putv v)) (bnd getk (\<lambda>k. bnd getv (\<lambda>v. ret (k, v))))
     (\<lambda>(k, v). repk k @ repv v) (\<lambda>(k, v). okk k \<and> okv v)"
proof
  fix b and kv :: "'k \<times> 'v"
  obtain k v where kv: "kv = (k, v)" by (cases kv)
  assume *: "bb_open b" "case kv of (k, v) \<Rightarrow> okk k \<and> okv v"
    "bb_size b + length (case kv of (k, v) \<Rightarrow> repk k @ repv v) < 10000000"
  let ?b = "b\<lparr>mStorage := mStorage b @ repk k, mWritePos := mWritePos b + length (repk k)\<rparr>"
  have p: "putk k b = (Ret (), ?b)" using * kv by (intro keys.put_law) auto
  have "putv v ?b = (Ret (), ?b\<lparr>mStorage := mStorage ?b @ repv v, mWritePos := mWritePos ?b + length (repv v)\<rparr>)"
    using * kv by (intro vals.put_law) (auto simp: bb_open_def bb_inv_def bb_size_def)
  with p show "(case kv of (k, v) \<Rightarrow> sq (putk k) (putv v)) b =
      (Ret (), b\<lparr>mStorage := mStorage b @ (case kv of (k, v) \<Rightarrow> repk k @ repv v),
        mWritePos := mWritePos b + length (case kv of (k, v) \<Rightarrow> repk k @ repv v)\<rparr>)"
    by (simp add: kv add.assoc)
next
  fix b and kv :: "'k \<times> 'v" and pre post
  obtain k v where kv: "kv = (k, v)" by (cases kv)
  assume *: "bb_inv b" "case kv of (k, v) \<Rightarrow> okk k \<and> okv v"
    "mStorage b = pre @ (case kv of (k, v) \<Rightarrow> repk k @ repv v) @ post" "mReadPos b = length pre"
  let ?b = "b\<lparr>mReadPos := mReadPos b + length (repk k)\<rparr>"
  have g: "getk b = (Ret k, ?b)"
    using * kv by (intro keys.get_law [where pre = pre and post = "repv v @ post"]) auto
  have "getv ?b = (Ret v, ?b\<lparr>mReadPos := mReadPos ?b + length (repv v)\<rparr>)"
    using * kv by (intro vals.get_law [where pre = "pre @ repk k" and post = post])
      (auto simp: bb_inv_def bb_size_def)
  with g show "bnd getk (\<lambda>k. bnd getv (\<lambda>v. ret (k, v))) b =
      (Ret kv, b\<lparr>mReadPos := mReadPos b + length (case kv of (k, v) \<Rightarrow> repk k @ repv v)\<rparr>)"
    by (simp add: kv add.assoc)
qed

lemma get_map_loop_law:
  assumes "get_loop (bnd getk (\<lambda>k. bnd getv (\<lambda>v. ret (k, v)))) n acc b = (Ret (acc @ m), b')"
    "length m = n" "sorted_wrt (<) (map fst (acc @ m))"
  shows "get_map_loop getk getv n acc b = (Ret (acc @ m), b')"
  using assms
proof (induction n arbitrary: acc m b)
  case (Suc n)
  let ?get = "bnd getk (\<lambda>k. bnd getv (\<lambda>v. ret (k, v)))"
  have "bnd ?get (\<lambda>t. get_loop ?get n (acc @ [t])) b = (Ret (acc @ m), b')"
    using Suc.prems(1) by (simp only: get_loop.simps)
  then obtain t b2 where t: "?get b = (Ret t, b2)"
    and loop: "get_loop ?get n (acc @ [t]) b2 = (Ret (acc @ m), b')" by (rule bnd_RetE)
  from t obtain k b1 where gk: "getk b = (Ret k, b1)"
    and "bnd getv (\<lambda>v. ret (k, v)) b1 = (Ret t, b2)" by (rule bnd_RetE)
  from this(2) obtain v b3 where "getv b1 = (Ret v, b3)" and "ret (k, v) b3 = (Ret t, b2)"
    by (rule bnd_RetE)
  then have gv: "getv b1 = (Ret v, b2)" and t_eq: "t = (k, v)" by auto
  have rest: "get_loop ?get n (acc @ [(k, v)]) b2 = (Ret (acc @ m), b')" using loop t_eq by simp
  have pre: "\<exists>xs. acc @ m = (acc @ [(k, v)]) @ xs \<and> length xs = n"
    using rest by (rule get_loop_extends)
  then obtain xs where xs: "m = (k, v) # xs" "length xs = n" by auto
  have "map_insert k v acc = acc @ [(k, v)]"
    using Suc.prems(3) xs by (intro map_insert_last) (auto simp: sorted_wrt_append)
  moreover have "get_map_loop getk getv n (acc @ [(k, v)]) b2 = (Ret ((acc @ [(k, v)]) @ xs), b')"
    using rest xs Suc.prems(3) by (intro Suc.IH) (auto simp del: ret_apply)
  ultimately show ?case using gk gv xs by simp
qed simp

lemma map_streamable: "streamable (put_map putk putv) (get_map getk getv) (map_rep repk repv) (map_ok okk okv)"
proof
  let ?put = "\<lambda>(k, v). sq (putk k) (putv v)" and ?rep = "\<lambda>(k, v). repk k @ repv v"
    and ?get = "bnd getk (\<lambda>k. bnd getv (\<lambda>v. ret (k, v)))" and ?ok = "\<lambda>(k, v). okk k \<and> okv v"
  fix b m
  assume *: "bb_open b" "map_ok okk okv m" "bb_size b + length (map_rep repk repv m) < 10000000"
  have "put_vector ?put m b = (Ret (), b\<lparr>mStorage := mStorage b @ vector_rep ?rep m,
      mWritePos := mWritePos b + length (vector_rep ?rep m)\<rparr>)"
    using * by (intro streamable.put_law [OF streamable.vector_streamable [OF pair_streamable]])
      (auto simp: map_ok_def vector_ok_def map_rep_def vector_rep_def)
  then show "put_map putk putv m b = (Ret (), b\<lparr>mStorage := mStorage b @ map_rep repk repv m,
      mWritePos := mWritePos b + length (map_rep repk repv m)\<rparr>)"
    by (simp add: put_map_def put_vector_def map_rep_def vector_rep_def)
next
  let ?rep = "\<lambda>(k, v). repk k @ repv v"
    and ?get = "bnd getk (\<lambda>k. bnd getv (\<lambda>v. ret (k, v)))" and ?ok = "\<lambda>(k, v). okk k \<and> okv v"
  fix b m pre post
  assume *: "bb_inv b" "map_ok okk okv m" "mStorage b = pre @ map_rep repk repv m @ post"
    "mReadPos b = length pre"
  let ?n = "word_of_nat (length m) :: 32 word"
  let ?b = "b\<lparr>mReadPos := mReadPos b + 4\<rparr>"
  have g: "get_uint32 b = (Ret ?n, ?b)"
    using * st_u32.get_law [where b = b and v = ?n and pre = pre and post = "concat (map ?rep m) @ post"]
    by (simp add: map_rep_def)
  have n: "unat ?n = length m"
    using * by (simp add: map_ok_def unat_of_nat)
  have "get_loop ?get (length m) [] ?b =
     (Ret ([] @ m), ?b\<lparr>mReadPos := mReadPos ?b + length (concat (map ?rep m))\<rparr>)"
    by (rule streamable.get_loop_law [OF pair_streamable, where pre = "pre @ word_bytes ?n" and post = post])
       (use * in \<open>auto simp: map_rep_def map_ok_def bb_inv_def bb_size_def\<close>)
  then have "get_map_loop getk getv (length m) [] ?b =
     (Ret ([] @ m), ?b\<lparr>mReadPos := mReadPos ?b + length (concat (map ?rep m))\<rparr>)"
    by (rule get_map_loop_law) (use * in \<open>auto simp: map_ok_def\<close>)
  with g n show "get_map getk getv b = (Ret m, b\<lparr>mReadPos := mReadPos b + length (map_rep repk repv m)\<rparr>)"
    by (simp add: get_map_def map_rep_def add.assoc)
qed

end

interpretation map_string_u32: stream_map put_string get_string string_rep "\<lambda>s. CHR 0x00 \<notin> set s"
    put_uint32 get_uint32 word_bytes "\<lambda>_. True"
  by unfold_locales

interpretation st_map: streamable "put_map put_string put_uint32" "get_map get_string get_uint32"
    "map_rep string_rep word_bytes" "map_ok (\<lambda>s. CHR 0x00 \<notin> set s) (\<lambda>_. True)"
  by (rule map_string_u32.map_streamable)

section \<open>Properties\<close>

lemma bb_open_init: "bb_open CByteBuffer"
  by (simp add: bb_open_def) (simp add: CByteBuffer_def bb_size_def)

text \<open>
  Property C28. A map from strings to 32-bit numbers that is inserted into a buffer, whatever the buffer
  holds, comes back from it unchanged: the nested templates and the string and integer operators
  agree on the format, byte by byte, and the buffer is as open to further use as before.
\<close>

theorem map_stream_roundtrip:
  assumes "bb_open b" "mReadPos b = bb_size b" "map_ok (\<lambda>s. CHR 0x00 \<notin> set s) (\<lambda>_. True) m"
    "bb_size b + length (map_rep string_rep word_bytes m) < 10000000"
  shows "\<exists>b'. sq (put_map put_string put_uint32 m) (get_map get_string get_uint32) b = (Ret m, b') \<and>
    bb_open b' \<and> mReadPos b' = bb_size b'"
  using assms(1,3,4,2) by (rule st_map.put_then_get)

theorem map_stream_roundtrip_witness:
  "\<exists>b'. sq (put_map put_string put_uint32 [(''600000'', 7), (''600004'', 9)]) (get_map get_string get_uint32)
      CByteBuffer = (Ret [(''600000'', 7), (''600004'', 9)], b') \<and> bb_open b' \<and> mReadPos b' = bb_size b'"
  by (rule map_stream_roundtrip)
    (simp_all add: bb_open_init map_ok_def, simp_all add: CByteBuffer_def bb_size_def map_rep_def string_rep_def)

text \<open>
  A list of strings goes through the buffer unchanged when no string holds a zero character.
\<close>

theorem list_stream_roundtrip:
  assumes "bb_open b" "mReadPos b = bb_size b" "list_all (\<lambda>s. CHR 0x00 \<notin> set s) ss" "length ss < 2 ^ 32"
    "bb_size b + length (vector_rep string_rep ss) < 10000000"
  shows "\<exists>b'. sq (put_list put_string ss) (get_list get_string) b = (Ret ss, b') \<and> bb_open b' \<and>
    mReadPos b' = bb_size b'"
  using assms by (intro st_list_string.put_then_get) (simp_all add: vector_ok_def)

theorem list_stream_roundtrip_witness:
  "\<exists>b'. sq (put_list put_string [''a'', ''bc'']) (get_list get_string) CByteBuffer = (Ret [''a'', ''bc''], b') \<and>
    bb_open b' \<and> mReadPos b' = bb_size b'"
  by (rule list_stream_roundtrip)
    (simp_all add: bb_open_init, simp_all add: CByteBuffer_def bb_size_def vector_rep_def string_rep_def)

text \<open>
  Property C34. The positions of a buffer stay inside its storage, on every outcome of appending (bytes, a
  value, another buffer), storing at a position, resizing, reserving, clearing, erasing, and
  reading a number, a block of bytes or a string. The two operations that set a position, \<^verbatim>\<open>rpos(n)\<close> and
  \<^verbatim>\<open>wpos(n)\<close>, check nothing: they keep the invariant exactly for a position inside the storage, as the
  \<^verbatim>\<open>rpos(0)\<close> of the client is.
\<close>

theorem bytebuffer_invariant:
  assumes "bb_inv b"
  shows "bb_inv (snd (bb_append src cnt b)) \<and> bb_inv (snd (bb_append_T enc v b)) \<and>
    bb_inv (snd (bb_append_buffer buf b)) \<and> bb_inv (snd (bb_put pos src cnt b)) \<and> bb_inv (snd (bb_resize n b)) \<and>
    bb_inv (snd (bb_reserve n b)) \<and> bb_inv (snd (bb_clear b)) \<and> bb_inv (snd (Erase n b)) \<and>
    bb_inv (snd (bb_read_T n dec b)) \<and> bb_inv (snd (bb_read n b)) \<and> bb_inv (snd (get_string b)) \<and>
    (bb_inv (snd (bb_set_rpos n b)) \<longleftrightarrow> n \<le> bb_size b) \<and> (bb_inv (snd (bb_set_wpos n b)) \<longleftrightarrow> n \<le> bb_size b)"
  using assms by (intro conjI bb_inv_set_pos keepsD [of bb_inv]) simp_all

theorem bytebuffer_invariant_witness:
  "bb_inv (snd (bb_append [1, 2, 3] 3 CByteBuffer)) \<and> \<not> bb_inv (snd (bb_set_rpos 5 CByteBuffer))"
proof -
  have "bb_size CByteBuffer = 0" by (simp add: CByteBuffer_def bb_size_def)
  with bytebuffer_invariant [of CByteBuffer "[1, 2, 3]" 3 id "[]" CByteBuffer 0 5 id] show ?thesis by simp
qed

text \<open>
  Reading past the end is detected: the extraction throws \<^verbatim>\<open>out_of_range\<close> after it has dumped the
  whole storage, and neither position moves.
\<close>

theorem short_read_detected:
  assumes "bb_inv b" "bb_size b < mReadPos b + 4"
  shows "get_uint32 b = (Throw (out_of_range ''out of range''), b\<lparr>dumps := dumps b @ [mStorage b]\<rparr>)"
  using assms by (simp add: get_uint32_def bb_read_T_short bb_dump_throw_def)

theorem short_read_detected_witness:
  "get_uint32 CByteBuffer = (Throw (out_of_range ''out of range''), CByteBuffer\<lparr>dumps := dumps CByteBuffer @ [mStorage CByteBuffer]\<rparr>)"
  by (rule short_read_detected) (simp, simp add: CByteBuffer_def bb_size_def)

text \<open>
  Property C39. Appending a buffer that has been partly read runs over its end: the source takes
  \<^verbatim>\<open>size()\<close> bytes from \<^verbatim>\<open>contents()\<close>, which starts at the read position.
\<close>

theorem append_buffer_overrun:
  assumes "bb_open b" "bb_inv buf" "0 < mReadPos buf" "bb_size buf < 10000000"
  shows "fst (bb_append_buffer buf b) = Abort Undefined"
proof -
  have sz: "0 < bb_size buf" "length (bb_contents buf) < bb_size buf"
    using assms by (auto simp: bb_inv_def bb_contents_def bb_size_def)
  have "u32_add (mWritePos b) (bb_size buf) = bb_size b + bb_size buf"
    using assms by (simp add: bb_open_def u32_add_eq)
  with sz assms show ?thesis
    by (simp add: bb_append_buffer_def bb_append_def bb_open_def vec_resize_def)
qed

theorem append_buffer_overrun_witness:
  "fst (bb_append_buffer \<lparr>mReadPos = 1, mWritePos = 2, mStorage = [5, 6], dumps = []\<rparr> CByteBuffer) = Abort Undefined"
  by (rule append_buffer_overrun) (simp_all add: bb_open_init bb_inv_def, simp_all add: bb_size_def)

end
