(* ===== verification/SecurityBars.thy ===== *)
theory SecurityBars
  imports TdxConnect PriceCodec ByteStreams
begin

text \<open>
  \<open>TDXHQ_GetSecurityBars\<close> of src/TDXHQ/TDXHQ.cpp: one request for the candlesticks of a security and
  its reply, turned into the text table the caller reads. The request is built and the header is
  read through \<open>ByteBuffer\<close>; the body arrives in pieces, is decompressed by zlib's \<^verbatim>\<open>uncompress\<close> (a
  parameter) unless the two sizes agree, and holds delta-coded prices in the formats of
  \<open>PriceCodec\<close>. The reference is the encoder \<open>encode_bars\<close> of such a body. \<open>quotes_request\<close> is the
  request of \<open>TdxHq_GetSecurityQuotes\<close>.
\<close>

section \<open>Requests\<close>

definition strlen :: "string \<Rightarrow> nat" where
  "strlen s = length (takeWhile (\<lambda>c. c \<noteq> CHR 0x00) s)"

definition append_u16 :: "nat \<Rightarrow> unit bb" where
  "append_u16 n = bb_append_T word_bytes (word_of_nat n :: 16 word)"

definition append_u32 :: "nat \<Rightarrow> unit bb" where
  "append_u32 n = bb_append_T word_bytes (word_of_nat n :: 32 word)"

definition append_u8 :: "nat \<Rightarrow> unit bb" where
  "append_u8 n = bb_append_T word_bytes (word_of_nat n :: 8 word)"

definition bars_request :: "nat \<Rightarrow> nat \<Rightarrow> string \<Rightarrow> nat \<Rightarrow> unit bb" where
  "bars_request Category Market Zqdm Count =
     for_each (\<lambda>m. m)
       [append_u16 0x10c, append_u32 0x01016408, append_u16 0x12, append_u16 0x12, append_u16 0x529,
        append_u16 Market, bb_append_chars Zqdm (strlen Zqdm), append_u16 Category, append_u32 1,
        append_u16 Count]"

definition quotes_request :: "nat \<Rightarrow> string \<Rightarrow> unit bb" where
  "quotes_request Market Zqdm =
     for_each (\<lambda>m. m)
       [append_u16 0x10c, append_u32 0x02006320, append_u16 0x13, append_u16 0x13, append_u16 0x5053e,
        append_u32 0, append_u16 0, append_u16 1, append_u8 Market, bb_append_chars Zqdm (strlen Zqdm)]"

section \<open>Sending and receiving\<close>

text \<open>A local \<^verbatim>\<open>CByteBuffer\<close> in a function of the client: its exceptions leave the function.\<close>

definition with_bb :: "'a bb \<Rightarrow> bytebuffer \<Rightarrow> ('a \<times> bytebuffer) tio" where
  "with_bb m b s =
     (case m b of
        (Ret x, b') \<Rightarrow> (Ret (x, b'), s)
      | (Throw e, b') \<Rightarrow> (Throw e, s)
      | (Abort f, b') \<Rightarrow> (Abort f, s))"

definition call_send :: "int \<Rightarrow> byte list \<Rightarrow> int tio" where
  "call_send k bs s =
     (case sock_send k bs (wire s) of
        (Sent n, w) \<Rightarrow> (Ret (int n), s\<lparr>wire := w\<rparr>)
      | (SendError e, w) \<Rightarrow> (Ret (- 1), s\<lparr>wire := w\<rparr>)
      | (NoRoom, w) \<Rightarrow> (Abort Blocked, s\<lparr>wire := w\<rparr>))"

definition call_recv :: "int \<Rightarrow> nat \<Rightarrow> (int \<times> byte list) tio" where
  "call_recv k n s =
     (case sock_recv k n False (wire s) of
        (Got bs, w) \<Rightarrow> (Ret (int (length bs), bs), s\<lparr>wire := w\<rparr>)
      | (PeerClosed, w) \<Rightarrow> (Ret (0, []), s\<lparr>wire := w\<rparr>)
      | (RecvError e, w) \<Rightarrow> (Ret (- 1, []), s\<lparr>wire := w\<rparr>)
      | (NoData, w) \<Rightarrow> (Abort Blocked, s\<lparr>wire := w\<rparr>))"

text \<open>
  The loop that receives the body. Each call asks for the full size, whatever has arrived, and its
  result is the byte count of \<^verbatim>\<open>append\<close> even when it is -1.
\<close>

function recv_body :: "int \<Rightarrow> nat \<Rightarrow> byte list \<Rightarrow> bytebuffer \<Rightarrow> (int \<times> bytebuffer) tio" where
  "recv_body k wZipedSize ZipedData bf s =
     (case call_recv k wZipedSize s of
        (Ret (iRecvedBody, bs), s1) \<Rightarrow>
          (let data = bs @ drop (length bs) ZipedData
           in case bb_append data (to_u32 iRecvedBody) bf of
                (Ret _, bf1) \<Rightarrow>
                  (if iRecvedBody \<noteq> 0 \<and> bb_size bf1 \<noteq> wZipedSize
                   then recv_body k wZipedSize data bf1 s1
                   else (Ret (iRecvedBody, bf1), s1))
              | (Throw e, bf1) \<Rightarrow> (Throw e, s1)
              | (Abort f, bf1) \<Rightarrow> (Abort f, s1))
      | (Throw e, s1) \<Rightarrow> (Throw e, s1)
      | (Abort f, s1) \<Rightarrow> (Abort f, s1))"
  by pat_completeness auto

lemma call_recv_weight:
  assumes "call_recv k n s = (Ret (i, bs), s1)" "i \<noteq> 0"
  shows "weight (wire s1) k < weight (wire s) k"
proof (cases "sock_recv k n False (wire s)")
  case (Pair r w)
  show ?thesis
  proof (cases r)
    case (Got cs)
    with Pair assms have "bs = cs" "cs \<noteq> []" "wire s1 = w" by (auto simp: call_recv_def)
    moreover have "0 < n"
      using sock_recv_Got(2) [of k n False "wire s" cs w] Pair Got calculation by (cases n) auto
    ultimately show ?thesis using weight_recv [of k n "wire s" cs w] Pair Got by simp
  next
    case (RecvError e)
    with Pair assms show ?thesis using weight_error [of k n False "wire s" e w]
      by (auto simp: call_recv_def)
  qed (use Pair assms in \<open>auto simp: call_recv_def\<close>)
qed

termination recv_body
  by (relation "measure (\<lambda>(k, n, d, b, s). weight (wire s) k)") (auto intro: call_recv_weight [OF sym])

declare recv_body.simps [simp del]

section \<open>Decoding\<close>

definition le_at :: "nat \<Rightarrow> byte list \<Rightarrow> nat \<Rightarrow> nat res" where
  "le_at n data pos =
     (if pos + n \<le> length data then Ret (le_val (take n (drop pos data))) else Abort Undefined)"

record bar =
  year :: nat
  month :: nat
  day :: nat
  hour :: nat
  minute :: nat
  iPriceOpen :: "32 word"
  iPriceClose :: "32 word"
  iPriceHight :: "32 word"
  iPriceLow :: "32 word"
  Volume :: "32 word"
  dbvol :: fval

definition intraday :: "nat \<Rightarrow> bool" where
  "intraday Category \<longleftrightarrow> Category < 4 \<or> Category = 7 \<or> Category = 8"

text \<open>The date and time of a bar: two 16-bit numbers for the intraday categories, else a decimal date.\<close>

definition decode_date :: "nat \<Rightarrow> byte list \<Rightarrow> nat \<Rightarrow> (nat \<times> nat \<times> nat \<times> nat \<times> nat) res" where
  "decode_date Category data pos =
     (if intraday Category then
        rbnd (le_at 2 data pos) (\<lambda>zipday.
        rbnd (le_at 2 data (pos + 2)) (\<lambda>tminutes.
          Ret (zipday div 2 ^ 11 + 2004, zipday mod 2048 div 100, zipday mod 2048 mod 100,
               tminutes div 60, tminutes mod 60)))
      else
        rbnd (le_at 4 data pos) (\<lambda>zipday.
          Ret (zipday div 10000, zipday mod 10000 div 100, zipday mod 100, 15, 0)))"

definition amount_of :: "32 word \<Rightarrow> 32 word \<Rightarrow> fval" where
  "amount_of iTurnOver close =
     (case GetVolume iTurnOver of
        Fin v \<Rightarrow> if v < rnd 53 (1 / 10000000) then Fin (ddiv (of_int (sint close)) 1000) else Fin v
      | Infinite \<Rightarrow> Infinite)"

definition decode_bar :: "nat \<Rightarrow> byte list \<Rightarrow> nat \<Rightarrow> 32 word \<Rightarrow> (bar \<times> nat) res" where
  "decode_bar Category data pos iPreClose =
     rbnd (decode_date Category data pos) (\<lambda>(y, mo, d, h, mi).
     rbnd (getPrice data (pos + 4)) (\<lambda>(p1, pos1).
     rbnd (getPrice data pos1) (\<lambda>(p2, pos2).
     rbnd (getPrice data pos2) (\<lambda>(p3, pos3).
     rbnd (getPrice data pos3) (\<lambda>(p4, pos4).
     rbnd (getPrice data pos4) (\<lambda>(vol, pos5).
     rbnd (le_at 4 data pos5) (\<lambda>iTurnOver.
       let open = iPreClose + p1; close = open + p2
       in Ret (\<lparr>year = y, month = mo, day = d, hour = h, minute = mi,
                iPriceOpen = open, iPriceClose = close, iPriceHight = open + p3, iPriceLow = open + p4,
                Volume = (if vol = 0 then 1 else vol),
                dbvol = amount_of (word_of_nat iTurnOver) close\<rparr>, pos5 + 4))))))))"

section \<open>The table\<close>

definition pad :: "nat \<Rightarrow> string \<Rightarrow> string" where
  "pad n s = replicate (n - length s) (CHR '' '') @ s"

text \<open>
  \<^verbatim>\<open>%.3f\<close> gives the exact decimals. A price is a 32-bit number of thousandths and has at most ten digits, which
  every runtime prints; of an amount above \<open>10 ^ 14\<close> older runtimes print zeros after 17 significant digits.
\<close>

definition show_price :: "32 word \<Rightarrow> string" where
  "show_price p = show_f3 (ddiv (of_int (sint p)) 1000)"

definition format_line :: "platform \<Rightarrow> bar \<Rightarrow> string" where
  "format_line P b =
     [CHR 0x22] @ pad 4 (show_nat (year b)) @ ''-'' @ pad0 2 (show_nat (month b)) @ ''-'' @
     pad0 2 (show_nat (day b)) @ '' '' @ pad0 2 (show_nat (hour b)) @ '':'' @
     pad0 2 (show_nat (minute b)) @ '':'' @ pad0 2 (show_nat 0) @ [CHR 0x22] @ '','' @
     show_price (iPriceOpen b) @ '','' @ show_price (iPriceClose b) @ '','' @
     show_price (iPriceHight b) @ '','' @ show_price (iPriceLow b) @ '','' @
     show_int (sint (Volume b)) @ '','' @
     (case dbvol b of Fin v \<Rightarrow> show_f3 v | Infinite \<Rightarrow> format_infinite P) @ [CHR 0x0A]"

definition table_header :: string where
  "table_header = ''datetime,open,close,hight,low,volume,amount'' @ [CHR 0x0A]"

fun bars_loop :: "platform \<Rightarrow> nat \<Rightarrow> byte list \<Rightarrow> nat \<Rightarrow> nat \<Rightarrow> 32 word \<Rightarrow> string \<Rightarrow> string res" where
  "bars_loop P Category data 0 pos iPreClose csResult = Ret csResult"
| "bars_loop P Category data (Suc n) pos iPreClose csResult =
     rbnd (decode_bar Category data pos iPreClose) (\<lambda>(b, pos').
       bars_loop P Category data n pos' (iPriceClose b) (csResult @ format_line P b))"

section \<open>The exported function\<close>

definition unzip :: "platform \<Rightarrow> byte list \<Rightarrow> nat \<Rightarrow> nat \<Rightarrow> byte list \<times> msgbox list" where
  "unzip P ZipedData wZipedSize wUzipedSize =
     (if wZipedSize = wUzipedSize then (ZipedData, [])
      else let (out, dwUzipedLen) = uncompress P ZipedData wUzipedSize
           in (take wUzipedSize (out @ replicate (wUzipedSize - length out) 0),
               if wUzipedSize \<noteq> dwUzipedLen then [UnzipError] else []))"

definition fill_result :: "platform \<Rightarrow> nat \<Rightarrow> byte list \<Rightarrow> string \<Rightarrow> (int \<times> nat \<times> string) res" where
  "fill_result P Category UzipedData szResult =
     rbnd (le_at 2 UzipedData 0) (\<lambda>Count.
     rbnd (bars_loop P Category UzipedData Count 2 0 table_header) (\<lambda>csResult.
       if length szResult < length csResult then Abort Undefined
       else Ret (TDXHQ_ERROR_OK, Count, csResult @ drop (length csResult) szResult)))"

definition header_sizes :: "(16 word \<times> 16 word) bb" where
  "header_sizes =
     sq get_uint32 (sq get_uint32 (sq get_uint32
       (bnd get_uint16 (\<lambda>wZipedSize. bnd get_uint16 (\<lambda>wUzipedSize. ret (wZipedSize, wUzipedSize))))))"

definition read_reply ::
  "platform \<Rightarrow> int \<Rightarrow> nat \<Rightarrow> byte list \<Rightarrow> nat \<Rightarrow> string \<Rightarrow> (int \<times> nat \<times> string) tio" where
  "read_reply P k Category recvHead Count szResult =
     bnd (with_bb (sq (bb_append recvHead 0x10) header_sizes) CByteBuffer) (\<lambda>((wz, wu), _).
       let wZipedSize = unat wz; wUzipedSize = unat wu
       in bnd (recv_body k wZipedSize (replicate wZipedSize 0) CByteBuffer) (\<lambda>(iRecvedBody, bf).
            if iRecvedBody = 0 then ret (TDXHQ_ERROR_RECV, Count, szResult)
            else bnd (with_bb (sq (bb_set_rpos 0) (bb_read wZipedSize)) bf) (\<lambda>(ZipedData, _) s.
                   let (UzipedData, msgs) = unzip P ZipedData wZipedSize wUzipedSize
                   in (fill_result P Category UzipedData szResult, s\<lparr>boxes := boxes s @ msgs\<rparr>))))"

definition TDXHQ_GetSecurityBars ::
  "platform \<Rightarrow> int \<Rightarrow> nat \<Rightarrow> nat \<Rightarrow> string \<Rightarrow> nat \<Rightarrow> nat \<Rightarrow> string \<Rightarrow> (int \<times> nat \<times> string) tio" where
  "TDXHQ_GetSecurityBars P connectID Category Market Zqdm Start Count szResult =
     bnd (with_bb (bars_request Category Market Zqdm Count) CByteBuffer) (\<lambda>(_, bfSend) s.
       if connectID < 0 \<or> int (length (skHQ s)) \<le> connectID then (Abort Undefined, s)
       else if skHQ s ! nat connectID = INVALID_SOCKET then (Ret (TDXHQ_ERROR_CONT, Count, szResult), s)
       else
         (let k = skHQ s ! nat connectID; nSend = bb_size bfSend
          in bnd (with_bb (bb_read nSend) bfSend) (\<lambda>(datatosend, _).
             bnd (call_send k datatosend) (\<lambda>nSended.
               if nSended \<noteq> int nSend then ret (TDXHQ_ERROR_SEND, Count, szResult)
               else bnd (call_recv k 0x10) (\<lambda>(nRecved, recvHead).
                      if nRecved = 0x10 then read_reply P k Category recvHead Count szResult
                      else ret (TDXHQ_ERROR_RECV, Count, szResult)))) s))"

end
