(* ===== verification/BarsCorrect.thy ===== *)
theory BarsCorrect
  imports SecurityBars
begin

text \<open>
  Correctness of the candlestick request: the bytes it sends, the loop that receives the body
  under every segmentation, and the decoding of a body against its reference encoder.
\<close>

section \<open>What a sequence of appends builds\<close>

text \<open>An operation that appends a fixed run of bytes to any buffer with room for it.\<close>

definition appends :: "unit bb \<Rightarrow> byte list \<Rightarrow> bool" where
  "appends m r \<longleftrightarrow>
     (\<forall>b. bb_open b \<longrightarrow> bb_size b + length r < 10000000 \<longrightarrow>
        m b = (Ret (), b\<lparr>mStorage := mStorage b @ r, mWritePos := mWritePos b + length r\<rparr>))"

lemma appends_open:
  assumes "bb_open b" "bb_size b + length r < 10000000"
  shows "bb_open (b\<lparr>mStorage := mStorage b @ r, mWritePos := mWritePos b + length r\<rparr>)"
  using assms by (auto simp: bb_open_def bb_inv_def bb_size_def)

lemma appends_bb_append: "cnt \<le> length src \<Longrightarrow> appends (bb_append src cnt) (take cnt src)"
  unfolding appends_def by (auto simp: bb_append_open)

lemma appends_T: "appends (bb_append_T enc v) (enc v)"
  using appends_bb_append [of "length (enc v)" "enc v"] by (simp add: bb_append_T_def)

lemma appends_for_each: "list_all2 appends ms rs \<Longrightarrow> appends (for_each (\<lambda>m. m) ms) (concat rs)"
proof (induction rule: list_all2_induct)
  case (Cons m ms r rs)
  have "for_each (\<lambda>m. m) (m # ms) b =
      (Ret (), b\<lparr>mStorage := mStorage b @ r @ concat rs, mWritePos := mWritePos b + length (r @ concat rs)\<rparr>)"
    if b: "bb_open b" "bb_size b + length (r @ concat rs) < 10000000" for b
  proof -
    let ?b = "b\<lparr>mStorage := mStorage b @ r, mWritePos := mWritePos b + length r\<rparr>"
    have m: "m b = (Ret (), ?b)" using Cons(1) b by (auto simp: appends_def)
    have "bb_open ?b" using b by (intro appends_open) auto
    then have "for_each (\<lambda>m. m) ms ?b = (Ret (), ?b\<lparr>mStorage := mStorage ?b @ concat rs,
        mWritePos := mWritePos ?b + length (concat rs)\<rparr>)"
      using Cons(3) b unfolding appends_def by (simp add: bb_size_def)
    with m show ?thesis by simp
  qed
  then show ?case by (simp add: appends_def)
qed (simp add: appends_def)

lemma appends_chars: "appends (bb_append_chars s (strlen s)) (string_bytes (takeWhile (\<lambda>c. c \<noteq> CHR 0x00) s))"
proof -
  let ?t = "takeWhile (\<lambda>c. c \<noteq> CHR 0x00) s"
  have "take (strlen s) (string_bytes s) = string_bytes ?t"
    by (simp add: strlen_def string_bytes_def take_map takeWhile_eq_take [symmetric])
  moreover have "strlen s \<le> length (string_bytes s)"
    by (simp add: strlen_def length_takeWhile_le)
  ultimately show ?thesis
    using appends_bb_append [of "strlen s" "string_bytes s"] by (simp add: bb_append_chars_def)
qed

section \<open>The requests\<close>

abbreviation u16b :: "nat \<Rightarrow> byte list" where
  "u16b n \<equiv> word_bytes (word_of_nat n :: 16 word)"

abbreviation u32b :: "nat \<Rightarrow> byte list" where
  "u32b n \<equiv> word_bytes (word_of_nat n :: 32 word)"

text \<open>The bytes of the two requests for a code without zero characters.\<close>

definition bars_bytes :: "nat \<Rightarrow> nat \<Rightarrow> string \<Rightarrow> nat \<Rightarrow> byte list" where
  "bars_bytes Category Market Zqdm Count =
     [0x0c, 0x01, 0x08, 0x64, 0x01, 0x01, 0x12, 0x00, 0x12, 0x00, 0x29, 0x05] @ u16b Market @
     string_bytes Zqdm @ u16b Category @ [0x01, 0x00, 0x00, 0x00] @ u16b Count"

definition quotes_bytes :: "nat \<Rightarrow> string \<Rightarrow> byte list" where
  "quotes_bytes Market Zqdm =
     [0x0c, 0x01, 0x20, 0x63, 0x00, 0x02, 0x13, 0x00, 0x13, 0x00, 0x3e, 0x05, 0x00, 0x00, 0x00, 0x00,
      0x00, 0x00, 0x01, 0x00, word_of_nat Market] @ string_bytes Zqdm"

lemma takeWhile_no_zero: "CHR 0x00 \<notin> set s \<Longrightarrow> takeWhile (\<lambda>c. c \<noteq> CHR 0x00) s = s"
  by (auto simp: takeWhile_eq_all_conv)

lemma appends_u [intro]:
  "appends (append_u8 n) [word_of_nat n]" "appends (append_u16 n) (u16b n)" "appends (append_u32 n) (u32b n)"
proof -
  have "word_bytes (word_of_nat n :: 8 word) = [word_of_nat n]"
    by (simp add: word_bytes_def)
  then show "appends (append_u8 n) [word_of_nat n]"
    using appends_T [of word_bytes "word_of_nat n :: 8 word"] by (simp add: append_u8_def)
qed (simp_all add: append_u16_def append_u32_def appends_T)

lemma le_bytes_2: "le_bytes 2 v = [word_of_nat v, word_of_nat (v div 256)]"
  by (simp only: numeral_2_eq_2 le_bytes.simps)

lemma le_bytes_4:
  "le_bytes 4 v = [word_of_nat v, word_of_nat (v div 256), word_of_nat (v div 256 div 256),
     word_of_nat (v div 256 div 256 div 256)]"
proof -
  have "(4::nat) = Suc (Suc (Suc (Suc 0)))" by simp
  then show ?thesis by (simp only: le_bytes.simps)
qed

lemma bars_request_appends:
  assumes "CHR 0x00 \<notin> set Zqdm"
  shows "appends (bars_request Category Market Zqdm Count) (bars_bytes Category Market Zqdm Count)"
proof -
  have code: "appends (bb_append_chars Zqdm (strlen Zqdm)) (string_bytes Zqdm)"
    using appends_chars [of Zqdm] assms by (simp add: takeWhile_no_zero)
  have "appends (bars_request Category Market Zqdm Count)
     (concat [u16b 0x10c, u32b 0x01016408, u16b 0x12, u16b 0x12, u16b 0x529, u16b Market,
              string_bytes Zqdm, u16b Category, u32b 1, u16b Count])"
    unfolding bars_request_def
    by (intro appends_for_each list_all2_Cons [THEN iffD2] conjI appends_u code list.rel_intros)
  also have "concat [u16b 0x10c, u32b 0x01016408, u16b 0x12, u16b 0x12, u16b 0x529, u16b Market,
      string_bytes Zqdm, u16b Category, u32b 1, u16b Count] = bars_bytes Category Market Zqdm Count"
    by (simp add: bars_bytes_def word_bytes_def le_bytes_2 le_bytes_4)
  finally show ?thesis .
qed

lemma quotes_request_appends:
  assumes "CHR 0x00 \<notin> set Zqdm"
  shows "appends (quotes_request Market Zqdm) (quotes_bytes Market Zqdm)"
proof -
  have code: "appends (bb_append_chars Zqdm (strlen Zqdm)) (string_bytes Zqdm)"
    using appends_chars [of Zqdm] assms by (simp add: takeWhile_no_zero)
  have "appends (quotes_request Market Zqdm)
     (concat [u16b 0x10c, u32b 0x02006320, u16b 0x13, u16b 0x13, u16b 0x5053e, u32b 0, u16b 0, u16b 1,
              [word_of_nat Market], string_bytes Zqdm])"
    unfolding quotes_request_def
    by (intro appends_for_each list_all2_Cons [THEN iffD2] conjI appends_u code list.rel_intros)
  also have "concat [u16b 0x10c, u32b 0x02006320, u16b 0x13, u16b 0x13, u16b 0x5053e, u32b 0, u16b 0,
      u16b 1, [word_of_nat Market], string_bytes Zqdm] = quotes_bytes Market Zqdm"
    by (simp add: quotes_bytes_def word_bytes_def le_bytes_2 le_bytes_4)
  finally show ?thesis .
qed

section \<open>Receiving the body\<close>

text \<open>The next non-empty chunk of a script, taken whole when it is no longer than what is asked.\<close>

lemma recv_events_chunks:
  assumes "concat cs \<noteq> []" "length (concat cs) \<le> n"
  shows "\<exists>c cs'. recv_events n False (map Chunk cs @ es) = (Got c, map Chunk ([] # cs') @ es) \<and>
    c \<noteq> [] \<and> concat cs = c @ concat cs'"
  using assms
proof (induction cs)
  case (Cons c cs)
  show ?case
  proof (cases c)
    case (Cons b bs)
    with \<open>length (concat (c # cs)) \<le> n\<close> show ?thesis by (intro exI [of _ c] exI [of _ cs]) auto
  qed (use Cons in auto)
qed simp

lemma call_recv_chunks:
  assumes "incoming (wire s k) = map Chunk cs @ es" "concat cs \<noteq> []" "length (concat cs) \<le> n"
  shows "\<exists>c cs' w. call_recv k n s = (Ret (int (length c), c), s\<lparr>wire := w\<rparr>) \<and> c \<noteq> [] \<and>
    concat cs = c @ concat cs' \<and> incoming (w k) = map Chunk cs' @ es \<and> same_but_incoming k (wire s) w"
proof -
  from recv_events_chunks [OF assms(2,3), of es] obtain c cs' where
    "recv_events n False (map Chunk cs @ es) = (Got c, map Chunk ([] # cs') @ es)" "c \<noteq> []"
    "concat cs = c @ concat cs'" by blast
  then show ?thesis
    by (intro exI [of _ c] exI [of _ "[] # cs'"]
        exI [of _ "(wire s)(k := (wire s k)\<lparr>incoming := map Chunk ([] # cs') @ es\<rparr>)"])
      (simp add: call_recv_def sock_recv_def assms(1))
qed

text \<open>
  When the chunks the socket delivers make up the body and nothing more, in any segmentation, the
  loop ends with the whole body in the buffer.
\<close>

lemma recv_body_chunks:
  assumes "incoming (wire s k) = map Chunk cs @ es" "concat cs \<noteq> []"
    "bb_open bf" "bb_size bf + length (concat cs) = n" "n < 2 ^ 16"
  shows "\<exists>i bf' w cs'. recv_body k n data bf s = (Ret (i, bf'), s\<lparr>wire := w\<rparr>) \<and> i \<noteq> 0 \<and>
    mStorage bf' = mStorage bf @ concat cs \<and> mReadPos bf' = mReadPos bf \<and> bb_open bf' \<and>
    incoming (w k) = map Chunk cs' @ es \<and> concat cs' = [] \<and> same_but_incoming k (wire s) w"
  using assms
proof (induction "length (concat cs)" arbitrary: cs s bf data rule: less_induct)
  case less
  have le: "length (concat cs) \<le> n" using less.prems by simp
  from call_recv_chunks [OF less.prems(1,2) le] obtain c cs' w where
    c: "call_recv k n s = (Ret (int (length c), c), s\<lparr>wire := w\<rparr>)" "c \<noteq> []" "concat cs = c @ concat cs'"
      "incoming (w k) = map Chunk cs' @ es" "same_but_incoming k (wire s) w" by blast
  let ?d = "c @ drop (length c) data"
  let ?b = "bf\<lparr>mStorage := mStorage bf @ c, mWritePos := mWritePos bf + length c\<rparr>"
  have lc: "length c \<le> n" using c(3) le by simp
  then have u: "to_u32 (int (length c)) = length c" using less.prems(5) by (simp add: to_u32_nonneg)
  have ap: "bb_append ?d (length c) bf = (Ret (), ?b)"
    using bb_append_open [OF less.prems(3), of "length c" ?d] lc less.prems(5) by simp
  have op: "bb_open ?b"
    using appends_open [OF less.prems(3), of c] less.prems(4,5) c(3) by simp
  have size: "bb_size ?b + length (concat cs') = n" using less.prems(4) c(3) by (simp add: bb_size_def)
  show ?case
  proof (cases "concat cs' = []")
    case True
    then have full: "bb_size ?b = n" using size by (simp only: list.size(3) add_0_right)
    have "recv_body k n data bf s = (Ret (int (length c), ?b), s\<lparr>wire := w\<rparr>)"
      using full by (subst recv_body.simps) (simp add: c(1) u ap Let_def)
    with True c op show ?thesis by (intro exI conjI) auto
  next
    case False
    then have "0 < length (concat cs')" by (simp only: length_greater_0_conv not_False_eq_True)
    then have ne: "bb_size ?b \<noteq> n" using size by linarith
    have rec: "recv_body k n data bf s = recv_body k n ?d ?b (s\<lparr>wire := w\<rparr>)"
      using ne c(2) by (subst recv_body.simps) (simp add: c(1) u ap Let_def)
    have "length (concat cs') < length (concat cs)" using c(2,3) by simp
    from less.hyps [OF this, of "s\<lparr>wire := w\<rparr>" ?b ?d] c(4) False op size less.prems(5)
    obtain i bf' w' cs'' where "recv_body k n ?d ?b (s\<lparr>wire := w\<rparr>) = (Ret (i, bf'), s\<lparr>wire := w'\<rparr>)"
      "i \<noteq> 0" "mStorage bf' = mStorage bf @ c @ concat cs'" "mReadPos bf' = mReadPos bf" "bb_open bf'"
      "incoming (w' k) = map Chunk cs'' @ es" "concat cs'' = []" "same_but_incoming k w w'" by auto
    with rec c show ?thesis
      by (intro exI [of _ i] exI [of _ bf'] exI [of _ w'] exI [of _ cs''])
        (auto intro: same_but_incoming_trans)
  qed
qed

text \<open>A connection closed before the body is complete ends the loop with 0.\<close>

lemma recv_body_closed:
  assumes "incoming (wire s k) = Closed # es"
  shows "\<exists>s'. recv_body k n data bf s = (Ret (0, bf), s')"
  using assms
  by (subst recv_body.simps) (simp add: call_recv_def sock_recv_def Let_def bb_append_def to_u32_def)

text \<open>A failed \<^verbatim>\<open>recv\<close> never ends the loop with a result: -1 is taken for a count of bytes.\<close>

lemma recv_body_failed:
  assumes "incoming (wire s k) = Failed e # es" "bb_open bf" "length data = n" "n < 2 ^ 16"
  shows "fst (recv_body k n data bf s) = (if bb_size bf = 0 then Throw bad_alloc else Abort Undefined)"
proof -
  have w: "mWritePos bf = bb_size bf" "bb_size bf < 10000000" using assms(2) by (auto simp: bb_open_def)
  have "u32_add (bb_size bf) (2 ^ 32 - 1) = (if bb_size bf = 0 then 2 ^ 32 - 1 else bb_size bf - 1)"
  proof (cases "bb_size bf")
    case (Suc m)
    then have "bb_size bf + (2 ^ 32 - 1) = m + 2 ^ 32" by simp
    with Suc w show ?thesis unfolding u32_add_def by (simp only:) simp
  qed (simp add: u32_add_def)
  then show ?thesis
    using assms(1,3,4) w by (subst recv_body.simps; cases "bb_size bf = 0")
      (simp_all add: call_recv_def sock_recv_def Let_def bb_append_def to_u32_minus1 vec_resize_def)
qed

section \<open>Decoding against the reference encoder\<close>

text \<open>A candlestick as the server has it, and its encoding after a bar that closed at \<open>prev\<close>.\<close>

record candle =
  c_year :: nat
  c_month :: nat
  c_day :: nat
  c_hour :: nat
  c_minute :: nat
  c_open :: int
  c_close :: int
  c_high :: int
  c_low :: int
  c_volume :: int
  c_turnover :: "32 word"

definition encode_date :: "nat \<Rightarrow> candle \<Rightarrow> byte list" where
  "encode_date Category c =
     (if intraday Category
      then le_bytes 2 ((c_year c - 2004) * 2048 + (c_month c * 100 + c_day c)) @
           le_bytes 2 (c_hour c * 60 + c_minute c)
      else le_bytes 4 (c_year c * 10000 + (c_month c * 100 + c_day c)))"

definition encode_candle :: "nat \<Rightarrow> int \<Rightarrow> candle \<Rightarrow> byte list" where
  "encode_candle Category prev c =
     encode_date Category c @ encodePrice (c_open c - prev) @ encodePrice (c_close c - c_open c) @
     encodePrice (c_high c - c_open c) @ encodePrice (c_low c - c_open c) @ encodePrice (c_volume c) @
     le_bytes 4 (unat (c_turnover c))"

fun encode_candles :: "nat \<Rightarrow> int \<Rightarrow> candle list \<Rightarrow> byte list" where
  "encode_candles Category prev [] = []"
| "encode_candles Category prev (c # cs) =
     encode_candle Category prev c @ encode_candles Category (c_close c) cs"

definition encode_bars :: "nat \<Rightarrow> candle list \<Rightarrow> byte list" where
  "encode_bars Category cs = le_bytes 2 (length cs) @ encode_candles Category 0 cs"

definition candle_ok :: "nat \<Rightarrow> candle \<Rightarrow> bool" where
  "candle_ok Category c \<longleftrightarrow>
     c_month c \<le> 12 \<and> c_day c \<le> 31 \<and>
     (if intraday Category then 2004 \<le> c_year c \<and> c_year c < 2036 \<and> c_hour c < 24 \<and> c_minute c < 60
      else c_year c \<le> 9999 \<and> c_hour c = 15 \<and> c_minute c = 0) \<and>
     list_all (\<lambda>p. 0 \<le> p \<and> p < 2 ^ 31) [c_open c, c_close c, c_high c, c_low c, c_volume c]"

text \<open>The bar the client shows for it.\<close>

definition bar_of :: "candle \<Rightarrow> bar" where
  "bar_of c =
     \<lparr>year = c_year c, month = c_month c, day = c_day c, hour = c_hour c, minute = c_minute c,
      iPriceOpen = word_of_int (c_open c), iPriceClose = word_of_int (c_close c),
      iPriceHight = word_of_int (c_high c), iPriceLow = word_of_int (c_low c),
      Volume = word_of_int (if c_volume c = 0 then 1 else c_volume c),
      dbvol = amount_of (c_turnover c) (word_of_int (c_close c))\<rparr>"

lemma le_at_bytes:
  assumes "data = pre @ le_bytes n v @ post" "v < 256 ^ n" "pos = length pre"
  shows "le_at n data pos = Ret v"
  using assms by (simp add: le_at_def le_val_bytes)

lemma divmod_digits:
  fixes q r k :: nat
  assumes "r < k" shows "(q * k + r) div k = q" "(q * k + r) mod k = r"
  using assms by auto

lemma length_encode_date [simp]: "length (encode_date Category c) = 4"
  by (simp add: encode_date_def)

lemma decode_date_encode:
  assumes "data = pre @ encode_date Category c @ post" "candle_ok Category c"
  shows "decode_date Category data (length pre) =
    Ret (c_year c, c_month c, c_day c, c_hour c, c_minute c)"
proof -
  let ?md = "c_month c * 100 + c_day c"
  have md: "c_day c < 100" "?md < 2048" using assms(2) by (auto simp: candle_ok_def)
  show ?thesis
  proof (cases "intraday Category")
    case True
    let ?z = "(c_year c - 2004) * 2048 + ?md" and ?t = "c_hour c * 60 + c_minute c"
    have ok: "2004 \<le> c_year c" "c_year c < 2036" "c_hour c < 24" "c_minute c < 60"
      using assms(2) True by (auto simp: candle_ok_def)
    have b: "?z < 256 ^ 2" "?t < 256 ^ 2" using ok md by simp_all
    have "le_at 2 data (length pre) = Ret ?z"
      by (rule le_at_bytes [where pre = pre, OF _ b(1)]) (use assms(1) True in \<open>auto simp: encode_date_def\<close>)
    moreover have "le_at 2 data (length pre + 2) = Ret ?t"
      by (rule le_at_bytes [where pre = "pre @ le_bytes 2 ?z", OF _ b(2)])
        (use assms(1) True in \<open>auto simp: encode_date_def\<close>)
    moreover have "?z div 2048 = c_year c - 2004" "?z mod 2048 = ?md" by (rule divmod_digits [OF md(2)])+
    moreover have "?md div 100 = c_month c" "?md mod 100 = c_day c" by (rule divmod_digits [OF md(1)])+
    moreover have "?t div 60 = c_hour c" "?t mod 60 = c_minute c" by (rule divmod_digits [OF ok(4)])+
    ultimately show ?thesis using True ok(1) by (simp add: decode_date_def)
  next
    case False
    let ?z = "c_year c * 10000 + ?md"
    have ok: "c_year c \<le> 9999" "c_hour c = 15" "c_minute c = 0"
      using assms(2) False by (auto simp: candle_ok_def)
    have md': "?md < 10000" using md by simp
    have "le_at 4 data (length pre) = Ret ?z"
      by (rule le_at_bytes [where pre = pre and post = post])
        (use assms(1) False ok md in \<open>auto simp: encode_date_def\<close>)
    moreover have "?z div 10000 = c_year c" "?z mod 10000 = ?md" by (rule divmod_digits [OF md'])+
    moreover have "?md div 100 = c_month c" by (rule divmod_digits [OF md(1)])
    moreover have "?z mod 100 = c_day c"
    proof -
      have "?z = (c_year c * 100 + c_month c) * 100 + c_day c" by simp
      then show ?thesis using divmod_digits(2) [OF md(1)] by metis
    qed
    ultimately show ?thesis using False ok by (simp add: decode_date_def)
  qed
qed

lemma getPrice_at:
  assumes "data = pre @ encodePrice v @ post" "\<bar>v\<bar> < 2 ^ 32" "pos = length pre"
  shows "getPrice data pos = Ret (word_of_int v, pos + length (encodePrice v))"
  using getPrice_encodePrice [OF assms(1,2)] assms(3) by simp

lemma decode_bar_encode:
  assumes data: "data = pre @ encode_candle Category prev c @ post"
    and ok: "candle_ok Category c" and prev: "0 \<le> prev" "prev < 2 ^ 31"
  shows "decode_bar Category data (length pre) (word_of_int prev) =
    Ret (bar_of c, length pre + length (encode_candle Category prev c))"
proof -
  define d where "d = encode_date Category c"
  define o' cl h l v where "o' = encodePrice (c_open c - prev)" and "cl = encodePrice (c_close c - c_open c)"
    and "h = encodePrice (c_high c - c_open c)" and "l = encodePrice (c_low c - c_open c)"
    and "v = encodePrice (c_volume c)"
  note enc = d_def o'_def cl_def h_def l_def v_def
  let ?t = "le_bytes 4 (unat (c_turnover c))"
  have D: "data = pre @ d @ o' @ cl @ h @ l @ v @ ?t @ post"
    using data by (simp add: encode_candle_def enc)
  have b: "0 \<le> c_open c" "c_open c < 2 ^ 31" "0 \<le> c_close c" "c_close c < 2 ^ 31" "0 \<le> c_high c"
    "c_high c < 2 ^ 31" "0 \<le> c_low c" "c_low c < 2 ^ 31" "0 \<le> c_volume c" "c_volume c < 2 ^ 31"
    using ok by (auto simp: candle_ok_def)
  have "decode_date Category data (length pre) = Ret (c_year c, c_month c, c_day c, c_hour c, c_minute c)"
    by (rule decode_date_encode [OF _ ok]) (use D in \<open>simp add: d_def\<close>)
  moreover have "getPrice data (length pre + 4) = Ret (word_of_int (c_open c - prev), length pre + 4 + length o')"
    unfolding o'_def by (rule getPrice_at [where pre = "pre @ d"]) (use D b prev in \<open>auto simp: enc\<close>)
  moreover have "getPrice data (length pre + 4 + length o') =
      Ret (word_of_int (c_close c - c_open c), length pre + 4 + length o' + length cl)"
    unfolding cl_def by (rule getPrice_at [where pre = "pre @ d @ o'"]) (use D b in \<open>auto simp: enc\<close>)
  moreover have "getPrice data (length pre + 4 + length o' + length cl) =
      Ret (word_of_int (c_high c - c_open c), length pre + 4 + length o' + length cl + length h)"
    unfolding h_def by (rule getPrice_at [where pre = "pre @ d @ o' @ cl"]) (use D b in \<open>auto simp: enc\<close>)
  moreover have "getPrice data (length pre + 4 + length o' + length cl + length h) =
      Ret (word_of_int (c_low c - c_open c), length pre + 4 + length o' + length cl + length h + length l)"
    unfolding l_def by (rule getPrice_at [where pre = "pre @ d @ o' @ cl @ h"]) (use D b in \<open>auto simp: enc\<close>)
  moreover have "getPrice data (length pre + 4 + length o' + length cl + length h + length l) =
      Ret (word_of_int (c_volume c), length pre + 4 + length o' + length cl + length h + length l + length v)"
    unfolding v_def by (rule getPrice_at [where pre = "pre @ d @ o' @ cl @ h @ l"]) (use D b in \<open>auto simp: enc\<close>)
  moreover have "le_at 4 data (length pre + 4 + length o' + length cl + length h + length l + length v) =
      Ret (unat (c_turnover c))"
  proof (rule le_at_bytes [where pre = "pre @ d @ o' @ cl @ h @ l @ v"])
    show "unat (c_turnover c) < 256 ^ 4" using unsigned_less [of "c_turnover c", where 'a = nat] by simp
  qed (use D in \<open>auto simp: enc\<close>)
  moreover have "length d = 4" by (simp add: d_def)
  moreover have "(word_of_int (c_volume c) = (0 :: 32 word)) = (c_volume c = 0)"
    using b by (simp add: word_of_int_eq_0_iff take_bit_int_eq_self_iff dvd_eq_mod_eq_0)
  ultimately show ?thesis
    by (simp add: decode_bar_def bar_of_def Let_def encode_candle_def add.assoc flip: enc)
qed

lemma bars_loop_encode:
  assumes "data = pre @ encode_candles Category prev cs @ post"
    "list_all (candle_ok Category) cs" "0 \<le> prev" "prev < 2 ^ 31"
  shows "bars_loop P Category data (length cs) (length pre) (word_of_int prev) acc =
    Ret (acc @ concat (map (\<lambda>c. format_line P (bar_of c)) cs))"
  using assms
proof (induction cs arbitrary: pre prev acc)
  case (Cons c cs)
  have "decode_bar Category data (length pre) (word_of_int prev) =
      Ret (bar_of c, length pre + length (encode_candle Category prev c))"
    by (rule decode_bar_encode) (use Cons.prems in auto)
  moreover have "bars_loop P Category data (length cs) (length (pre @ encode_candle Category prev c))
      (word_of_int (c_close c)) (acc @ format_line P (bar_of c)) =
    Ret ((acc @ format_line P (bar_of c)) @ concat (map (\<lambda>c. format_line P (bar_of c)) cs))"
    by (rule Cons.IH) (use Cons.prems in \<open>auto simp: candle_ok_def\<close>)
  moreover have "iPriceClose (bar_of c) = word_of_int (c_close c)" by (simp add: bar_of_def)
  ultimately show ?case by simp
qed simp

definition table :: "platform \<Rightarrow> candle list \<Rightarrow> string" where
  "table P cs = table_header @ concat (map (\<lambda>c. format_line P (bar_of c)) cs)"

lemma fill_result_encode:
  assumes "list_all (candle_ok Category) cs" "length cs < 2 ^ 16" "length (table P cs) \<le> length szResult"
  shows "fill_result P Category (encode_bars Category cs) szResult =
    Ret (TDXHQ_ERROR_OK, length cs, table P cs @ drop (length (table P cs)) szResult)"
proof -
  have "le_at 2 (encode_bars Category cs) 0 = Ret (length cs)"
    by (rule le_at_bytes [where pre = "[]"]) (use assms(2) in \<open>auto simp: encode_bars_def\<close>)
  moreover have "bars_loop P Category (encode_bars Category cs) (length cs) 2 0 table_header = Ret (table P cs)"
    using bars_loop_encode [of "encode_bars Category cs" "le_bytes 2 (length cs)" Category 0 cs "[]" P table_header]
      assms(1) by (simp add: encode_bars_def table_def)
  ultimately show ?thesis using assms(3) by (simp add: fill_result_def)
qed

section \<open>The whole exchange\<close>

text \<open>A reply header: twelve bytes the client skips and the two sizes.\<close>

definition reply_head :: "32 word \<Rightarrow> 32 word \<Rightarrow> 32 word \<Rightarrow> nat \<Rightarrow> nat \<Rightarrow> byte list" where
  "reply_head a b c wZipedSize wUzipedSize =
     word_bytes a @ word_bytes b @ word_bytes c @ u16b wZipedSize @ u16b wUzipedSize"

lemma length_reply_head [simp]: "length (reply_head a b c z u) = 16"
  by (simp add: reply_head_def)

lemma header_sizes_head:
  assumes "z < 2 ^ 16" "u < 2 ^ 16"
  shows "\<exists>bf. sq (bb_append (reply_head a b c z u) 0x10) header_sizes CByteBuffer =
    (Ret (word_of_nat z, word_of_nat u), bf)"
proof -
  let ?st = "reply_head a b c z u"
  define B where "B = (\<lambda>p. \<lparr>mReadPos = p, mWritePos = 16, mStorage = ?st, dumps = []\<rparr>)"
  have inv: "bb_inv (B p)" if "p \<le> 16" for p using that by (simp add: B_def bb_inv_def bb_size_def)
  note open0 = bb_open_init
  have "bb_append ?st 0x10 CByteBuffer = (Ret (), B 0)"
    using bb_append_open [OF open0, of 16 ?st] by (simp add: CByteBuffer_def B_def)
  moreover have "get_uint32 (B 0) = (Ret a, B 4)"
    using st_u32.get_law [OF inv [of 0], where v = a and pre = "[]" and post = "word_bytes b @ word_bytes c @ u16b z @ u16b u"]
    by (simp add: B_def reply_head_def)
  moreover have "get_uint32 (B 4) = (Ret b, B 8)"
    using st_u32.get_law [OF inv [of 4], where v = b and pre = "word_bytes a" and post = "word_bytes c @ u16b z @ u16b u"]
    by (simp add: B_def reply_head_def)
  moreover have "get_uint32 (B 8) = (Ret c, B 12)"
    using st_u32.get_law [OF inv [of 8], where v = c and pre = "word_bytes a @ word_bytes b" and post = "u16b z @ u16b u"]
    by (simp add: B_def reply_head_def)
  moreover have "get_uint16 (B 12) = (Ret (word_of_nat z), B 14)"
    using st_u16.get_law [OF inv [of 12], where v = "word_of_nat z" and pre = "word_bytes a @ word_bytes b @ word_bytes c" and post = "u16b u"]
    by (simp add: B_def reply_head_def)
  moreover have "get_uint16 (B 14) = (Ret (word_of_nat u), B 16)"
    using st_u16.get_law [OF inv [of 14], where v = "word_of_nat u" and pre = "word_bytes a @ word_bytes b @ word_bytes c @ u16b z" and post = "[]"]
    by (simp add: B_def reply_head_def)
  ultimately show ?thesis by (simp add: header_sizes_def)
qed

text \<open>The body as zlib gives it back: sent as it is, or compressed.\<close>

definition carries :: "platform \<Rightarrow> byte list \<Rightarrow> byte list \<Rightarrow> bool" where
  "carries P zipped body \<longleftrightarrow>
     (if length zipped = length body then zipped = body else uncompress P zipped (length body) = (body, length body))"

lemma unzip_carries: "carries P zipped body \<Longrightarrow> unzip P zipped (length zipped) (length body) = (body, [])"
  by (auto simp: carries_def unzip_def Let_def split: if_splits)

lemma read_reply_correct:
  assumes script: "incoming (wire s k) = map Chunk cs @ es" "concat cs = zipped"
    and body: "carries P zipped (encode_bars Category bars)"
    and sizes: "zipped \<noteq> []" "length zipped < 2 ^ 16" "length (encode_bars Category bars) < 2 ^ 16"
    and ok: "list_all (candle_ok Category) bars" "length bars < 2 ^ 16"
      "length (table P bars) \<le> length szResult"
  shows "\<exists>w. read_reply P k Category (reply_head a b c (length zipped) (length (encode_bars Category bars)))
      Count szResult s =
    (Ret (TDXHQ_ERROR_OK, length bars, table P bars @ drop (length (table P bars)) szResult), s\<lparr>wire := w\<rparr>) \<and>
    same_but_incoming k (wire s) w"
proof -
  let ?z = "length zipped" and ?u = "length (encode_bars Category bars)"
  note open0 = bb_open_init
  have un: "unat (word_of_nat ?z :: 16 word) = ?z" "unat (word_of_nat ?u :: 16 word) = ?u"
    using sizes by (simp_all add: unat_of_nat)
  from header_sizes_head [OF sizes(2,3)] obtain bf where
    "sq (bb_append (reply_head a b c ?z ?u) 0x10) header_sizes CByteBuffer = (Ret (word_of_nat ?z, word_of_nat ?u), bf)"
    by blast
  then have h: "with_bb (sq (bb_append (reply_head a b c ?z ?u) 0x10) header_sizes) CByteBuffer s =
      (Ret ((word_of_nat ?z, word_of_nat ?u), bf), s)" by (simp add: with_bb_def)
  have "bb_size CByteBuffer + length (concat cs) = ?z" using script(2) by (simp add: CByteBuffer_def bb_size_def)
  from recv_body_chunks [OF script(1) _ open0 this sizes(2), of "replicate ?z 0"] sizes(1) script(2)
  obtain i bf' w where r: "recv_body k ?z (replicate ?z 0) CByteBuffer s = (Ret (i, bf'), s\<lparr>wire := w\<rparr>)"
    "i \<noteq> 0" "mStorage bf' = zipped" "bb_open bf'" "same_but_incoming k (wire s) w"
    by (auto simp: CByteBuffer_def simp del: concat_eq_Nil_conv)
  have "with_bb (sq (bb_set_rpos 0) (bb_read ?z)) bf' t =
      (Ret (zipped, bf'\<lparr>mReadPos := ?z\<rparr>), t)" for t
    using r(3) sizes(1,2) by (simp add: with_bb_def bb_set_rpos_def bb_read_def bb_size_def u32_add_def)
  then have "read_reply P k Category (reply_head a b c ?z ?u) Count szResult s =
    (fill_result P Category (encode_bars Category bars) szResult, s\<lparr>wire := w\<rparr>)"
    using h r(1,2) unzip_carries [OF body] by (simp add: read_reply_def un Let_def)
  with fill_result_encode [OF ok] r(5) show ?thesis by auto
qed

lemma bars_request_run:
  assumes "CHR 0x00 \<notin> set Zqdm" "length Zqdm < 1000"
  shows "bars_request Category Market Zqdm Count CByteBuffer =
    (Ret (), \<lparr>mReadPos = 0, mWritePos = length (bars_bytes Category Market Zqdm Count),
              mStorage = bars_bytes Category Market Zqdm Count, dumps = []\<rparr>)"
proof -
  note bb_open_init
  moreover have "length (bars_bytes Category Market Zqdm Count) < 2000" using assms(2) by (simp add: bars_bytes_def)
  ultimately show ?thesis
    using bars_request_appends [OF assms(1), of Category Market Count]
    by (simp add: appends_def CByteBuffer_def bb_size_def)
qed

section \<open>Every script\<close>

text \<open>
  Whatever the socket does, a body that was received is the next part of the stream, exactly as
  long as the header says.
\<close>

lemma bb_append_Ret:
  assumes "bb_append src cnt b = (Ret u, b')" "mWritePos b = bb_size b" "cnt \<le> length src" "cnt < 2 ^ 30"
  shows "b' = b\<lparr>mStorage := mStorage b @ take cnt src, mWritePos := mWritePos b + cnt\<rparr>"
proof (cases "cnt = 0")
  case True
  then show ?thesis using assms(1) by (simp add: bb_append_def)
next
  case False
  have sz: "length (mStorage b) < 10000000"
    using assms(1) False by (auto simp: bb_append_def bb_size_def split: if_splits)
  then have "u32_add (mWritePos b) cnt = length (mStorage b) + cnt"
    using assms(2,4) by (simp add: u32_add_eq bb_size_def)
  with assms sz False show ?thesis by (simp add: bb_append_def bb_size_def vec_resize_def)
qed

lemma call_recv_cases:
  assumes "call_recv k n s = (Ret (i, bs), s1)"
  obtains (Got) "i = int (length bs)" "bs = take (length bs) (pending (wire s) k)" "length bs \<le> n"
      "pending (wire s1) k = drop (length bs) (pending (wire s) k)" "0 < n \<longrightarrow> bs \<noteq> []"
    | (Closed) "i = 0" "bs = []" | (Failed) "i = - 1" "bs = []"
proof (cases "sock_recv k n False (wire s)")
  case (Pair r w)
  with assms show ?thesis
    using Got Closed Failed sock_recv_Got [of k n False "wire s" bs w]
    by (cases r) (auto simp: call_recv_def)
qed

lemma recv_body_exact:
  assumes "recv_body k n data bf s = (Ret (i, bf'), s')" "i \<noteq> 0" "mWritePos bf = bb_size bf"
    "length data = n" "n < 2 ^ 16"
  shows "\<exists>got. mStorage bf' = mStorage bf @ got \<and> bb_size bf' = n \<and>
    got = take (length got) (pending (wire s) k) \<and> pending (wire s') k = drop (length got) (pending (wire s) k)"
  using assms
proof (induction k n data bf s rule: recv_body.induct)
  case (1 k n data bf s)
  obtain j bs s1 where c: "call_recv k n s = (Ret (j, bs), s1)"
    using "1.prems"(1) by (subst (asm) recv_body.simps) (auto split: prod.splits res.splits)
  let ?d = "bs @ drop (length bs) data"
  obtain bf1 where a: "bb_append ?d (to_u32 j) bf = (Ret (), bf1)"
    and step: "(if j \<noteq> 0 \<and> bb_size bf1 \<noteq> n then recv_body k n ?d bf1 s1 else (Ret (j, bf1), s1)) =
      (Ret (i, bf'), s')"
    using "1.prems"(1) c by (subst (asm) recv_body.simps) (auto simp: Let_def split: prod.splits res.splits)
  from c show ?case
  proof (cases rule: call_recv_cases)
    case Got
    have "to_u32 j = length bs" using Got "1.prems"(5) by (simp add: to_u32_nonneg)
    with bb_append_Ret [OF a "1.prems"(3)] Got "1.prems"(5)
    have bf1: "bf1 = bf\<lparr>mStorage := mStorage bf @ bs, mWritePos := mWritePos bf + length bs\<rparr>" by simp
    show ?thesis
    proof (cases "j \<noteq> 0 \<and> bb_size bf1 \<noteq> n")
      case True
      have w: "mWritePos bf1 = bb_size bf1" "length ?d = n"
        using "1.prems"(3,4) Got bf1 by (auto simp: bb_size_def)
      from "1.IH" [OF c [symmetric] refl refl refl a [symmetric] refl True] step True w "1.prems"(2,5) obtain got where
        g: "mStorage bf' = mStorage bf1 @ got" "bb_size bf' = n" "got = take (length got) (pending (wire s1) k)"
          "pending (wire s') k = drop (length got) (pending (wire s1) k)" by auto
      have "take (length bs + length got) (pending (wire s) k) = bs @ got"
        using Got(2,4) g(3) by (metis take_add)
      then show ?thesis using g Got(4) bf1
        by (intro exI [of _ "bs @ got"]) (simp add: add.commute)
    next
      case False
      with step Got bf1 "1.prems"(2) show ?thesis by (intro exI [of _ bs]) auto
    qed
  next
    case Closed
    with step "1.prems"(2) show ?thesis by simp
  next
    case Failed
    then show ?thesis using a "1.prems"(4,5) by (auto simp: bb_append_def to_u32_minus1 split: if_splits res.splits)
  qed
qed

section \<open>Properties\<close>

text \<open>A concrete exchange, for the instances below.\<close>

definition demo_platform :: platform where
  "demo_platform =
     \<lparr>AfxExtractSubString = (\<lambda>line n c. line), inet_addr = (\<lambda>ip. 0), uncompress = (\<lambda>z n. ([], 0)),
      format_infinite = ''1.#IO''\<rparr>"

definition demo_tdx :: "byte recv_event list \<Rightarrow> tdx" where
  "demo_tdx es =
     \<lparr>nIP = 2, nCurentIP = 1, nConnectID = 0, skHQ = [7, INVALID_SOCKET], pmtx = True, dwAutoConnect = 0,
      IPS = replicate 100 null_addr, wire = (\<lambda>_. \<lparr>incoming = es, sending = [], outgoing = []\<rparr>),
      new_sockets = [], connect_ok = [], attempts = [], closed_sockets = [], boxes = []\<rparr>"

definition demo_candle :: candle where
  "demo_candle =
     \<lparr>c_year = 2016, c_month = 3, c_day = 18, c_hour = 15, c_minute = 0, c_open = 10270, c_close = 10210,
      c_high = 10280, c_low = 10190, c_volume = 259294, c_turnover = 0x4d7cc397\<rparr>"

definition demo_result :: string where
  "demo_result = replicate (length (table demo_platform [demo_candle]) + 10) (CHR 0x00)"

definition demo_body :: "byte list" where
  "demo_body = encode_bars 9 [demo_candle]"

definition demo_chunks :: "byte list list" where
  "demo_chunks = [take 3 demo_body, [], drop 3 demo_body]"

definition demo_script :: "byte recv_event list" where
  "demo_script =
     Chunk (reply_head 0 0 0 (length demo_body) (length demo_body)) # map Chunk demo_chunks @ [Closed]"

lemma GetSecurityBars_run:
  assumes slot: "0 \<le> connectID" "connectID < int (length (skHQ s))" "skHQ s ! nat connectID = k"
      "k \<noteq> INVALID_SOCKET"
    and code: "CHR 0x00 \<notin> set Zqdm" "length Zqdm < 1000"
    and script: "sending (wire s k) = []"
      "incoming (wire s k) =
         Chunk (reply_head a b c (length zipped) (length (encode_bars Category bars))) # map Chunk cs @ es"
      "concat cs = zipped"
    and body: "carries P zipped (encode_bars Category bars)" "zipped \<noteq> []" "length zipped < 2 ^ 16"
      "length (encode_bars Category bars) < 2 ^ 16"
    and bars: "list_all (candle_ok Category) bars" "length bars < 2 ^ 16"
      "length (table P bars) \<le> length szResult"
  shows "\<exists>w. TDXHQ_GetSecurityBars P connectID Category Market Zqdm Start Count szResult s =
      (Ret (TDXHQ_ERROR_OK, length bars, table P bars @ drop (length (table P bars)) szResult), s\<lparr>wire := w\<rparr>) \<and>
    outgoing (w k) = outgoing (wire s k) @ bars_bytes Category Market Zqdm Count"
proof -
  let ?req = "bars_bytes Category Market Zqdm Count"
  let ?bf = "\<lparr>mReadPos = 0, mWritePos = length ?req, mStorage = ?req, dumps = []\<rparr>"
  let ?w1 = "(wire s)(k := (wire s k)\<lparr>outgoing := outgoing (wire s k) @ ?req\<rparr>)"
  let ?w2 = "?w1(k := (?w1 k)\<lparr>incoming := Chunk [] # map Chunk cs @ es\<rparr>)"
  have len: "0 < length ?req" "length ?req < 2000" using code(2) by (simp_all add: bars_bytes_def)
  have req: "with_bb (bars_request Category Market Zqdm Count) CByteBuffer s = (Ret ((), ?bf), s)"
    using bars_request_run [OF code] by (simp add: with_bb_def)
  have read: "with_bb (bb_read (length ?req)) ?bf s = (Ret (?req, ?bf\<lparr>mReadPos := length ?req\<rparr>), s)"
    using len by (simp add: with_bb_def bb_read_def bb_size_def u32_add_def)
  have send: "call_send k ?req s = (Ret (int (length ?req)), s\<lparr>wire := ?w1\<rparr>)"
    by (simp add: call_send_def sock_send_def script(1))
  obtain h hs where head: "reply_head a b c (length zipped) (length (encode_bars Category bars)) = h # hs"
    using length_reply_head by (metis length_0_conv list.exhaust zero_neq_numeral)
  then have "length (h # hs) = 16" by (metis length_reply_head)
  then have recv: "call_recv k 0x10 (s\<lparr>wire := ?w1\<rparr>) = (Ret (16, h # hs), s\<lparr>wire := ?w2\<rparr>)"
    by (simp add: call_recv_def sock_recv_def script(2) head del: length_Cons)
  have inc: "incoming (wire (s\<lparr>wire := ?w2\<rparr>) k) = map Chunk ([] # cs) @ es" by simp
  have cat: "concat ([] # cs) = zipped" using script(3) by simp
  from read_reply_correct [OF inc cat body bars, of a b c Count] obtain w where
    rep: "read_reply P k Category (h # hs) Count szResult (s\<lparr>wire := ?w2\<rparr>) =
      (Ret (TDXHQ_ERROR_OK, length bars, table P bars @ drop (length (table P bars)) szResult), s\<lparr>wire := w\<rparr>)"
    and same: "same_but_incoming k ?w2 w" by (auto simp: head)
  have "outgoing (w k) = outgoing (wire s k) @ ?req"
    using same_but_incoming_frame(2) [OF same, of k] by simp
  moreover have "TDXHQ_GetSecurityBars P connectID Category Market Zqdm Start Count szResult s =
      (Ret (TDXHQ_ERROR_OK, length bars, table P bars @ drop (length (table P bars)) szResult), s\<lparr>wire := w\<rparr>)"
    using req read send recv rep slot len by (simp add: TDXHQ_GetSecurityBars_def bb_size_def Let_def)
  ultimately show ?thesis by blast
qed

text \<open>
  Property C1. A whole candlestick exchange: on a connected slot, when the socket accepts the request
  and answers with the 16-byte header in one piece and then, in any segmentation, a body that carries the encoding
  of a list of candlesticks (as it is, or compressed), \<open>TDXHQ_GetSecurityBars\<close> returns
  \<open>TDXHQ_ERROR_OK\<close>, the number of candlesticks, and the table of their lines in the caller's
  array; it has sent exactly the bytes of the request.
\<close>

theorem GetSecurityBars_table:
  assumes slot: "0 \<le> connectID" "connectID < int (length (skHQ s))" "skHQ s ! nat connectID = k"
      "k \<noteq> INVALID_SOCKET"
    and code: "CHR 0x00 \<notin> set Zqdm" "length Zqdm < 1000"
    and script: "sending (wire s k) = []"
      "incoming (wire s k) =
         Chunk (reply_head a b c (length zipped) (length (encode_bars Category bars))) # map Chunk cs @ es"
      "concat cs = zipped"
    and body: "carries P zipped (encode_bars Category bars)" "zipped \<noteq> []" "length zipped < 2 ^ 16"
      "length (encode_bars Category bars) < 2 ^ 16"
    and bars: "list_all (candle_ok Category) bars" "length bars < 2 ^ 16"
      "length (table P bars) \<le> length szResult"
  shows "\<exists>w. TDXHQ_GetSecurityBars P connectID Category Market Zqdm Start Count szResult s =
      (Ret (TDXHQ_ERROR_OK, length bars, table P bars @ drop (length (table P bars)) szResult), s\<lparr>wire := w\<rparr>) \<and>
    outgoing (w k) = outgoing (wire s k) @ bars_bytes Category Market Zqdm Count"
  using GetSecurityBars_run [OF slot code script body bars, of Market Start Count] .

theorem GetSecurityBars_table_witness:
  "\<exists>w. TDXHQ_GetSecurityBars demo_platform 0 9 0 ''000001'' 0 5 demo_result (demo_tdx demo_script) =
      (Ret (TDXHQ_ERROR_OK, length [demo_candle], table demo_platform [demo_candle] @
        drop (length (table demo_platform [demo_candle])) demo_result),
       (demo_tdx demo_script)\<lparr>wire := w\<rparr>) \<and>
    outgoing (w 7) = outgoing (wire (demo_tdx demo_script) 7) @ bars_bytes 9 0 ''000001'' 5"
proof (rule GetSecurityBars_table [where a = 0 and b = 0 and c = 0 and zipped = demo_body and cs = demo_chunks
      and es = "[Closed]"])
  show "concat demo_chunks = demo_body" by (simp add: demo_chunks_def)
  show "demo_body \<noteq> []" "length demo_body < 2 ^ 16" "length (encode_bars 9 [demo_candle]) < 2 ^ 16"
    by (simp_all add: demo_body_def encode_bars_def encode_candle_def demo_candle_def encodePrice_def Let_def
        put7.simps)
  show "list_all (candle_ok 9) [demo_candle]" by (simp add: candle_ok_def demo_candle_def intraday_def)
qed (simp_all add: demo_tdx_def demo_script_def demo_result_def carries_def INVALID_SOCKET_def flip: demo_body_def)



text \<open>
  Every price of a line is printed exactly: the open, close, high and low columns of the
  line for a candlestick are its integer prices, in thousandths, as decimal fractions. The division
  by 1000.0 and the rounding of \<^verbatim>\<open>%.3f\<close> lose nothing for any value of the type.
\<close>

theorem show_price_exact:
  "show_price p = (if sint p < 0 then ''-'' else []) @ show_milli (nat \<bar>sint p\<bar>)"
proof -
  have "- (2 ^ 31) \<le> sint p" "sint p < 2 ^ 31"
    using sint_ge [of p] sint_lt [of p] by simp_all
  then have "\<bar>sint p\<bar> \<le> 2 ^ 31" by simp
  then show ?thesis unfolding show_price_def by (rule show_f3_div1000)
qed

text \<open>
  The length the request declares, 0x12 twice, is the number of bytes that follow it
  exactly when the security code has six characters; the start position the caller asks for is
  not in the request at all, whose bytes are these.
\<close>

theorem bars_request_length:
  assumes "CHR 0x00 \<notin> set Zqdm" "length Zqdm < 1000"
  shows "fst (bars_request Category Market Zqdm Count CByteBuffer) = Ret () \<and>
    mStorage (snd (bars_request Category Market Zqdm Count CByteBuffer)) =
      bars_bytes Category Market Zqdm Count \<and>
    (length (drop 10 (bars_bytes Category Market Zqdm Count)) = 0x12 \<longleftrightarrow> length Zqdm = 6)"
  using bars_request_run [OF assms, of Category Market Count] by (simp add: bars_bytes_def)

theorem bars_request_length_witness:
  "fst (bars_request 9 0 ''000001'' 5 CByteBuffer) = Ret () \<and>
    mStorage (snd (bars_request 9 0 ''000001'' 5 CByteBuffer)) = bars_bytes 9 0 ''000001'' 5 \<and>
    (length (drop 10 (bars_bytes 9 0 ''000001'' 5)) = 0x12 \<longleftrightarrow> length ''000001'' = 6)"
  by (rule bars_request_length) simp_all

text \<open>
  Property C12. The body loop under every behaviour of the socket: when it ends with a body, the
  buffer holds exactly as many bytes as the header announced and they are the next bytes of the
  stream, in order; what the stream still holds is what follows them.
\<close>

theorem recv_body_prefix:
  assumes "recv_body k n (replicate n 0) CByteBuffer s = (Ret (i, bf), s')" "i \<noteq> 0" "n < 2 ^ 16"
  shows "length (mStorage bf) = n \<and> mStorage bf = take n (pending (wire s) k) \<and>
    pending (wire s') k = drop n (pending (wire s) k)"
proof -
  have "mWritePos CByteBuffer = bb_size CByteBuffer" by (simp add: CByteBuffer_def bb_size_def)
  from recv_body_exact [OF assms(1,2) this _ assms(3)] show ?thesis
    by (auto simp: CByteBuffer_def bb_size_def)
qed

theorem recv_body_prefix_witness:
  "\<exists>i bf s'. recv_body 7 3 (replicate 3 0) CByteBuffer (demo_tdx [Chunk [1], Chunk [2, 3]]) = (Ret (i, bf), s') \<and>
    mStorage bf = [1, 2, 3] \<and> pending (wire s') 7 = []"
proof -
  note op = bb_open_init
  have "incoming (wire (demo_tdx [Chunk [1], Chunk [2, 3]]) 7) = map Chunk [[1], [2, 3]] @ []"
    by (simp add: demo_tdx_def)
  from recv_body_chunks [OF this _ op, of 3 "replicate 3 0"] obtain i bf s' where
    run: "recv_body 7 3 (replicate 3 0) CByteBuffer (demo_tdx [Chunk [1], Chunk [2, 3]]) = (Ret (i, bf), s')"
    and i: "i \<noteq> 0" by (auto simp: CByteBuffer_def bb_size_def)
  from recv_body_prefix [OF run i] run show ?thesis by (auto simp: demo_tdx_def pending_def)
qed

text \<open>
  A failing \<^verbatim>\<open>recv\<close> in the body loop is not reported: the result -1 becomes a byte count
  of \<open>2 ^ 32 - 1\<close>, and the loop leaves through \<open>bad_alloc\<close> when nothing has arrived yet, and reads
  outside its buffer when something has.
\<close>

theorem recv_body_error_not_reported:
  assumes "incoming (wire s k) = Failed e # es" "bb_open bf" "n < 2 ^ 16"
  shows "fst (recv_body k n (replicate n 0) bf s) =
    (if bb_size bf = 0 then Throw bad_alloc else Abort Undefined)"
  using recv_body_failed [OF assms(1,2) _ assms(3)] by simp

theorem recv_body_error_not_reported_witness:
  "fst (recv_body 7 2 (replicate 2 0) CByteBuffer (demo_tdx [Failed EINTR])) = Throw bad_alloc"
  using recv_body_error_not_reported [of "demo_tdx [Failed EINTR]" 7 EINTR "[]" CByteBuffer 2]
  by (simp add: demo_tdx_def bb_open_init) (simp add: CByteBuffer_def bb_size_def)

end
