(* ===== verification/Anet.thy ===== *)
theory Anet
  imports Sockets
begin

text \<open>
  The socket helpers of the Redis client: src/HQTEST/anet.c (POSIX) and src/HQTEST/anet_win32.c (the
  Windows build). Calls to the system other than sending and receiving take their results from a
  script in the state and are recorded in a trace, so that a socket that is never closed is visible;
  \<^verbatim>\<open>errno\<close> after a failed send is the error of that call.
  Name resolution is a parameter. The error buffer is \<open>None\<close> when the caller passed \<^verbatim>\<open>NULL\<close>.
\<close>

definition ANET_OK :: int where
  "ANET_OK = 0"

definition ANET_ERR :: int where
  "ANET_ERR = - 1"

definition ANET_ERR_LEN :: nat where
  "ANET_ERR_LEN = 256"

definition strerror :: "errno \<Rightarrow> string" where
  "strerror e = (case e of EINTR \<Rightarrow> ''Interrupted system call'' | Errno m \<Rightarrow> m)"

definition EINPROGRESS :: errno where
  "EINPROGRESS = Errno ''Operation now in progress''"

definition WSANOTINITIALISED :: errno where
  "WSANOTINITIALISED = Errno ''WSANOTINITIALISED''"

record names =
  inet_aton :: "string \<Rightarrow> nat option"
  gethostbyname :: "string \<Rightarrow> nat option"
  inet_ntoa :: "nat \<Rightarrow> string"

datatype syscall =
    Socket
  | Setsockopt int string int
  | Getfl int
  | Setfl int int
  | Connect int nat int
  | Bind int nat int
  | Listen int nat
  | Accept_on int
  | Close int
  | WSAStartup

record os =
  net :: "char net"
  answers :: "(int \<times> errno) list"
  trace :: "syscall list"
  last_errno :: errno

type_synonym 'a oio = "(os, 'a) io"

definition syscall :: "syscall \<Rightarrow> (int \<times> errno) oio" where
  "syscall c s =
     (let s1 = s\<lparr>trace := trace s @ [c]\<rparr>
      in case answers s of
           [] \<Rightarrow> (Abort Blocked, s1)
         | a # as \<Rightarrow> (Ret a, s1\<lparr>answers := as\<rparr>))"

text \<open>A call whose result the code does not use.\<close>

definition note_call :: "syscall \<Rightarrow> unit oio" where
  "note_call c s = (Ret (), s\<lparr>trace := trace s @ [c]\<rparr>)"

type_synonym anet_result = "int \<times> string option"

definition anetSetError :: "string option \<Rightarrow> string \<Rightarrow> string option" where
  "anetSetError err msg = (case err of None \<Rightarrow> None | Some _ \<Rightarrow> Some (take (ANET_ERR_LEN - 1) msg))"

definition nl :: string where
  "nl = [CHR 0x0A]"

section \<open>anet.c\<close>

definition O_NONBLOCK :: int where
  "O_NONBLOCK = 2048"

text \<open>\<^verbatim>\<open>flags | O_NONBLOCK\<close>, for the one bit.\<close>

definition or_nonblock :: "int \<Rightarrow> int" where
  "or_nonblock flags = (if odd (flags div O_NONBLOCK) then flags else flags + O_NONBLOCK)"

definition anetNonBlock :: "string option \<Rightarrow> int \<Rightarrow> anet_result oio" where
  "anetNonBlock err fd =
     bnd (syscall (Getfl fd)) (\<lambda>(flags, e).
       if flags = - 1 then ret (ANET_ERR, anetSetError err (''fcntl(F_GETFL): '' @ strerror e @ nl))
       else bnd (syscall (Setfl fd (or_nonblock flags))) (\<lambda>(r, e').
              if r = - 1
              then ret (ANET_ERR, anetSetError err (''fcntl(F_SETFL,O_NONBLOCK): '' @ strerror e' @ nl))
              else ret (ANET_OK, err)))"

definition anetTcpNoDelay :: "string option \<Rightarrow> int \<Rightarrow> anet_result oio" where
  "anetTcpNoDelay err fd =
     bnd (syscall (Setsockopt fd ''TCP_NODELAY'' 1)) (\<lambda>(r, e).
       if r = - 1 then ret (ANET_ERR, anetSetError err (''setsockopt TCP_NODELAY: '' @ strerror e @ nl))
       else ret (ANET_OK, err))"

definition anetSetSendBuffer :: "string option \<Rightarrow> int \<Rightarrow> int \<Rightarrow> anet_result oio" where
  "anetSetSendBuffer err fd buffsize =
     bnd (syscall (Setsockopt fd ''SO_SNDBUF'' buffsize)) (\<lambda>(r, e).
       if r = - 1 then ret (ANET_ERR, anetSetError err (''setsockopt SO_SNDBUF: '' @ strerror e @ nl))
       else ret (ANET_OK, err))"

definition anetTcpKeepAlive :: "string option \<Rightarrow> int \<Rightarrow> anet_result oio" where
  "anetTcpKeepAlive err fd =
     bnd (syscall (Setsockopt fd ''SO_KEEPALIVE'' 1)) (\<lambda>(r, e).
       if r = - 1 then ret (ANET_ERR, anetSetError err (''setsockopt SO_KEEPALIVE: '' @ strerror e @ nl))
       else ret (ANET_OK, err))"

definition resolve :: "names \<Rightarrow> string \<Rightarrow> nat option" where
  "resolve N host = (case inet_aton N host of Some a \<Rightarrow> Some a | None \<Rightarrow> gethostbyname N host)"

definition anetResolve :: "names \<Rightarrow> string option \<Rightarrow> string \<Rightarrow> string \<Rightarrow> int \<times> string option \<times> string" where
  "anetResolve N err host ipbuf =
     (case resolve N host of
        None \<Rightarrow> (ANET_ERR, anetSetError err (''can't resolve: '' @ host @ nl), ipbuf)
      | Some a \<Rightarrow> (ANET_OK, err, inet_ntoa N a))"

definition connect_socket :: "string option \<Rightarrow> int \<Rightarrow> nat \<Rightarrow> int \<Rightarrow> bool \<Rightarrow> anet_result oio" where
  "connect_socket err s a port nonblock =
     bnd (syscall (Connect s a port)) (\<lambda>(r, e).
       if r = - 1 then
         (if e = EINPROGRESS \<and> nonblock then ret (s, err)
          else sq (note_call (Close s)) (ret (ANET_ERR, anetSetError err (''connect: '' @ strerror e @ nl))))
       else ret (s, err))"

definition anetTcpGenericConnect ::
  "names \<Rightarrow> string option \<Rightarrow> string \<Rightarrow> int \<Rightarrow> bool \<Rightarrow> anet_result oio" where
  "anetTcpGenericConnect N err addr port nonblock =
     bnd (syscall Socket) (\<lambda>(s, e).
       if s = - 1 then ret (ANET_ERR, anetSetError err (''creating socket: '' @ strerror e @ nl))
       else bnd (syscall (Setsockopt s ''SO_REUSEADDR'' 1)) (\<lambda>_.
         case resolve N addr of
           None \<Rightarrow> sq (note_call (Close s)) (ret (ANET_ERR, anetSetError err (''can't resolve: '' @ addr @ nl)))
         | Some a \<Rightarrow>
             if nonblock then
               bnd (anetNonBlock err s) (\<lambda>(r, err'). if r \<noteq> ANET_OK then ret (ANET_ERR, err')
                 else connect_socket err' s a port nonblock)
             else connect_socket err s a port nonblock))"

definition anetTcpConnect :: "names \<Rightarrow> string option \<Rightarrow> string \<Rightarrow> int \<Rightarrow> anet_result oio" where
  "anetTcpConnect N err addr port = anetTcpGenericConnect N err addr port False"

definition anetTcpNonBlockConnect :: "names \<Rightarrow> string option \<Rightarrow> string \<Rightarrow> int \<Rightarrow> anet_result oio" where
  "anetTcpNonBlockConnect N err addr port = anetTcpGenericConnect N err addr port True"

text \<open>
  \<^verbatim>\<open>anetRead\<close>: the bytes stored and the result, which is short at the end of the stream and -1 on
  an error (also when interrupted).
\<close>

function anetRead_loop :: "int \<Rightarrow> nat \<Rightarrow> string \<Rightarrow> (int \<times> string) oio" where
  "anetRead_loop fd count buf s =
     (if length buf = count then (Ret (int (length buf), buf), s)
      else case sock_recv fd (count - length buf) False (net s) of
             (Got bs, w) \<Rightarrow>
               (if bs = [] then (Ret (int (length buf), buf), s\<lparr>net := w\<rparr>)
                else anetRead_loop fd count (buf @ bs) (s\<lparr>net := w\<rparr>))
           | (PeerClosed, w) \<Rightarrow> (Ret (int (length buf), buf), s\<lparr>net := w\<rparr>)
           | (RecvError e, w) \<Rightarrow> (Ret (- 1, buf), s\<lparr>net := w\<rparr>)
           | (NoData, w) \<Rightarrow> (Abort Blocked, s\<lparr>net := w\<rparr>))"
  by pat_completeness auto

lemma weight_recv_nonempty:
  assumes "sock_recv fd n False w = (Got bs, w')" "bs \<noteq> []"
  shows "weight w' fd < weight w fd"
proof -
  have "0 < n" using sock_recv_Got(2) [OF assms(1)] assms(2) by (cases n) auto
  with assms(1) show ?thesis by (rule weight_recv)
qed

termination anetRead_loop
  by (relation "measure (\<lambda>(fd, count, buf, s). weight (net s) fd)")
    (auto intro: weight_recv_nonempty [OF sym])

declare anetRead_loop.simps [simp del]

definition anetRead :: "int \<Rightarrow> nat \<Rightarrow> (int \<times> string) oio" where
  "anetRead fd count = anetRead_loop fd count []"

text \<open>\<^verbatim>\<open>anetWrite\<close>: \<open>buf\<close> is what is left of the buffer, \<open>totlen\<close> what has been written.\<close>

function anetWrite_loop :: "int \<Rightarrow> string \<Rightarrow> nat \<Rightarrow> int oio" where
  "anetWrite_loop fd buf totlen s =
     (if buf = [] then (Ret (int totlen), s)
      else case sock_send fd buf (net s) of
             (Sent n, w) \<Rightarrow>
               (if n = 0 then (Ret (int totlen), s\<lparr>net := w\<rparr>)
                else anetWrite_loop fd (drop n buf) (totlen + n) (s\<lparr>net := w\<rparr>))
           | (SendError e, w) \<Rightarrow> (Ret (- 1), s\<lparr>net := w, last_errno := e\<rparr>)
           | (NoRoom, w) \<Rightarrow> (Abort Blocked, s\<lparr>net := w\<rparr>))"
  by pat_completeness auto

termination anetWrite_loop
  by (relation "measure (\<lambda>(fd, buf, totlen, s). length buf)") auto

declare anetWrite_loop.simps [simp del]

definition anetWrite :: "int \<Rightarrow> string \<Rightarrow> int oio" where
  "anetWrite fd buf = anetWrite_loop fd buf 0"

definition anetTcpServer :: "names \<Rightarrow> string option \<Rightarrow> int \<Rightarrow> string option \<Rightarrow> anet_result oio" where
  "anetTcpServer N err port bindaddr =
     bnd (syscall Socket) (\<lambda>(s, e).
       if s = - 1 then ret (ANET_ERR, anetSetError err (''socket: '' @ strerror e @ nl))
       else bnd (syscall (Setsockopt s ''SO_REUSEADDR'' 1)) (\<lambda>(r, e).
         if r = - 1 then
           sq (note_call (Close s)) (ret (ANET_ERR, anetSetError err (''setsockopt SO_REUSEADDR: '' @ strerror e @ nl)))
         else case (case bindaddr of None \<Rightarrow> Some 0 | Some b \<Rightarrow> inet_aton N b) of
           None \<Rightarrow> sq (note_call (Close s)) (ret (ANET_ERR, anetSetError err (''Invalid bind address'' @ nl)))
         | Some a \<Rightarrow>
             bnd (syscall (Bind s a port)) (\<lambda>(r, e).
               if r = - 1 then
                 sq (note_call (Close s)) (ret (ANET_ERR, anetSetError err (''bind: '' @ strerror e @ nl)))
               else bnd (syscall (Listen s 511)) (\<lambda>(r, e).
                 if r = - 1 then
                   sq (note_call (Close s)) (ret (ANET_ERR, anetSetError err (''listen: '' @ strerror e @ nl)))
                 else ret (s, err)))))"

text \<open>The loop of \<^verbatim>\<open>anetAccept\<close> repeats an interrupted call; each turn uses up an answer.\<close>

function anetAccept :: "string option \<Rightarrow> int \<Rightarrow> anet_result oio" where
  "anetAccept err serversock s =
     (case syscall (Accept_on serversock) s of
        (Ret (fd, e), s1) \<Rightarrow>
          (if fd = - 1 then
             (if e = EINTR then anetAccept err serversock s1
              else (Ret (ANET_ERR, anetSetError err (''accept: '' @ strerror e @ nl)), s1))
           else (Ret (fd, err), s1))
      | (Throw x, s1) \<Rightarrow> (Throw x, s1)
      | (Abort f, s1) \<Rightarrow> (Abort f, s1))"
  by pat_completeness auto

termination anetAccept
  by (relation "measure (\<lambda>(err, k, s). length (answers s))")
    (auto simp: syscall_def Let_def split: list.splits)

declare anetAccept.simps [simp del]

section \<open>anet_win32.c\<close>

definition w32_anetTcpNoDelay :: "string option \<Rightarrow> int \<Rightarrow> anet_result oio" where
  "w32_anetTcpNoDelay err fd =
     bnd (syscall (Setsockopt fd ''TCP_NODELAY'' 1)) (\<lambda>(r, e).
       if r = - 1 then ret (ANET_ERR, map_option (\<lambda>_. ''Failed to do setsockopt(TCP_NODELAY).'') err)
       else ret (ANET_OK, err))"

definition w32_socket :: "(int \<times> errno) oio" where
  "w32_socket =
     bnd (syscall Socket) (\<lambda>(sock, e).
       if sock = - 1 \<and> e = WSANOTINITIALISED then sq (note_call WSAStartup) (syscall Socket)
       else ret (sock, e))"

definition w32_anetTcpConnect :: "names \<Rightarrow> string option \<Rightarrow> string \<Rightarrow> int \<Rightarrow> anet_result oio" where
  "w32_anetTcpConnect N err addr port =
     bnd w32_socket (\<lambda>(sock, e).
       if sock = - 1 \<and> e = WSANOTINITIALISED
       then ret (ANET_ERR, map_option (\<lambda>_. ''Failed to initialize WinSock2.'') err)
       else case gethostbyname N addr of
              None \<Rightarrow> ret (ANET_ERR, map_option (\<lambda>_. ''Failed to resolve target host.'') err)
            | Some a \<Rightarrow>
                bnd (syscall (Connect sock a port)) (\<lambda>(r, e').
                  if r \<noteq> 0 then ret (ANET_ERR, map_option (\<lambda>_. ''Failed to connect.'') err)
                  else ret (sock, err)))"

function w32_anetWrite_loop :: "int \<Rightarrow> string \<Rightarrow> nat \<Rightarrow> int oio" where
  "w32_anetWrite_loop fd buf totlen s =
     (if buf = [] then (Ret (int totlen), s)
      else case sock_send fd buf (net s) of
             (Sent n, w) \<Rightarrow>
               (if n = 0 then (Ret (int totlen), s\<lparr>net := w\<rparr>)
                else w32_anetWrite_loop fd (drop n buf) (totlen + n) (s\<lparr>net := w\<rparr>))
           | (SendError e, w) \<Rightarrow> (Ret (- 1), s\<lparr>net := w, last_errno := e\<rparr>)
           | (NoRoom, w) \<Rightarrow> (Abort Blocked, s\<lparr>net := w\<rparr>))"
  by pat_completeness auto

termination w32_anetWrite_loop
  by (relation "measure (\<lambda>(fd, buf, totlen, s). length buf)") auto

declare w32_anetWrite_loop.simps [simp del]

definition w32_anetWrite :: "int \<Rightarrow> string \<Rightarrow> int oio" where
  "w32_anetWrite fd buf = w32_anetWrite_loop fd buf 0"

section \<open>What the loops transfer\<close>

lemma sock_send_frame:
  assumes "sock_send fd bs w = (r, w')"
  shows "incoming (w' g) = incoming (w g)" "g \<noteq> fd \<Longrightarrow> w' g = w g"
  using assms by (auto simp: sock_send_def split: list.splits send_event.splits)

text \<open>A call uses up its event and delivers the bytes it accepts; without an event it accepts them all.\<close>

lemma sock_send_Sent:
  assumes "sock_send fd bs w = (Sent n, w')"
  shows "n \<le> length bs" "outgoing (w' fd) = outgoing (w fd) @ take n bs"
    "sending (w fd) = [] \<and> sending (w' fd) = [] \<and> n = length bs \<or>
     (\<exists>k. sending (w fd) = Accept k # sending (w' fd) \<and> n = min k (length bs))"
  using assms by (auto simp: sock_send_def min_def split: list.splits send_event.splits)

lemma sock_send_stops:
  "sock_send fd bs w = (SendError e, w') \<Longrightarrow>
     outgoing (w' fd) = outgoing (w fd) \<and> sending (w fd) = SendFailed e # sending (w' fd)"
  "sock_send fd bs w = (NoRoom, w') \<Longrightarrow>
     outgoing (w' fd) = outgoing (w fd) \<and> sending (w fd) = SendBlocks # sending (w' fd)"
  by (auto simp: sock_send_def split: list.splits send_event.splits)

text \<open>Sending touches nothing but the outgoing bytes and the send script of its socket.\<close>

definition same_but_sent :: "int \<Rightarrow> os \<Rightarrow> os \<Rightarrow> bool" where
  "same_but_sent fd s s' \<longleftrightarrow>
     (\<forall>g. incoming (net s' g) = incoming (net s g) \<and> (g \<noteq> fd \<longrightarrow> net s' g = net s g)) \<and>
     answers s' = answers s \<and> trace s' = trace s"

text \<open>
  How a write loop that has used up the events \<open>es\<close> and sent \<open>k\<close> bytes of \<open>buf\<close> may end: complete, cut short by
  a call that wrote nothing, by an error, or by a call that does not return. Every event before the
  last one accepted at least a byte.
\<close>

definition write_end :: "send_event list \<Rightarrow> string \<Rightarrow> nat \<Rightarrow> nat \<Rightarrow> int res \<Rightarrow> errno \<Rightarrow> bool" where
  "write_end es buf totlen k r e \<longleftrightarrow>
     (\<forall>v \<in> set (butlast es). \<exists>n > 0. v = Accept n) \<and>
     (r = Ret (int (totlen + k)) \<and> (k = length buf \<or> es \<noteq> [] \<and> last es = Accept 0) \<or>
      r = Ret (- 1) \<and> es \<noteq> [] \<and> last es = SendFailed e \<or>
      r = Abort Blocked \<and> es \<noteq> [] \<and> last es = SendBlocks)"

lemma write_end_Cons:
  assumes "write_end es (drop n buf) (totlen + n) k r e" "0 < n" "n \<le> length buf" "k \<le> length buf - n" "0 < j"
  shows "write_end (Accept j # es) buf totlen (n + k) r e"
  using assms by (cases es) (auto simp: write_end_def)

lemma anetWrite_loop_ends:
  "\<exists>r s' es k. anetWrite_loop fd buf totlen s = (r, s') \<and> sending (net s fd) = es @ sending (net s' fd) \<and>
     k \<le> length buf \<and> outgoing (net s' fd) = outgoing (net s fd) @ take k buf \<and>
     write_end es buf totlen k r (last_errno s') \<and> same_but_sent fd s s'"
proof (induction fd buf totlen s rule: anetWrite_loop.induct)
  case (1 fd buf totlen s)
  obtain sr w where send: "sock_send fd buf (net s) = (sr, w)" by (cases "sock_send fd buf (net s)")
  have same: "same_but_sent fd s (s\<lparr>net := w, last_errno := e\<rparr>)" for e
    using sock_send_frame [OF send] by (simp add: same_but_sent_def)
  consider "buf = []" | e where "buf \<noteq> []" "sr = SendError e" | "buf \<noteq> []" "sr = NoRoom"
    | "buf \<noteq> []" "sr = Sent 0" | n where "buf \<noteq> []" "sr = Sent n" "n \<noteq> 0" by (cases sr) auto
  then show ?case
  proof cases
    case 1
    then show ?thesis by (subst anetWrite_loop.simps) (auto simp: same_but_sent_def write_end_def)
  next
    case 2
    with send sock_send_stops(1) [of fd buf "net s" e w] same [of e] show ?thesis
      by (subst anetWrite_loop.simps) (auto simp: write_end_def intro!: exI [of _ "[SendFailed e]"] exI [of _ "0 :: nat"])
  next
    case 3
    with send sock_send_stops(2) [of fd buf "net s" w] same [of "last_errno s"] show ?thesis
      by (subst anetWrite_loop.simps) (auto simp: write_end_def intro!: exI [of _ "[SendBlocks]"] exI [of _ "0 :: nat"])
  next
    case 4
    with send sock_send_Sent [of fd buf "net s" 0 w] same [of "last_errno s"] show ?thesis
      by (subst anetWrite_loop.simps)
        (auto simp: write_end_def min_def split: if_splits intro!: exI [of _ "[Accept 0]"] exI [of _ "0 :: nat"])
  next
    case (5 n)
    note snt = sock_send_Sent [OF send [unfolded 5(2)]]
    from "1.IH" [OF 5(1) send [symmetric] 5(2,3)] obtain r s' es k where
      rec: "anetWrite_loop fd (drop n buf) (totlen + n) (s\<lparr>net := w\<rparr>) = (r, s')"
        "sending (w fd) = es @ sending (net s' fd)" "k \<le> length buf - n"
        "outgoing (net s' fd) = outgoing (w fd) @ take k (drop n buf)"
        "write_end es (drop n buf) (totlen + n) k r (last_errno s')" "same_but_sent fd (s\<lparr>net := w\<rparr>) s'" by auto
    have run: "anetWrite_loop fd buf totlen s = (r, s')"
      using send 5 rec(1) by (subst anetWrite_loop.simps) simp
    have out: "outgoing (net s' fd) = outgoing (net s fd) @ take (n + k) buf"
      using rec(4) snt(2) by (simp add: take_add)
    have same': "same_but_sent fd s s'" using rec(6) same [of "last_errno s"] by (auto simp: same_but_sent_def)
    from snt(3) show ?thesis
    proof (elim disjE exE conjE)
      assume e: "sending (net s fd) = []" "sending (w fd) = []" "n = length buf"
      with rec have "write_end [] buf totlen (n + k) r (last_errno s')" by (auto simp: write_end_def)
      with e rec run out same' snt(1) show ?thesis
        by (intro exI [of _ r] exI [of _ s'] exI [of _ "[]"] exI [of _ "n + k"]) auto
    next
      fix j assume j: "sending (net s fd) = Accept j # sending (w fd)" "n = min j (length buf)"
      with 5 have "0 < j" by auto
      from write_end_Cons [OF rec(5) _ snt(1) rec(3) this] 5 j rec(2,3) run out same' snt(1) show ?thesis
        by (intro exI [of _ r] exI [of _ s'] exI [of _ "Accept j # es"] exI [of _ "n + k"]) auto
    qed
  qed
qed

lemma anetWrite_all:
  assumes "sending (net s fd) = []"
  shows "anetWrite fd buf s =
    (Ret (int (length buf)), s\<lparr>net := (net s)(fd := (net s fd)\<lparr>outgoing := outgoing (net s fd) @ buf\<rparr>)\<rparr>)"
proof (cases "buf = []")
  case True
  have "(net s)(fd := (net s fd)\<lparr>outgoing := outgoing (net s fd)\<rparr>) = net s" by (simp add: fun_upd_idem)
  with True show ?thesis by (simp add: anetWrite_def anetWrite_loop.simps)
next
  case False
  with assms show ?thesis
    by (simp add: anetWrite_def anetWrite_loop.simps [of fd buf] sock_send_def)
      (simp add: anetWrite_loop.simps)
qed

lemma w32_anetWrite_loop_eq: "w32_anetWrite_loop fd buf totlen s = anetWrite_loop fd buf totlen s"
proof (induction fd buf totlen s rule: anetWrite_loop.induct)
  case (1 fd buf totlen s)
  then show ?case
    by (subst anetWrite_loop.simps, subst w32_anetWrite_loop.simps) (auto split: prod.splits send_result.splits)
qed

lemma anetRead_loop_prefix:
  assumes "anetRead_loop fd count buf s = (Ret (r, buf'), s')" "length buf \<le> count"
  shows "\<exists>got. buf' = buf @ got \<and> length buf' \<le> count \<and> (r = int (length buf') \<or> r = - 1) \<and>
    got = take (length got) (pending (net s) fd)"
  using assms
proof (induction fd count buf s rule: anetRead_loop.induct)
  case (1 fd count buf s)
  show ?case
  proof (cases "length buf = count")
    case True
    with "1.prems" show ?thesis by (auto simp: anetRead_loop.simps [of fd count buf s])
  next
    case False
    obtain rr w where recv: "sock_recv fd (count - length buf) False (net s) = (rr, w)"
      by (cases "sock_recv fd (count - length buf) False (net s)")
    show ?thesis
    proof (cases "\<exists>bs. rr = Got bs \<and> bs \<noteq> []")
      case True
      then obtain bs where rr: "rr = Got bs" "bs \<noteq> []" by auto
      note got = sock_recv_Got [OF recv [unfolded rr]]
      have rec: "anetRead_loop fd count (buf @ bs) (s\<lparr>net := w\<rparr>) = (Ret (r, buf'), s')"
        using "1.prems"(1) recv rr False by (simp add: anetRead_loop.simps [of fd count buf s])
      have le: "length (buf @ bs) \<le> count" using got(2) "1.prems"(2) False by simp
      from "1.IH" [OF False recv [symmetric] rr(1,2) rec le] obtain g where
        g: "buf' = buf @ bs @ g" "length buf' \<le> count" "r = int (length buf') \<or> r = - 1"
          "g = take (length g) (pending w fd)" by (metis append.assoc os.select_convs(1) os.surjective os.update_convs(1))
      have "take (length bs + length g) (pending (net s) fd) = bs @ g"
        using got(1,3) g(4) by (metis take_add)
      with g show ?thesis by (intro exI [of _ "bs @ g"]) (auto simp: add.commute)
    next
      case stop: False
      with "1.prems" recv False show ?thesis
        by (subst (asm) anetRead_loop.simps) (auto split: recv_result.splits if_splits)
    qed
  qed
qed

section \<open>Properties\<close>

definition demo_os :: "char recv_event list \<Rightarrow> send_event list \<Rightarrow> (int \<times> errno) list \<Rightarrow> os" where
  "demo_os es ss as =
     \<lparr>net = (\<lambda>_. \<lparr>incoming = es, sending = ss, outgoing = []\<rparr>), answers = as, trace = [], last_errno = EINTR\<rparr>"

text \<open>
  Property C32. How a write ends, whatever the system does. What it has sent is a prefix of the buffer, and
  it stops for one of four reasons only: everything is sent and the result is the full count; a call
  wrote nothing and the result is the short count of what was sent; a call failed, the result is -1
  and the error is the one of that call; a call does not return. Until then every call wrote at
  least a byte. Nothing that is to be received, and no other socket, is touched.
\<close>

theorem anetWrite_ends:
  "\<exists>r s' es k. anetWrite fd buf s = (r, s') \<and> sending (net s fd) = es @ sending (net s' fd) \<and>
     (\<forall>v \<in> set (butlast es). \<exists>n > 0. v = Accept n) \<and>
     k \<le> length buf \<and> outgoing (net s' fd) = outgoing (net s fd) @ take k buf \<and> same_but_sent fd s s' \<and>
     (r = Ret (int k) \<and> (k = length buf \<or> es \<noteq> [] \<and> last es = Accept 0) \<or>
      r = Ret (- 1) \<and> es \<noteq> [] \<and> last es = SendFailed (last_errno s') \<or>
      r = Abort Blocked \<and> es \<noteq> [] \<and> last es = SendBlocks)"
  using anetWrite_loop_ends [of fd buf 0 s] unfolding write_end_def anetWrite_def by simp blast

theorem anetWrite_ends_witness:
  "\<exists>r s' es k. anetWrite 3 ''abc'' (demo_os [] [Accept 1, Accept 0, SendBlocks] []) = (r, s') \<and>
     r = Ret (int k) \<and> outgoing (net s' 3) = take k ''abc'' \<and> [Accept 1, Accept 0, SendBlocks] = es @ sending (net s' 3) \<and>
     last es = Accept 0"
proof -
  let ?s = "demo_os [] [Accept 1, Accept 0, SendBlocks] []"
  have run: "fst (anetWrite 3 ''abc'' ?s) = Ret 1" "sending (net (snd (anetWrite 3 ''abc'' ?s)) 3) = [SendBlocks]"
    by (simp_all add: anetWrite_def anetWrite_loop.simps demo_os_def sock_send_def)
  from anetWrite_ends [of 3 "''abc''" ?s] run show ?thesis by (fastforce simp: demo_os_def)
qed

text \<open>
  Reading returns a prefix of the stream: never more than asked for, and exactly the
  bytes it counts unless it failed.
\<close>

theorem anetRead_reads_prefix:
  assumes "anetRead fd count s = (Ret (r, buf), s')"
  shows "length buf \<le> count \<and> (r = int (length buf) \<or> r = - 1) \<and> buf = take (length buf) (pending (net s) fd)"
  using anetRead_loop_prefix [OF assms [unfolded anetRead_def]] by auto

theorem anetRead_reads_prefix_witness:
  "\<exists>r buf s'. anetRead 3 4 (demo_os [Chunk ''ab'', Chunk ''cde''] [] []) = (Ret (r, buf), s') \<and>
    buf = take (length buf) (pending (net (demo_os [Chunk ''ab'', Chunk ''cde''] [] [])) 3)"
proof -
  have run: "\<exists>s'. anetRead 3 4 (demo_os [Chunk ''ab'', Chunk ''cde''] [] []) = (Ret (4, ''abcd''), s')"
    by (simp add: anetRead_def anetRead_loop.simps demo_os_def sock_recv_def)
  then obtain s' where "anetRead 3 4 (demo_os [Chunk ''ab'', Chunk ''cde''] [] []) = (Ret (4, ''abcd''), s')" ..
  with anetRead_reads_prefix [OF this] show ?thesis by blast
qed

text \<open>
  The Windows write loop is the POSIX one: same result, same bytes sent, for every script.
\<close>

theorem w32_anetWrite_eq: "w32_anetWrite fd buf s = anetWrite fd buf s"
  by (simp add: w32_anetWrite_def anetWrite_def w32_anetWrite_loop_eq)

text \<open>
  A blocking connection attempt of anet.c that fails after its socket was created has closed it.
\<close>

theorem anetTcpConnect_no_leak:
  assumes "anetTcpConnect N err addr port s = (Ret (ANET_ERR, err'), s')" "answers s = (k, e) # as" "k \<noteq> - 1"
  shows "Close k \<in> set (trace s')"
  using assms unfolding anetTcpConnect_def anetTcpGenericConnect_def connect_socket_def
  by (auto simp: syscall_def note_call_def Let_def bnd_def sq_def ANET_ERR_def split: list.splits option.splits if_splits prod.splits)

theorem anetTcpConnect_no_leak_witness:
  "\<exists>err' s'. anetTcpConnect \<lparr>inet_aton = (\<lambda>_. None), gethostbyname = (\<lambda>_. None), inet_ntoa = (\<lambda>_. [])\<rparr> None
      ''nohost'' 6379 (demo_os [] [] [(5, EINTR), (0, EINTR)]) = (Ret (ANET_ERR, err'), s') \<and> Close 5 \<in> set (trace s')"
proof -
  let ?N = "\<lparr>inet_aton = (\<lambda>_. None), gethostbyname = (\<lambda>_. None), inet_ntoa = (\<lambda>_. [])\<rparr>"
  have "\<exists>err' s'. anetTcpConnect ?N None ''nohost'' 6379 (demo_os [] [] [(5, EINTR), (0, EINTR)]) =
      (Ret (ANET_ERR, err'), s')"
    by (simp add: anetTcpConnect_def anetTcpGenericConnect_def syscall_def note_call_def Let_def bnd_def sq_def
        demo_os_def resolve_def)
  then obtain err' s' where run: "anetTcpConnect ?N None ''nohost'' 6379 (demo_os [] [] [(5, EINTR), (0, EINTR)]) =
      (Ret (ANET_ERR, err'), s')" by blast
  have "answers (demo_os [] [] [(5, EINTR), (0, EINTR)]) = (5, EINTR) # [(0, EINTR)]" by (simp add: demo_os_def)
  from anetTcpConnect_no_leak [OF run this] run show ?thesis by auto
qed

text \<open>
  The Windows version never closes the socket of a failed attempt.
\<close>

theorem w32_anetTcpConnect_leaks:
  assumes "trace s = []"
  shows "Close k \<notin> set (trace (snd (w32_anetTcpConnect N err addr port s)))"
  using assms unfolding w32_anetTcpConnect_def w32_socket_def
  by (auto simp: syscall_def note_call_def Let_def bnd_def sq_def split: list.splits option.splits if_splits prod.splits res.splits)

theorem w32_anetTcpConnect_leaks_witness:
  "Close 5 \<notin> set (trace (snd (w32_anetTcpConnect
     \<lparr>inet_aton = (\<lambda>_. None), gethostbyname = (\<lambda>_. None), inet_ntoa = (\<lambda>_. [])\<rparr> None ''nohost'' 6379
     (demo_os [] [] [(5, EINTR)]))))"
  by (rule w32_anetTcpConnect_leaks) (simp add: demo_os_def)

end
