(* ===== verification/RedisWire.thy ===== *)
theory RedisWire
  imports Anet
begin

text \<open>
  The protocol layer of src/HQTEST/redisclient.h: the data types of the client, the request builder
  \<^verbatim>\<open>makecmd\<close>, and the functions that read replies from a socket. They work on the network state alone;
  the connections come in \<open>RedisClient\<close>. The Boost conversions and the hash function are the
  parameter \<open>boost\<close>; \<open>boost_ok\<close> is what their documentation promises for integers. \<^verbatim>\<open>long\<close> is 32 bits
  wide in this build. Diagnostic output to \<^verbatim>\<open>std::cerr\<close> is left out.
\<close>

section \<open>Data\<close>

datatype reply_t = no_reply | status_code_reply | error_reply | int_reply | bulk_reply | multi_bulk_reply

record connection_data =
  host :: string
  port :: nat
  dbindex :: int
  socket :: int

definition new_connection_data :: "string \<Rightarrow> nat \<Rightarrow> int \<Rightarrow> connection_data" where
  "new_connection_data h p d = \<lparr>host = h, port = p, dbindex = d, socket = ANET_ERR\<rparr>"

definition connection_eq :: "connection_data \<Rightarrow> connection_data \<Rightarrow> bool" where
  "connection_eq a b \<longleftrightarrow>
     (if host a \<noteq> host b then False
      else if port a \<noteq> port b then False
      else if dbindex a \<noteq> dbindex b then False
      else True)"

datatype server_role = role_master | role_slave

datatype key = Key (key_name: string)

type_synonym double = "64 word"

record boost =
  cast_long :: "string \<Rightarrow> int option"
  cast_ulong :: "string \<Rightarrow> nat option"
  cast_ushort :: "string \<Rightarrow> nat option"
  cast_double :: "string \<Rightarrow> double option"
  show_long :: "int \<Rightarrow> string"
  show_uint :: "nat \<Rightarrow> string"
  show_double :: "double \<Rightarrow> string"
  show_literal :: "string \<Rightarrow> string"
  hash :: "string \<Rightarrow> nat"
  die :: "nat \<Rightarrow> nat"

definition long_range :: "int \<Rightarrow> bool" where
  "long_range i \<longleftrightarrow> - (2 ^ 31) \<le> i \<and> i < 2 ^ 31"

definition boost_ok :: "boost \<Rightarrow> bool" where
  "boost_ok B \<longleftrightarrow>
     (\<forall>i. show_long B i = show_int i) \<and>
     (\<forall>n. show_uint B n = show_nat n) \<and>
     (\<forall>s. show_literal B s = s) \<and>
     (\<forall>i. long_range i \<longrightarrow> cast_long B (show_int i) = Some i) \<and>
     (\<forall>n. 0 < n \<longrightarrow> die B n < n)"

definition cast :: "('s \<Rightarrow> 'a option) \<Rightarrow> 's \<Rightarrow> 'a res" where
  "cast f s = (case f s of None \<Rightarrow> Throw bad_lexical_cast | Some x \<Rightarrow> Ret x)"

text \<open>Arithmetic on \<^verbatim>\<open>long\<close> wraps around.\<close>

definition wrap_long :: "int \<Rightarrow> int" where
  "wrap_long i = (i + 2 ^ 31) mod 2 ^ 32 - 2 ^ 31"

lemma wrap_long_id: "long_range i \<Longrightarrow> wrap_long i = i"
  by (simp add: wrap_long_def long_range_def)

section \<open>Requests\<close>

definition LBR :: string where
  "LBR = [CHR 0x0D, CHR 0x0A]"

record makecmd =
  mc_lines :: "string list"
  mc_keyname :: "string option"

definition mc_append :: "makecmd \<Rightarrow> string \<Rightarrow> makecmd" where
  "mc_append m param = m\<lparr>mc_lines := mc_lines m @ [param]\<rparr>"

definition new_makecmd :: "string \<Rightarrow> makecmd" where
  "new_makecmd cmd_name = mc_append \<lparr>mc_lines = [], mc_keyname = None\<rparr> cmd_name"

definition mc_key_name :: "makecmd \<Rightarrow> string res" where
  "mc_key_name m = (case mc_keyname m of None \<Rightarrow> Throw (runtime_error ''No key defined!'') | Some k \<Rightarrow> Ret k)"

definition mc_key :: "makecmd \<Rightarrow> key \<Rightarrow> makecmd res" where
  "mc_key m datum =
     (case mc_keyname m of
        Some _ \<Rightarrow> Throw (runtime_error ''You could not add a second key'')
      | None \<Rightarrow> Ret (mc_append (m\<lparr>mc_keyname := Some (key_name datum)\<rparr>) (key_name datum)))"

definition mc_str :: "makecmd \<Rightarrow> string \<Rightarrow> makecmd" where
  "mc_str m datum = mc_append m datum"

definition mc_cast :: "('v \<Rightarrow> string) \<Rightarrow> makecmd \<Rightarrow> 'v \<Rightarrow> makecmd" where
  "mc_cast sh m datum = mc_append m (sh datum)"

definition mc_vec :: "makecmd \<Rightarrow> string list \<Rightarrow> makecmd" where
  "mc_vec m data = m\<lparr>mc_lines := mc_lines m @ data\<rparr>"

definition mc_cast_vec :: "('v \<Rightarrow> string) \<Rightarrow> makecmd \<Rightarrow> 'v list \<Rightarrow> makecmd" where
  "mc_cast_vec sh m data = foldl (\<lambda>m d. mc_append m (sh d)) m data"

definition bulk :: "string \<Rightarrow> string" where
  "bulk param = ''$'' @ show_nat (length param) @ LBR @ param @ LBR"

definition mc_string :: "makecmd \<Rightarrow> string" where
  "mc_string m = ''*'' @ show_nat (length (mc_lines m)) @ LBR @ concat (map bulk (mc_lines m))"

text \<open>A command of string arguments only, as most are.\<close>

definition cmd :: "string \<Rightarrow> string list \<Rightarrow> string" where
  "cmd cmd_name args = mc_string (foldl mc_str (new_makecmd cmd_name) args)"

section \<open>Commands with their replies\<close>

datatype reply_val = Str string | IntV int | Vec "string list"

type_synonym reply_data = "reply_t \<times> reply_val"

record command =
  request :: string
  hash_key :: string
  reply :: reply_data

definition check_reply_t :: "command \<Rightarrow> reply_t \<Rightarrow> unit res" where
  "check_reply_t c reply_type =
     (if fst (reply c) \<noteq> reply_type then Throw (runtime_error ''invalid reply type'') else Ret ())"

definition set_reply :: "command \<Rightarrow> reply_data \<Rightarrow> command" where
  "set_reply c r = c\<lparr>reply := r\<rparr>"

definition new_command :: "makecmd \<Rightarrow> command res" where
  "new_command m =
     rbnd (mc_key_name m) (\<lambda>k. Ret \<lparr>request = mc_string m, hash_key = k, reply = (no_reply, Str [])\<rparr>)"

definition reply_type :: "command \<Rightarrow> reply_t" where
  "reply_type c = fst (reply c)"

text \<open>\<^verbatim>\<open>boost::get\<close> throws when the variant holds another type.\<close>

definition get_str :: "reply_val \<Rightarrow> string res" where
  "get_str v = (case v of Str s \<Rightarrow> Ret s | _ \<Rightarrow> Throw bad_get)"

definition get_status_code_reply :: "command \<Rightarrow> string res" where
  "get_status_code_reply c = rbnd (check_reply_t c status_code_reply) (\<lambda>_. get_str (snd (reply c)))"

definition get_error_reply :: "command \<Rightarrow> string res" where
  "get_error_reply c = rbnd (check_reply_t c error_reply) (\<lambda>_. get_str (snd (reply c)))"

definition get_int_reply :: "command \<Rightarrow> int res" where
  "get_int_reply c =
     rbnd (check_reply_t c int_reply)
       (\<lambda>_. case snd (reply c) of IntV i \<Rightarrow> Ret i | _ \<Rightarrow> Throw bad_get)"

definition get_bulk_reply :: "command \<Rightarrow> string res" where
  "get_bulk_reply c = rbnd (check_reply_t c bulk_reply) (\<lambda>_. get_str (snd (reply c)))"

definition get_multi_bulk_reply :: "command \<Rightarrow> string list res" where
  "get_multi_bulk_reply c =
     rbnd (check_reply_t c multi_bulk_reply)
       (\<lambda>_. case snd (reply c) of Vec v \<Rightarrow> Ret v | _ \<Rightarrow> Throw bad_get)"

section \<open>Receiving\<close>

type_synonym 'a wio = "(char net, 'a) io"

function recv_or_throw :: "int \<Rightarrow> nat \<Rightarrow> bool \<Rightarrow> string wio" where
  "recv_or_throw fd n peek w =
     (case sock_recv fd n peek w of
        (Got bs, w') \<Rightarrow>
          (if bs = [] then (Throw (connection_error ''connection was closed''), w') else (Ret bs, w'))
      | (PeerClosed, w') \<Rightarrow> (Throw (connection_error ''connection was closed''), w')
      | (RecvError e, w') \<Rightarrow>
          (if e = EINTR then recv_or_throw fd n peek w'
           else (Throw (connection_error (''recv error: '' @ strerror e)), w'))
      | (NoData, w') \<Rightarrow> (Abort Blocked, w'))"
  by pat_completeness auto
termination
  by (relation "measure (\<lambda>(fd, n, peek, w). weight w fd)") (auto intro: weight_error [OF sym])

declare recv_or_throw.simps [simp del]

definition is_lbr :: "char \<Rightarrow> bool" where
  "is_lbr c \<longleftrightarrow> c = CHR 0x0D \<or> c = CHR 0x0A"

definition is_ws :: "char \<Rightarrow> bool" where
  "is_ws c \<longleftrightarrow> c \<in> {CHR '' '', CHR 0x0C, CHR 0x0A, CHR 0x0D, CHR 0x09, CHR 0x0B}"

text \<open>\<^verbatim>\<open>rtrim\<close>: what follows the last character outside the set goes, everything when there is none.\<close>

definition rtrim :: "(char \<Rightarrow> bool) \<Rightarrow> string \<Rightarrow> string" where
  "rtrim ws str = rev (dropWhile ws (rev str))"

text \<open>
  The loop of \<open>read_line\<close>: peek at up to 64 bytes, keep them up to the end of the line, and remove
  what was kept from the socket. \<open>total_bytes_read\<close> is never changed, so \<open>max_size\<close> plays no part.
\<close>

definition up_to_eol :: "string \<Rightarrow> string" where
  "up_to_eol bs = takeWhile (\<lambda>c. c \<noteq> CHR 0x0A) bs @ (if CHR 0x0A \<in> set bs then [CHR 0x0A] else [])"

lemma recv_or_throw_Ret:
  "recv_or_throw fd n peek w = (Ret bs, w') \<Longrightarrow>
     bs \<noteq> [] \<and> length bs \<le> n \<and> weight w' fd \<le> weight w fd \<and> (\<not> peek \<longrightarrow> weight w' fd < weight w fd)"
proof (induction fd n peek w rule: recv_or_throw.induct)
  case (1 fd n peek w)
  obtain r w1 where recv: "sock_recv fd n peek w = (r, w1)" by (cases "sock_recv fd n peek w")
  show ?case
  proof (cases r)
    case (Got cs)
    with "1.prems" recv have eq: "bs = cs" "w' = w1" "cs \<noteq> []"
      by (auto simp: recv_or_throw.simps [of fd n peek w] split: if_splits)
    with recv Got weight_peek [of fd n w cs w1] weight_recv_nonempty [of fd n w cs w1] sock_recv_Got(2) [of fd n peek w cs w1]
    show ?thesis by (cases peek) auto
  next
    case (RecvError e)
    with "1.prems" recv have e: "e = EINTR" and rec: "recv_or_throw fd n peek w1 = (Ret bs, w')"
      by (auto simp: recv_or_throw.simps [of fd n peek w] split: if_splits)
    from "1.IH" [OF recv [symmetric] RecvError e rec] weight_error [OF recv [unfolded RecvError]] show ?thesis by auto
  qed (use "1.prems" recv in \<open>auto simp: recv_or_throw.simps [of fd n peek w]\<close>)
qed

function read_line_loop :: "int \<Rightarrow> string \<Rightarrow> string wio" where
  "read_line_loop fd oss w =
     (case recv_or_throw fd 64 True w of
        (Ret bs, w1) \<Rightarrow>
          (let out = up_to_eol bs
           in case recv_or_throw fd (length out) False w1 of
                (Ret _, w2) \<Rightarrow>
                  (if CHR 0x0A \<in> set bs then (Ret (oss @ out), w2) else read_line_loop fd (oss @ out) w2)
              | (Throw e, w2) \<Rightarrow> (Throw e, w2)
              | (Abort f, w2) \<Rightarrow> (Abort f, w2))
      | (Throw e, w1) \<Rightarrow> (Throw e, w1)
      | (Abort f, w1) \<Rightarrow> (Abort f, w1))"
  by pat_completeness auto
termination
proof (relation "measure (\<lambda>(fd, oss, w). weight w fd)", simp, goal_cases)
  case (1 fd oss w x w1 bs out y w2 z)
  from recv_or_throw_Ret [of fd 64 True w bs w1] recv_or_throw_Ret [of fd "length out" False w1 z w2] 1
  show ?case by auto
qed

declare read_line_loop.simps [simp del]

definition read_line :: "int \<Rightarrow> string wio" where
  "read_line fd = sq (asserting (0 < fd)) (bnd (read_line_loop fd []) (\<lambda>line. ret (rtrim is_lbr line)))"

function read_n_loop :: "int \<Rightarrow> nat \<Rightarrow> string \<Rightarrow> string wio" where
  "read_n_loop fd n buf w =
     (if length buf = n then (Ret buf, w)
      else case recv_or_throw fd (n - length buf) False w of
             (Ret bs, w1) \<Rightarrow> read_n_loop fd n (buf @ bs) w1
           | (Throw e, w1) \<Rightarrow> (Throw e, w1)
           | (Abort f, w1) \<Rightarrow> (Abort f, w1))"
  by pat_completeness auto
termination
  by (relation "measure (\<lambda>(fd, n, buf, w). weight w fd)") (auto dest: recv_or_throw_Ret [OF sym])

declare read_n_loop.simps [simp del]

text \<open>
  A vector of negative size cannot be made: the size, taken as unsigned, is over the greatest one, for which
  the standard names \<^verbatim>\<open>length_error\<close>. The address of the first element of an empty one is undefined.
\<close>

definition read_n :: "int \<Rightarrow> int \<Rightarrow> string wio" where
  "read_n fd n =
     (if n < 0 then throw length_error else if n = 0 then abort Undefined else read_n_loop fd (nat n) [])"

section \<open>Replies\<close>

definition ERR :: string where
  "ERR = ''-ERR ''"

definition status_of :: "string \<Rightarrow> string res" where
  "status_of line =
     (if line = [] then Throw (protocol_error ''empty single line reply'')
      else if take (length ERR) line = ERR then
        (let error_msg = drop (length ERR) line
         in Throw (protocol_error (if error_msg = [] then ''unknown error'' else error_msg)))
      else if hd line \<noteq> CHR ''+'' then Throw (protocol_error ''unexpected prefix for status reply'')
      else Ret (tl line))"

definition recv_single_line_reply :: "int \<Rightarrow> string wio" where
  "recv_single_line_reply fd = bnd (read_line fd) (\<lambda>line. lift_res (status_of line))"

definition recv_ok_reply :: "int \<Rightarrow> unit wio" where
  "recv_ok_reply fd =
     bnd (recv_single_line_reply fd) (\<lambda>r.
       if r \<noteq> ''OK'' then throw (protocol_error ''expected OK response'') else ret ())"

definition recv_bulk_length :: "boost \<Rightarrow> int \<Rightarrow> char \<Rightarrow> int wio" where
  "recv_bulk_length B fd prefix =
     bnd (read_line fd) (\<lambda>line.
       if line = [] then abort Undefined
       else if hd line \<noteq> prefix then throw (protocol_error ''unexpected prefix for bulk reply'')
       else lift_res (cast (cast_long B) (tl line)))"

definition missing_value :: string where
  "missing_value = ''**nonexistent-key**''"

definition recv_bulk_reply :: "boost \<Rightarrow> int \<Rightarrow> string wio" where
  "recv_bulk_reply B fd =
     bnd (recv_bulk_length B fd (CHR ''$'')) (\<lambda>len.
       if len = - 1 then ret missing_value
       else let real_length = wrap_long (len + 2)
            in bnd (read_n fd real_length) (\<lambda>data.
                 if data = [] then throw (protocol_error ''invalid bulk reply data; empty'')
                 else if int (length data) \<noteq> real_length
                 then throw (protocol_error ''invalid bulk reply data; data of unexpected length'')
                 else ret (take (length data - 2) data)))"

text \<open>\<^verbatim>\<open>reserve\<close> refuses more elements than \<^verbatim>\<open>max_size()\<close>, 28 bytes each in the address space.\<close>

definition vec_reserve :: "nat \<Rightarrow> int \<Rightarrow> unit wio" where
  "vec_reserve sz len = (if 153391689 < to_u32 (int sz + len) then throw length_error else ret ())"

fun recv_bulks :: "boost \<Rightarrow> int \<Rightarrow> nat \<Rightarrow> string list \<Rightarrow> string list wio" where
  "recv_bulks B fd 0 out = ret out"
| "recv_bulks B fd (Suc n) out = bnd (recv_bulk_reply B fd) (\<lambda>v. recv_bulks B fd n (out @ [v]))"

definition recv_multi_bulk_reply :: "boost \<Rightarrow> int \<Rightarrow> string list \<Rightarrow> (int \<times> string list) wio" where
  "recv_multi_bulk_reply B fd out =
     bnd (recv_bulk_length B fd (CHR ''*'')) (\<lambda>len.
       if len = - 1 then throw (key_error ''no such key'')
       else sq (vec_reserve (length out) len)
              (bnd (recv_bulks B fd (nat len) out) (\<lambda>out'. ret (len, out'))))"

text \<open>A \<^verbatim>\<open>std::set\<close> of strings is its elements in order.\<close>

fun recv_bulks_set :: "boost \<Rightarrow> int \<Rightarrow> nat \<Rightarrow> string list \<Rightarrow> string list wio" where
  "recv_bulks_set B fd 0 out = ret out"
| "recv_bulks_set B fd (Suc n) out =
     bnd (recv_bulk_reply B fd) (\<lambda>v. recv_bulks_set B fd n (insort_insert v out))"

definition recv_multi_bulk_reply_set :: "boost \<Rightarrow> int \<Rightarrow> string list \<Rightarrow> (int \<times> string list) wio" where
  "recv_multi_bulk_reply_set B fd out =
     bnd (recv_bulk_length B fd (CHR ''*'')) (\<lambda>len.
       if len = - 1 then throw (key_error ''no such key'')
       else bnd (recv_bulks_set B fd (nat len) out) (\<lambda>out'. ret (len, out')))"

text \<open>The template with its conversion, and the \<^verbatim>\<open>long\<close> version.\<close>

definition recv_int_reply_T :: "(string \<Rightarrow> 'i option) \<Rightarrow> int \<Rightarrow> 'i wio" where
  "recv_int_reply_T conv fd =
     bnd (read_line fd) (\<lambda>line.
       if line = [] then throw (protocol_error ''invalid integer reply; empty'')
       else if hd line \<noteq> CHR '':'' then throw (protocol_error ''unexpected prefix for integer reply'')
       else lift_res (cast conv (tl line)))"

definition recv_int_reply :: "boost \<Rightarrow> int \<Rightarrow> int wio" where
  "recv_int_reply B fd =
     bnd (read_line fd) (\<lambda>line.
       if line = [] then throw (protocol_error ''invalid integer reply; empty'')
       else if hd line \<noteq> CHR '':'' then throw (protocol_error ''unexpected prefix for integer reply'')
       else lift_res (cast (cast_long B) (tl line)))"

definition recv_int_ok_reply :: "boost \<Rightarrow> int \<Rightarrow> unit wio" where
  "recv_int_ok_reply B fd =
     bnd (recv_int_reply B fd) (\<lambda>i.
       if i \<noteq> 1 then throw (protocol_error ''expecting int reply of 1'') else ret ())"

definition reply_type_of :: "char \<Rightarrow> reply_t res" where
  "reply_type_of c =
     (if c = CHR ''+'' then Ret status_code_reply
      else if c = CHR ''-'' then Ret error_reply
      else if c = CHR '':'' then Ret int_reply
      else if c = CHR ''$'' then Ret bulk_reply
      else if c = CHR ''*'' then Ret multi_bulk_reply
      else Throw (runtime_error ''invalid/unknown rely type from redis server''))"

definition next_reply_type :: "int \<Rightarrow> reply_t wio" where
  "next_reply_type fd = bnd (recv_or_throw fd 1 True) (\<lambda>bs. lift_res (reply_type_of (hd bs)))"

text \<open>\<^verbatim>\<open>substr(pos)\<close> throws when the string is shorter.\<close>

definition substr_from :: "nat \<Rightarrow> string \<Rightarrow> string res" where
  "substr_from pos s = (if length s < pos then Throw (out_of_range ''invalid string position'') else Ret (drop pos s))"

definition recv_reply_of :: "boost \<Rightarrow> int \<Rightarrow> reply_t \<Rightarrow> reply_data wio" where
  "recv_reply_of B fd t =
     (case t of
        status_code_reply \<Rightarrow>
          bnd (read_line fd) (\<lambda>l. bnd (lift_res (substr_from 1 l)) (\<lambda>s. ret (t, Str s)))
      | error_reply \<Rightarrow>
          bnd (read_line fd) (\<lambda>l. bnd (lift_res (substr_from (length ERR) l)) (\<lambda>s. ret (t, Str s)))
      | int_reply \<Rightarrow> bnd (recv_int_reply B fd) (\<lambda>i. ret (t, IntV i))
      | bulk_reply \<Rightarrow> bnd (recv_bulk_reply B fd) (\<lambda>s. ret (t, Str s))
      | multi_bulk_reply \<Rightarrow> bnd (recv_multi_bulk_reply B fd []) (\<lambda>(n, v). ret (t, Vec v))
      | no_reply \<Rightarrow> abort AssertFailed)"

definition recv_generic_reply :: "boost \<Rightarrow> int \<Rightarrow> reply_data wio" where
  "recv_generic_reply B fd = bnd (next_reply_type fd) (recv_reply_of B fd)"

section \<open>Text utilities\<close>

text \<open>
  \<^verbatim>\<open>getline\<close> until the stream is at its end: a delimiter at the very end of the text starts no
  further element. The result also counts the elements.
\<close>

function split :: "string \<Rightarrow> char \<Rightarrow> string list" where
  "split str delim =
     (if str = [] then []
      else takeWhile (\<lambda>c. c \<noteq> delim) str # split (drop 1 (dropWhile (\<lambda>c. c \<noteq> delim) str)) delim)"
  by pat_completeness auto
termination
proof (relation "measure (\<lambda>(str, d). length str)", simp, goal_cases)
  case (1 str delim)
  have "length (dropWhile (\<lambda>c. c \<noteq> delim) str) \<le> length str" by (rule length_dropWhile_le)
  with 1 show ?case by (cases str) auto
qed

declare split.simps [simp del]

definition split_lines :: "string \<Rightarrow> string list" where
  "split_lines str = map (rtrim is_ws) (split str (CHR 0x0A))"

end
