(* ===== verification/RedisReplies.thy ===== *)
theory RedisReplies
  imports RedisWire
begin

text \<open>
  What the reply readers of \<open>RedisWire\<close> promise, under one contract: from a socket whose stream
  starts with the text of a reply, in whatever segmentation it arrives and however often the calls
  are interrupted, a reader returns the value, takes exactly that text off the stream and touches
  nothing else. The contract is proved for each reader; what follows from it, the reading of
  pipelined replies, is proved once. Requests are the other direction: a reference parser reads
  back what \<^verbatim>\<open>makecmd\<close> writes.
\<close>

section \<open>One receive\<close>

lemma recv_or_throw_pending:
  assumes "pending w fd \<noteq> []" "0 < n"
  shows "\<exists>bs w'. recv_or_throw fd n peek w = (Ret bs, w') \<and> bs \<noteq> [] \<and> length bs \<le> n \<and>
    bs = take (length bs) (pending w fd) \<and>
    pending w' fd = (if peek then pending w fd else drop (length bs) (pending w fd)) \<and>
    same_but_incoming fd w w'"
  using assms
proof (induction fd n peek w rule: recv_or_throw.induct)
  case (1 fd n peek w)
  from sock_recv_pending [OF "1.prems"(1), of n peek] show ?case
  proof (elim disjE exE conjE)
    fix bs w' assume recv: "sock_recv fd n peek w = (Got bs, w')"
    with sock_recv_Got [OF recv] sock_recv_frame [OF recv] "1.prems"(2) show ?thesis
      by (subst recv_or_throw.simps) auto
  next
    fix w' assume recv: "sock_recv fd n peek w = (RecvError EINTR, w')" and same: "pending w' fd = pending w fd"
    have eq: "recv_or_throw fd n peek w = recv_or_throw fd n peek w'"
      using recv by (subst recv_or_throw.simps) simp
    from "1.IH" [OF recv [symmetric] refl refl] "1.prems" same obtain bs w'' where
      "recv_or_throw fd n peek w' = (Ret bs, w'')" "bs \<noteq> [] \<and> length bs \<le> n \<and> bs = take (length bs) (pending w fd)"
      "pending w'' fd = (if peek then pending w fd else drop (length bs) (pending w fd))"
      "same_but_incoming fd w' w''" by metis
    with sock_recv_frame [OF recv] show ?thesis
      unfolding eq by (intro exI [of _ bs] exI [of _ w'']) (auto intro: same_but_incoming_trans)
  qed
qed

lemma recv_or_throw_after_peek:
  assumes "recv_or_throw fd n True w = (Ret bs, w1)" "0 < m" "m \<le> length bs"
  shows "\<exists>w2. recv_or_throw fd m False w1 = (Ret (take m bs), w2) \<and> pending w2 fd = drop m (pending w fd) \<and>
    same_but_incoming fd w w2"
  using assms
proof (induction fd n "True" w rule: recv_or_throw.induct)
  case (1 fd n w)
  obtain r w' where recv: "sock_recv fd n True w = (r, w')" by (cases "sock_recv fd n True w")
  note unf = recv_or_throw.simps [of fd n True w]
  show ?case
  proof (cases r)
    case (Got cs)
    with "1.prems"(1) recv have eq: "cs = bs" "w1 = w'" by (auto simp: unf split: if_splits)
    from sock_recv_after_peek [of fd n w bs w1 m] recv Got eq "1.prems" obtain w2 where
      w2: "sock_recv fd m False w1 = (Got (take m bs), w2)" "pending w2 fd = drop m (pending w fd)" by auto
    have "take m bs \<noteq> []" using "1.prems" by auto
    with w2 have "recv_or_throw fd m False w1 = (Ret (take m bs), w2)"
      by (subst recv_or_throw.simps) simp
    with w2 eq sock_recv_frame [OF w2(1)] sock_recv_frame [OF recv] show ?thesis
      by (auto intro: same_but_incoming_trans)
  next
    case (RecvError e)
    with "1.prems"(1) recv have e: "e = EINTR" and rec: "recv_or_throw fd n True w' = (Ret bs, w1)"
      by (auto simp: unf split: if_splits)
    have "pending w' fd = pending w fd" using recv RecvError e by (intro pending_interrupted) simp
    with "1.hyps" [OF recv [symmetric] RecvError e rec "1.prems"(2,3)] sock_recv_frame [OF recv] show ?thesis
      by (auto intro: same_but_incoming_trans)
  qed (use "1.prems"(1) recv in \<open>auto simp: unf\<close>)
qed

section \<open>Lines and blocks\<close>

lemma up_to_eol_prefix:
  assumes "bs = take (length bs) (line @ CHR 0x0A # rest)" "CHR 0x0A \<notin> set line"
  shows "if CHR 0x0A \<in> set bs then up_to_eol bs = line @ [CHR 0x0A] \<and> length line < length bs
    else up_to_eol bs = bs \<and> bs = take (length bs) line \<and> length bs \<le> length line"
proof (cases "length bs \<le> length line")
  case True
  with assms have "bs = take (length bs) line" by simp
  moreover from this assms(2) have "CHR 0x0A \<notin> set bs" by (metis in_set_takeD)
  ultimately show ?thesis using True by (auto simp: up_to_eol_def takeWhile_eq_all_conv)
next
  case False
  then obtain k where "length bs = length line + Suc k" by (metis add_Suc_right less_imp_add_positive not_le gr0_implies_Suc)
  with assms(1) have "bs = line @ CHR 0x0A # take k rest" by simp
  moreover have "takeWhile (\<lambda>c. c \<noteq> CHR 0x0A) (line @ CHR 0x0A # take k rest) = line"
    using assms(2) by (intro takeWhile_append_stop) auto
  ultimately show ?thesis using False by (simp add: up_to_eol_def)
qed

lemma read_line_loop_law:
  assumes "pending w fd = line @ CHR 0x0A # rest" "CHR 0x0A \<notin> set line"
  shows "\<exists>w'. read_line_loop fd oss w = (Ret (oss @ line @ [CHR 0x0A]), w') \<and> pending w' fd = rest \<and>
    same_but_incoming fd w w'"
  using assms
proof (induction "length line" arbitrary: line w oss rule: less_induct)
  case less
  have "pending w fd \<noteq> []" using less.prems by simp
  from recv_or_throw_pending [OF this, of 64 True] obtain bs w1 where
    peek: "recv_or_throw fd 64 True w = (Ret bs, w1)" "bs \<noteq> []" "bs = take (length bs) (pending w fd)" by auto
  note cut = up_to_eol_prefix [OF peek(3) [unfolded less.prems(1)] less.prems(2)]
  let ?out = "up_to_eol bs"
  have "0 < length ?out" "length ?out \<le> length bs" using cut peek(2) by (auto split: if_splits)
  from recv_or_throw_after_peek [OF peek(1) this] obtain w2 where
    w2: "recv_or_throw fd (length ?out) False w1 = (Ret (take (length ?out) bs), w2)"
      "pending w2 fd = drop (length ?out) (pending w fd)" "same_but_incoming fd w w2" by blast
  show ?case
  proof (cases "CHR 0x0A \<in> set bs")
    case True
    then have "?out = line @ [CHR 0x0A]" using cut by simp
    with True w2 peek(1) less.prems(1) show ?thesis
      by (subst read_line_loop.simps) (simp add: Let_def)
  next
    case False
    then have out: "?out = bs" "bs = take (length bs) line" "length bs \<le> length line" using cut by auto
    let ?line = "drop (length bs) line"
    have split: "line = bs @ ?line" using out(2) by (metis append_take_drop_id)
    have pend: "pending w2 fd = ?line @ CHR 0x0A # rest" using w2(2) out less.prems(1) by simp
    have "length ?line < length line" using peek(2) out(3) by (cases bs) auto
    moreover have "CHR 0x0A \<notin> set ?line" using less.prems(2) by (meson in_set_dropD)
    ultimately obtain w' where rec: "read_line_loop fd (oss @ bs) w2 = (Ret ((oss @ bs) @ ?line @ [CHR 0x0A]), w')"
      "pending w' fd = rest" "same_but_incoming fd w2 w'" using less.hyps pend by blast
    have "read_line_loop fd oss w = read_line_loop fd (oss @ bs) w2"
      using peek(1) w2(1) out(1) False by (subst read_line_loop.simps) (simp add: Let_def)
    with rec w2(3) split show ?thesis
      by (metis append.assoc same_but_incoming_trans)
  qed
qed

definition line_ok :: "string \<Rightarrow> bool" where
  "line_ok l \<longleftrightarrow> CHR 0x0A \<notin> set l \<and> (l = [] \<or> last l \<noteq> CHR 0x0D)"

lemma rtrim_lbr: "line_ok l \<Longrightarrow> rtrim is_lbr (l @ LBR) = l"
proof -
  assume ok: "line_ok l"
  show ?thesis
  proof (cases l rule: rev_cases)
    case (snoc ys y)
    with ok have "\<not> is_lbr y" by (auto simp: line_ok_def is_lbr_def)
    with snoc show ?thesis by (simp add: rtrim_def LBR_def is_lbr_def)
  qed (simp add: rtrim_def LBR_def is_lbr_def)
qed

lemma read_line_law:
  assumes "line_ok l" "0 < fd" "pending w fd = l @ LBR @ rest"
  shows "\<exists>w'. read_line fd w = (Ret l, w') \<and> pending w' fd = rest \<and> same_but_incoming fd w w'"
proof -
  have "pending w fd = (l @ [CHR 0x0D]) @ CHR 0x0A # rest" "CHR 0x0A \<notin> set (l @ [CHR 0x0D])"
    using assms by (simp_all add: LBR_def line_ok_def)
  from read_line_loop_law [OF this, of "[]"] obtain w' where
    "read_line_loop fd [] w = (Ret (l @ LBR), w')" "pending w' fd = rest" "same_but_incoming fd w w'"
    by (auto simp: LBR_def)
  with assms(2) rtrim_lbr [OF assms(1)] show ?thesis by (simp add: read_line_def)
qed

lemma read_n_loop_law:
  assumes "pending w fd = data @ rest" "length buf + length data = n"
  shows "\<exists>w'. read_n_loop fd n buf w = (Ret (buf @ data), w') \<and> pending w' fd = rest \<and> same_but_incoming fd w w'"
  using assms
proof (induction "length data" arbitrary: data buf w rule: less_induct)
  case less
  show ?case
  proof (cases "data = []")
    case True
    with less.prems show ?thesis by (subst read_n_loop.simps) auto
  next
    case False
    then have "pending w fd \<noteq> []" "0 < n - length buf" using less.prems by auto
    from recv_or_throw_pending [OF this, of False] obtain bs w1 where
      r: "recv_or_throw fd (n - length buf) False w = (Ret bs, w1)" "bs \<noteq> []" "length bs \<le> n - length buf"
        "bs = take (length bs) (pending w fd)" "pending w1 fd = drop (length bs) (pending w fd)"
        "same_but_incoming fd w w1" by auto
    have le: "length bs \<le> length data" using r(3) less.prems(2) by simp
    let ?d = "drop (length bs) data"
    have split: "data = bs @ ?d" using r(4) le less.prems(1) by (metis append_take_drop_id take_append diff_is_0_eq append_Nil2 take0)
    have "length ?d < length data" using r(2) le by (cases bs) auto
    moreover have "pending w1 fd = ?d @ rest" using r(5) le less.prems(1) by simp
    moreover have "length (buf @ bs) + length ?d = n" using less.prems(2) le by simp
    ultimately obtain w' where "read_n_loop fd n (buf @ bs) w1 = (Ret ((buf @ bs) @ ?d), w')" "pending w' fd = rest"
      "same_but_incoming fd w1 w'" using less.hyps by blast
    moreover have "read_n_loop fd n buf w = read_n_loop fd n (buf @ bs) w1"
      using r(1) less.prems(2) False by (subst read_n_loop.simps) auto
    ultimately show ?thesis using split r(6) by (metis append.assoc same_but_incoming_trans)
  qed
qed

section \<open>The contract\<close>

text \<open>
  A reader of replies, with the text of a reply and what the reader makes of it: a value or an
  exception. Either way exactly that text is taken off the stream.
\<close>

locale wire_result =
  fixes recv :: "int \<Rightarrow> 'a wio" and render :: "'w \<Rightarrow> string" and outcome :: "'w \<Rightarrow> 'a res" and ok :: "'w \<Rightarrow> bool"
  assumes recv_outcome: "ok x \<Longrightarrow> 0 < fd \<Longrightarrow> pending w fd = render x @ rest \<Longrightarrow>
    \<exists>w'. recv fd w = (outcome x, w') \<and> pending w' fd = rest \<and> same_but_incoming fd w w'"

text \<open>A reader that returns a value.\<close>

locale wire_value =
  fixes recv :: "int \<Rightarrow> 'a wio" and render :: "'w \<Rightarrow> string" and val :: "'w \<Rightarrow> 'a" and ok :: "'w \<Rightarrow> bool"
  assumes recv_val: "ok x \<Longrightarrow> 0 < fd \<Longrightarrow> pending w fd = render x @ rest \<Longrightarrow>
    \<exists>w'. recv fd w = (Ret (val x), w') \<and> pending w' fd = rest \<and> same_but_incoming fd w w'"
begin

text \<open>Pipelined replies come back one by one, in order.\<close>

lemma recv_pipelined:
  assumes "list_all ok xs" "0 < fd" "pending w fd = concat (map render xs) @ rest"
  shows "\<exists>w'. collect (\<lambda>_. recv fd) xs w = (Ret (map val xs), w') \<and> pending w' fd = rest \<and> same_but_incoming fd w w'"
  using assms
proof (induction xs arbitrary: w)
  case (Cons x xs)
  then have "pending w fd = render x @ concat (map render xs) @ rest" by simp
  from recv_val [OF _ \<open>0 < fd\<close> this] Cons.prems(1) obtain w1 where
    w1: "recv fd w = (Ret (val x), w1)" "pending w1 fd = concat (map render xs) @ rest" "same_but_incoming fd w w1" by auto
  from Cons.IH [OF _ \<open>0 < fd\<close> w1(2)] Cons.prems(1) obtain w2 where
    "collect (\<lambda>_. recv fd) xs w1 = (Ret (map val xs), w2)" "pending w2 fd = rest" "same_but_incoming fd w1 w2" by auto
  with w1 show ?case by (auto intro: same_but_incoming_trans)
qed simp

end

sublocale wire_value \<subseteq> wire_result recv render "\<lambda>x. Ret (val x)" ok
  by unfold_locales (rule recv_val)

text \<open>A reader that returns what was written.\<close>

locale wire_reader =
  fixes recv :: "int \<Rightarrow> 'a wio" and render :: "'a \<Rightarrow> string" and ok :: "'a \<Rightarrow> bool"
  assumes recv_law: "ok x \<Longrightarrow> 0 < fd \<Longrightarrow> pending w fd = render x @ rest \<Longrightarrow>
    \<exists>w'. recv fd w = (Ret x, w') \<and> pending w' fd = rest \<and> same_but_incoming fd w w'"

sublocale wire_reader \<subseteq> wire_value recv render "\<lambda>x. x" ok
  by unfold_locales (rule recv_law)

section \<open>The readers\<close>

definition status_line :: "string \<Rightarrow> string" where
  "status_line s = ''+'' @ s @ LBR"

definition int_line :: "int \<Rightarrow> string" where
  "int_line i = '':'' @ show_int i @ LBR"

definition multi_bulk :: "string list \<Rightarrow> string" where
  "multi_bulk xs = ''*'' @ show_nat (length xs) @ LBR @ concat (map bulk xs)"

definition bulk_ok :: "string \<Rightarrow> bool" where
  "bulk_ok s \<longleftrightarrow> int (length s) + 2 < 2 ^ 31"

definition multi_ok :: "string list \<Rightarrow> bool" where
  "multi_ok xs \<longleftrightarrow> list_all bulk_ok xs \<and> length xs \<le> 153391689"

lemma multi_ok_code [code]: "multi_ok xs \<longleftrightarrow> list_all bulk_ok xs \<and> int (length xs) \<le> 153391689"
  by (auto simp: multi_ok_def)

lemma line_ok_show_int: "line_ok (c # show_int i)" if "c \<noteq> CHR 0x0A" "c \<noteq> CHR 0x0D"
  using that show_int_no_crlf [of _ i] last_in_set [OF show_int_nonempty, of i]
  unfolding line_ok_def by auto

lemma show_int_nat: "show_int (int n) = show_nat n"
  by (simp add: show_int_def)

lemma boost_okD:
  assumes "boost_ok B"
  shows "show_long B i = show_int i" "show_uint B n = show_nat n" "show_literal B s = s"
    "long_range j \<Longrightarrow> cast_long B (show_int j) = Some j" "0 < m \<Longrightarrow> die B m < m"
  using assms by (auto simp: boost_ok_def)

interpretation status_r: wire_reader recv_single_line_reply status_line line_ok
proof
  fix x fd w rest assume *: "line_ok x" "0 < fd" "pending w fd = status_line x @ rest"
  then have "line_ok (CHR ''+'' # x)" by (auto simp: line_ok_def)
  moreover have "status_of (CHR ''+'' # x) = Ret x" by (simp add: status_of_def ERR_def)
  ultimately show "\<exists>w'. recv_single_line_reply fd w = (Ret x, w') \<and> pending w' fd = rest \<and> same_but_incoming fd w w'"
    using read_line_law [of "CHR ''+'' # x" fd w rest] * by (auto simp: recv_single_line_reply_def status_line_def)
qed

interpretation ok_r: wire_reader recv_ok_reply "\<lambda>_. status_line ''OK''" "\<lambda>_. True"
proof
  fix x :: unit and fd w rest assume "0 < fd" "pending w fd = status_line ''OK'' @ rest"
  moreover have "line_ok ''OK''" by (simp add: line_ok_def)
  ultimately show "\<exists>w'. recv_ok_reply fd w = (Ret x, w') \<and> pending w' fd = rest \<and> same_but_incoming fd w w'"
    using status_r.recv_law [of "''OK''" fd w rest] by (auto simp: recv_ok_reply_def)
qed

lemma read_int_line:
  assumes "c \<noteq> CHR 0x0A" "c \<noteq> CHR 0x0D" "0 < fd" "pending w fd = c # show_int i @ LBR @ rest"
  shows "\<exists>w'. read_line fd w = (Ret (c # show_int i), w') \<and> pending w' fd = rest \<and> same_but_incoming fd w w'"
  using read_line_law [OF line_ok_show_int [OF assms(1,2)] assms(3)] assms(4) by simp

interpretation int_r: wire_reader "recv_int_reply B" int_line "\<lambda>i. boost_ok B \<and> long_range i" for B
proof
  fix x fd w rest assume *: "boost_ok B \<and> long_range x" "0 < fd" "pending w fd = int_line x @ rest"
  from read_int_line [of "CHR '':''" fd w x rest] * show
    "\<exists>w'. recv_int_reply B fd w = (Ret x, w') \<and> pending w' fd = rest \<and> same_but_incoming fd w w'"
    by (auto simp: recv_int_reply_def int_line_def cast_def boost_okD)
qed

interpretation int_ok_r: wire_reader "recv_int_ok_reply B" "\<lambda>_. int_line 1" "\<lambda>_. boost_ok B" for B
proof
  fix x :: unit and fd w rest assume "boost_ok B" "0 < fd" "pending w fd = int_line 1 @ rest"
  moreover have "long_range 1" by (simp add: long_range_def)
  ultimately show "\<exists>w'. recv_int_ok_reply B fd w = (Ret x, w') \<and> pending w' fd = rest \<and> same_but_incoming fd w w'"
    using int_r.recv_law [of B 1 fd w rest] by (auto simp: recv_int_ok_reply_def)
qed

interpretation int_any_r: wire_result "recv_int_ok_reply B" int_line
  "\<lambda>i. if i = 1 then Ret () else Throw (protocol_error ''expecting int reply of 1'')" "\<lambda>i. boost_ok B \<and> long_range i" for B
proof
  fix i fd w rest assume "boost_ok B \<and> long_range i" "0 < fd" "pending w fd = int_line i @ rest"
  from int_r.recv_law [OF this] show "\<exists>w'. recv_int_ok_reply B fd w =
      (if i = 1 then Ret () else Throw (protocol_error ''expecting int reply of 1''), w') \<and> pending w' fd = rest \<and> same_but_incoming fd w w'"
    by (auto simp: recv_int_ok_reply_def)
qed

text \<open>The template for integers of any type gives what its conversion makes of the decimal text.\<close>

interpretation int_T_r: wire_result "recv_int_reply_T conv" int_line "\<lambda>i. cast conv (show_int i)" "\<lambda>_. True" for conv
proof
  fix i fd w rest assume "0 < fd" "pending w fd = int_line i @ rest"
  with read_int_line [of "CHR '':''" fd w i rest] show "\<exists>w'. recv_int_reply_T conv fd w = (cast conv (show_int i), w') \<and>
      pending w' fd = rest \<and> same_but_incoming fd w w'"
    by (auto simp: recv_int_reply_T_def int_line_def)
qed

lemma recv_bulk_length_law:
  assumes "boost_ok B" "long_range i" "c \<noteq> CHR 0x0A" "c \<noteq> CHR 0x0D" "0 < fd"
    "pending w fd = c # show_int i @ LBR @ rest"
  shows "\<exists>w'. recv_bulk_length B fd c w = (Ret i, w') \<and> pending w' fd = rest \<and> same_but_incoming fd w w'"
  using read_int_line [OF assms(3-6)] assms(1,2) by (auto simp: recv_bulk_length_def cast_def boost_okD)

interpretation bulk_r: wire_reader "recv_bulk_reply B" bulk "\<lambda>s. boost_ok B \<and> bulk_ok s" for B
proof
  fix x fd w rest assume *: "boost_ok B \<and> bulk_ok x" "0 < fd" "pending w fd = bulk x @ rest"
  have len: "long_range (int (length x))" "long_range (int (length x) + 2)"
    using * by (auto simp: long_range_def bulk_ok_def)
  have "pending w fd = CHR ''$'' # show_int (int (length x)) @ LBR @ (x @ LBR) @ rest"
    using * by (simp add: bulk_def show_int_nat)
  from recv_bulk_length_law [OF _ len(1) _ _ _ this] * obtain w1 where
    w1: "recv_bulk_length B fd (CHR ''$'') w = (Ret (int (length x)), w1)" "pending w1 fd = (x @ LBR) @ rest"
      "same_but_incoming fd w w1" by auto
  have L: "length (x @ LBR) = length x + 2" by (simp add: LBR_def)
  from read_n_loop_law [OF w1(2), of "[]" "length x + 2"] L obtain w2 where
    w2: "read_n_loop fd (length x + 2) [] w1 = (Ret (x @ LBR), w2)" "pending w2 fd = rest"
      "same_but_incoming fd w1 w2" by auto
  have "nat (int (length x) + 2) = length x + 2" by simp
  then have "read_n fd (int (length x) + 2) w1 = (Ret (x @ LBR), w2)"
    using w2(1) by (simp add: read_n_def)
  then show "\<exists>w'. recv_bulk_reply B fd w = (Ret x, w') \<and> pending w' fd = rest \<and> same_but_incoming fd w w'"
    using w1 w2 L len(2) by (auto simp: recv_bulk_reply_def Let_def wrap_long_id LBR_def intro: same_but_incoming_trans)
qed

text \<open>A value on the wire may be missing: the bulk reply with length -1.\<close>

definition opt_bulk :: "string option \<Rightarrow> string" where
  "opt_bulk v = (case v of None \<Rightarrow> ''$'' @ show_int (- 1) @ LBR | Some s \<Rightarrow> bulk s)"

definition opt_value :: "string option \<Rightarrow> string" where
  "opt_value v = (case v of None \<Rightarrow> missing_value | Some s \<Rightarrow> s)"

definition opt_ok :: "string option \<Rightarrow> bool" where
  "opt_ok v = (case v of None \<Rightarrow> True | Some s \<Rightarrow> bulk_ok s)"

interpretation opt_r: wire_value "recv_bulk_reply B" opt_bulk opt_value "\<lambda>v. boost_ok B \<and> opt_ok v" for B
proof
  fix v fd w rest assume *: "boost_ok B \<and> opt_ok v" "0 < fd" "pending w fd = opt_bulk v @ rest"
  have "long_range (- 1)" by (simp add: long_range_def)
  with recv_bulk_length_law [of B "- 1" "CHR ''$''" fd w rest] bulk_r.recv_law [of B _ fd w rest] *
  show "\<exists>w'. recv_bulk_reply B fd w = (Ret (opt_value v), w') \<and> pending w' fd = rest \<and> same_but_incoming fd w w'"
    by (cases v) (auto simp: recv_bulk_reply_def opt_bulk_def opt_value_def opt_ok_def)
qed

lemma recv_opt_bulks_law:
  assumes "boost_ok B" "list_all opt_ok vs" "0 < fd" "pending w fd = concat (map opt_bulk vs) @ rest"
  shows "\<exists>w'. recv_bulks B fd (length vs) out w = (Ret (out @ map opt_value vs), w') \<and> pending w' fd = rest \<and>
    same_but_incoming fd w w'"
  using assms
proof (induction vs arbitrary: w out)
  case (Cons v vs)
  then have "pending w fd = opt_bulk v @ concat (map opt_bulk vs) @ rest" by simp
  from opt_r.recv_val [OF _ \<open>0 < fd\<close> this, of B] Cons.prems(1,2) obtain w1 where
    w1: "recv_bulk_reply B fd w = (Ret (opt_value v), w1)" "pending w1 fd = concat (map opt_bulk vs) @ rest"
      "same_but_incoming fd w w1" by auto
  from Cons.IH [OF Cons.prems(1) _ \<open>0 < fd\<close> w1(2), of "out @ [opt_value v]"] Cons.prems(2) w1 show ?case
    by (auto intro: same_but_incoming_trans)
qed simp

lemma recv_bulks_law:
  assumes "boost_ok B" "list_all bulk_ok xs" "0 < fd" "pending w fd = concat (map bulk xs) @ rest"
  shows "\<exists>w'. recv_bulks B fd (length xs) out w = (Ret (out @ xs), w') \<and> pending w' fd = rest \<and>
    same_but_incoming fd w w'"
  using recv_opt_bulks_law [OF assms(1) _ assms(3), of "map Some xs" w rest out] assms(2,4)
  by (simp add: comp_def opt_bulk_def opt_value_def opt_ok_def list_all_iff)

lemma multi_bulk_head:
  assumes "boost_ok B" "multi_ok xs" "0 < fd" "pending w fd = multi_bulk xs @ rest"
  shows "\<exists>w'. recv_bulk_length B fd (CHR ''*'') w = (Ret (int (length xs)), w') \<and>
    pending w' fd = concat (map bulk xs) @ rest \<and> same_but_incoming fd w w'"
proof -
  have "long_range (int (length xs))" using assms(2) by (simp add: multi_ok_def long_range_def)
  then show ?thesis
    using recv_bulk_length_law [of B "int (length xs)" "CHR ''*''" fd w "concat (map bulk xs) @ rest"] assms
    by (simp add: multi_bulk_def show_int_nat)
qed

text \<open>Into an empty vector.\<close>

interpretation multi_r: wire_reader "\<lambda>fd. recv_multi_bulk_reply B fd []" "\<lambda>(n, xs). multi_bulk xs"
  "\<lambda>(n, xs). boost_ok B \<and> multi_ok xs \<and> n = int (length xs)" for B
proof
  fix x fd w rest
  assume *: "case x of (n, xs) \<Rightarrow> boost_ok B \<and> multi_ok xs \<and> n = int (length xs)" "0 < fd"
    "pending w fd = (case x of (n, xs) \<Rightarrow> multi_bulk xs) @ rest"
  obtain n xs where x: "x = (n, xs)" by (cases x)
  from multi_bulk_head [of B xs fd w rest] * x obtain w1 where
    w1: "recv_bulk_length B fd (CHR ''*'') w = (Ret n, w1)" "pending w1 fd = concat (map bulk xs) @ rest"
      "same_but_incoming fd w w1" by auto
  have "vec_reserve 0 n w1 = (Ret (), w1)"
    using * x by (simp add: vec_reserve_def multi_ok_def to_u32_nonneg)
  moreover from recv_bulks_law [of B xs fd w1 rest "[]"] * x w1(2) obtain w2 where
    "recv_bulks B fd (nat n) [] w1 = (Ret xs, w2)" "pending w2 fd = rest" "same_but_incoming fd w1 w2"
    by (auto simp: multi_ok_def)
  ultimately show "\<exists>w'. recv_multi_bulk_reply B fd [] w = (Ret x, w') \<and> pending w' fd = rest \<and> same_but_incoming fd w w'"
    using w1 * x by (auto simp: recv_multi_bulk_reply_def intro: same_but_incoming_trans)
qed

text \<open>Into a set: the elements, sorted and without repetition.\<close>

lemma recv_bulks_set_law:
  assumes "boost_ok B" "list_all bulk_ok xs" "0 < fd" "pending w fd = concat (map bulk xs) @ rest"
  shows "\<exists>w'. recv_bulks_set B fd (length xs) out w = (Ret (foldl (\<lambda>o' x. insort_insert x o') out xs), w') \<and>
    pending w' fd = rest \<and> same_but_incoming fd w w'"
  using assms
proof (induction xs arbitrary: w out)
  case (Cons x xs)
  then have "pending w fd = bulk x @ concat (map bulk xs) @ rest" by simp
  from bulk_r.recv_law [OF _ \<open>0 < fd\<close> this, of B] Cons.prems(1,2) obtain w1 where
    w1: "recv_bulk_reply B fd w = (Ret x, w1)" "pending w1 fd = concat (map bulk xs) @ rest"
      "same_but_incoming fd w w1" by auto
  from Cons.IH [OF Cons.prems(1) _ \<open>0 < fd\<close> w1(2), of "insort_insert x out"] Cons.prems(2) w1 show ?case
    by (auto intro: same_but_incoming_trans)
qed simp

definition string_set :: "string list \<Rightarrow> string list" where
  "string_set xs = foldl (\<lambda>o' x. insort_insert x o') [] xs"

lemma foldl_insort_insert:
  "sorted ys \<Longrightarrow> distinct ys \<Longrightarrow>
     sorted (foldl (\<lambda>o' x. insort_insert x o') ys xs) \<and> distinct (foldl (\<lambda>o' x. insort_insert x o') ys xs) \<and>
     set (foldl (\<lambda>o' x. insort_insert x o') ys xs) = set ys \<union> set xs"
  by (induction xs arbitrary: ys) (auto simp: sorted_insort_insert distinct_insort_insert set_insort_insert)

lemma string_set: "sorted (string_set xs)" "distinct (string_set xs)" "set (string_set xs) = set xs"
  using foldl_insort_insert [of "[]" xs] by (auto simp: string_set_def)

interpretation set_r: wire_value "\<lambda>fd. recv_multi_bulk_reply_set B fd []" multi_bulk
  "\<lambda>xs. (int (length xs), string_set xs)" "\<lambda>xs. boost_ok B \<and> multi_ok xs" for B
proof
  fix xs fd w rest assume *: "boost_ok B \<and> multi_ok xs" "0 < fd" "pending w fd = multi_bulk xs @ rest"
  from multi_bulk_head [of B xs fd w rest] * obtain w1 where
    w1: "recv_bulk_length B fd (CHR ''*'') w = (Ret (int (length xs)), w1)"
      "pending w1 fd = concat (map bulk xs) @ rest" "same_but_incoming fd w w1" by auto
  from recv_bulks_set_law [OF _ _ *(2) w1(2), of B "[]"] *(1) obtain w2 where
    "recv_bulks_set B fd (length xs) [] w1 = (Ret (string_set xs), w2)" "pending w2 fd = rest"
    "same_but_incoming fd w1 w2" by (auto simp: multi_ok_def string_set_def)
  with w1 show "\<exists>w'. recv_multi_bulk_reply_set B fd [] w = (Ret (int (length xs), string_set xs), w') \<and>
      pending w' fd = rest \<and> same_but_incoming fd w w'"
    by (auto simp: recv_multi_bulk_reply_set_def intro: same_but_incoming_trans)
qed

text \<open>A multi bulk reply with missing values, as \<^verbatim>\<open>MGET\<close> gets it.\<close>

definition opt_multi :: "string option list \<Rightarrow> string" where
  "opt_multi vs = ''*'' @ show_nat (length vs) @ LBR @ concat (map opt_bulk vs)"

interpretation opt_multi_r: wire_value "\<lambda>fd. recv_multi_bulk_reply B fd []" opt_multi
  "\<lambda>vs. (int (length vs), map opt_value vs)" "\<lambda>vs. boost_ok B \<and> list_all opt_ok vs \<and> length vs \<le> 153391689" for B
proof
  fix vs fd w rest
  assume *: "boost_ok B \<and> list_all opt_ok vs \<and> length vs \<le> 153391689" "0 < fd" "pending w fd = opt_multi vs @ rest"
  then have "long_range (int (length vs))" by (simp add: long_range_def)
  with recv_bulk_length_law [of B "int (length vs)" "CHR ''*''" fd w "concat (map opt_bulk vs) @ rest"] *
  obtain w1 where w1: "recv_bulk_length B fd (CHR ''*'') w = (Ret (int (length vs)), w1)"
      "pending w1 fd = concat (map opt_bulk vs) @ rest" "same_but_incoming fd w w1"
    by (auto simp: opt_multi_def show_int_nat)
  have "vec_reserve 0 (int (length vs)) w1 = (Ret (), w1)"
    using * by (simp add: vec_reserve_def to_u32_nonneg)
  with recv_opt_bulks_law [OF _ _ *(2) w1(2), of B "[]"] w1 * show "\<exists>w'. recv_multi_bulk_reply B fd [] w =
      (Ret (int (length vs), map opt_value vs), w') \<and> pending w' fd = rest \<and> same_but_incoming fd w w'"
    by (auto simp: recv_multi_bulk_reply_def intro: same_but_incoming_trans)
qed

section \<open>Refusals\<close>

text \<open>
  An error line of the server, \<open>l\<close> being what follows the minus sign. The readers of status lines
  report the message of an \<^verbatim>\<open>ERR\<close> line; all the other readers only say that the prefix was not expected.
\<close>

definition error_line :: "string \<Rightarrow> string" where
  "error_line l = CHR ''-'' # l @ LBR"

definition error_ok :: "string \<Rightarrow> bool" where
  "error_ok l \<longleftrightarrow> line_ok (CHR ''-'' # l)"

definition refusal :: "string \<Rightarrow> exn" where
  "refusal l = protocol_error
     (if take 4 l = ''ERR '' then if drop 4 l = [] then ''unknown error'' else drop 4 l
      else ''unexpected prefix for status reply'')"

lemma status_of_error: "status_of (CHR ''-'' # l) = Throw (refusal l)"
  by (simp add: status_of_def refusal_def ERR_def Let_def eval_nat_numeral)

lemma refusal_ERR: "refusal (''ERR '' @ msg) = protocol_error (if msg = [] then ''unknown error'' else msg)"
  by (simp add: refusal_def eval_nat_numeral)

lemma read_error_line:
  assumes "error_ok l" "0 < fd" "pending w fd = error_line l @ rest"
  shows "\<exists>w'. read_line fd w = (Ret (CHR ''-'' # l), w') \<and> pending w' fd = rest \<and> same_but_incoming fd w w'"
  using read_line_law [of "CHR ''-'' # l" fd w rest] assms by (simp add: error_ok_def error_line_def)

interpretation status_e: wire_result recv_single_line_reply error_line "\<lambda>l. Throw (refusal l)" error_ok
  by unfold_locales (auto dest!: read_error_line simp: recv_single_line_reply_def status_of_error)

interpretation ok_e: wire_result recv_ok_reply error_line "\<lambda>l. Throw (refusal l)" error_ok
  by unfold_locales (auto dest!: status_e.recv_outcome simp: recv_ok_reply_def)

interpretation int_e: wire_result "recv_int_reply B" error_line
  "\<lambda>l. Throw (protocol_error ''unexpected prefix for integer reply'')" error_ok for B
  by unfold_locales (auto dest!: read_error_line simp: recv_int_reply_def)

interpretation int_T_e: wire_result "recv_int_reply_T conv" error_line
  "\<lambda>l. Throw (protocol_error ''unexpected prefix for integer reply'')" error_ok for conv
  by unfold_locales (auto dest!: read_error_line simp: recv_int_reply_T_def)

interpretation int_ok_e: wire_result "recv_int_ok_reply B" error_line
  "\<lambda>l. Throw (protocol_error ''unexpected prefix for integer reply'')" error_ok for B
  by unfold_locales (auto dest!: int_e.recv_outcome [of _ _ _ _ B] simp: recv_int_ok_reply_def)

interpretation bulk_e: wire_result "recv_bulk_reply B" error_line
  "\<lambda>l. Throw (protocol_error ''unexpected prefix for bulk reply'')" error_ok for B
  by unfold_locales (auto dest!: read_error_line simp: recv_bulk_reply_def recv_bulk_length_def)

interpretation multi_e: wire_result "\<lambda>fd. recv_multi_bulk_reply B fd out" error_line
  "\<lambda>l. Throw (protocol_error ''unexpected prefix for bulk reply'')" error_ok for B out
  by unfold_locales (auto dest!: read_error_line simp: recv_multi_bulk_reply_def recv_bulk_length_def)

interpretation set_e: wire_result "\<lambda>fd. recv_multi_bulk_reply_set B fd out" error_line
  "\<lambda>l. Throw (protocol_error ''unexpected prefix for bulk reply'')" error_ok for B out
  by unfold_locales (auto dest!: read_error_line simp: recv_multi_bulk_reply_set_def recv_bulk_length_def)

text \<open>No list at all, as after a blocking pop that timed out.\<close>

definition nil_multi :: string where
  "nil_multi = ''*-1'' @ LBR"

interpretation nil_e: wire_result "\<lambda>fd. recv_multi_bulk_reply B fd out" "\<lambda>u::unit. nil_multi"
  "\<lambda>u. Throw (key_error ''no such key'')" "\<lambda>u. boost_ok B" for B out
proof
  fix u :: unit and fd w rest assume *: "boost_ok B" "0 < fd" "pending w fd = nil_multi @ rest"
  have "long_range (- 1)" "show_int (- 1) = ''-1''" by (simp add: long_range_def, code_simp)
  with recv_bulk_length_law [of B "- 1" "CHR ''*''" fd w rest] * show
    "\<exists>w'. recv_multi_bulk_reply B fd out w = (Throw (key_error ''no such key''), w') \<and> pending w' fd = rest \<and> same_but_incoming fd w w'"
    by (auto simp: recv_multi_bulk_reply_def nil_multi_def)
qed

section \<open>Replies of any type\<close>

definition render_reply :: "reply_data \<Rightarrow> string" where
  "render_reply r = (case r of
      (status_code_reply, Str s) \<Rightarrow> status_line s
    | (error_reply, Str s) \<Rightarrow> ERR @ s @ LBR
    | (int_reply, IntV i) \<Rightarrow> int_line i
    | (bulk_reply, Str s) \<Rightarrow> bulk s
    | (multi_bulk_reply, Vec xs) \<Rightarrow> multi_bulk xs
    | _ \<Rightarrow> [])"

definition reply_ok :: "reply_data \<Rightarrow> bool" where
  "reply_ok r = (case r of
      (status_code_reply, Str s) \<Rightarrow> line_ok s
    | (error_reply, Str s) \<Rightarrow> line_ok s
    | (int_reply, IntV i) \<Rightarrow> long_range i
    | (bulk_reply, Str s) \<Rightarrow> bulk_ok s
    | (multi_bulk_reply, Vec xs) \<Rightarrow> multi_ok xs
    | _ \<Rightarrow> False)"

lemma next_reply_type_law:
  assumes "pending w fd = c # rest" "reply_type_of c = Ret t"
  shows "\<exists>w'. next_reply_type fd w = (Ret t, w') \<and> pending w' fd = pending w fd \<and> same_but_incoming fd w w'"
proof -
  from recv_or_throw_pending [of w fd 1 True] assms(1) obtain bs w' where
    r: "recv_or_throw fd 1 True w = (Ret bs, w')" "bs \<noteq> []" "bs = take (length bs) (c # rest)"
      "pending w' fd = pending w fd" "same_but_incoming fd w w'" by auto
  have "hd bs = c" using r(2,3) by (cases bs) auto
  with r assms(2) show ?thesis by (simp add: next_reply_type_def)
qed

lemma reply_type_of_simps [simp]:
  "reply_type_of (CHR ''+'') = Ret status_code_reply" "reply_type_of (CHR ''-'') = Ret error_reply"
  "reply_type_of (CHR '':'') = Ret int_reply" "reply_type_of (CHR ''$'') = Ret bulk_reply"
  "reply_type_of (CHR ''*'') = Ret multi_bulk_reply"
  by (simp_all add: reply_type_of_def)

lemma recv_generic_step:
  assumes "pending w fd = c # rest'" "reply_type_of c = Ret t"
    "\<And>w1. pending w1 fd = pending w fd \<Longrightarrow>
       \<exists>w'. recv_reply_of B fd t w1 = (Ret x, w') \<and> pending w' fd = rest \<and> same_but_incoming fd w1 w'"
  shows "\<exists>w'. recv_generic_reply B fd w = (Ret x, w') \<and> pending w' fd = rest \<and> same_but_incoming fd w w'"
proof -
  from next_reply_type_law [OF assms(1,2)] obtain w1 where
    w1: "next_reply_type fd w = (Ret t, w1)" "pending w1 fd = pending w fd" "same_but_incoming fd w w1" by blast
  from assms(3) [OF w1(2)] w1 show ?thesis by (auto simp: recv_generic_reply_def intro: same_but_incoming_trans)
qed

text \<open>For each type, the reader the peeked byte selects.\<close>

lemma recv_reply_of_law:
  assumes "boost_ok B" "reply_ok r" "0 < fd" "pending w fd = render_reply r @ rest"
  shows "\<exists>w'. recv_reply_of B fd (fst r) w = (Ret r, w') \<and> pending w' fd = rest \<and> same_but_incoming fd w w'"
proof -
  obtain t v where r: "r = (t, v)" by (cases r)
  have line: "\<exists>w'. read_line fd w = (Ret (p @ s), w') \<and> pending w' fd = rest \<and> same_but_incoming fd w w'"
    if "line_ok s" "p \<noteq> []" "CHR 0x0A \<notin> set p" "CHR 0x0D \<notin> set p" "pending w fd = (p @ s) @ LBR @ rest" for p s
  proof (rule read_line_law [OF _ assms(3) that(5)])
    have "last p \<noteq> CHR 0x0D" using last_in_set [OF that(2)] that(4) by metis
    then show "line_ok (p @ s)" using that by (auto simp: line_ok_def last_append)
  qed
  show ?thesis
  proof (cases t)
    case no_reply
    then show ?thesis using assms(2) r by (simp add: reply_ok_def)
  next
    case status_code_reply
    then obtain s where "v = Str s" "line_ok s" using assms(2) r by (auto simp: reply_ok_def split: reply_val.splits)
    with line [of s "''+''"] status_code_reply assms(4) r show ?thesis
      by (auto simp: recv_reply_of_def render_reply_def status_line_def substr_from_def)
  next
    case error_reply
    then obtain s where "v = Str s" "line_ok s" using assms(2) r by (auto simp: reply_ok_def split: reply_val.splits)
    with line [of s ERR] error_reply assms(4) r show ?thesis
      by (auto simp: recv_reply_of_def render_reply_def substr_from_def ERR_def)
  next
    case int_reply
    then obtain i where "v = IntV i" "long_range i" using assms(2) r by (auto simp: reply_ok_def split: reply_val.splits)
    with int_r.recv_law [of B i fd w rest] int_reply assms r show ?thesis
      by (auto simp: recv_reply_of_def render_reply_def)
  next
    case bulk_reply
    then obtain s where "v = Str s" "bulk_ok s" using assms(2) r by (auto simp: reply_ok_def split: reply_val.splits)
    with bulk_r.recv_law [of B s fd w rest] bulk_reply assms r show ?thesis
      by (auto simp: recv_reply_of_def render_reply_def)
  next
    case multi_bulk_reply
    then obtain xs where "v = Vec xs" "multi_ok xs" using assms(2) r by (auto simp: reply_ok_def split: reply_val.splits)
    with multi_r.recv_law [of B "(int (length xs), xs)" fd w rest] multi_bulk_reply assms r show ?thesis
      by (auto simp: recv_reply_of_def render_reply_def)
  qed
qed

lemma render_reply_head:
  assumes "reply_ok r"
  shows "\<exists>c cs. render_reply r = c # cs \<and> reply_type_of c = Ret (fst r)"
  using assms
  by (auto simp: reply_ok_def render_reply_def status_line_def ERR_def int_line_def bulk_def multi_bulk_def
      split: prod.splits reply_t.splits reply_val.splits)

interpretation generic_r: wire_reader "recv_generic_reply B" render_reply "\<lambda>r. boost_ok B \<and> reply_ok r" for B
proof
  fix r fd w rest assume *: "boost_ok B \<and> reply_ok r" "0 < fd" "pending w fd = render_reply r @ rest"
  from render_reply_head [of r] * obtain c cs where c: "pending w fd = c # cs" "reply_type_of c = Ret (fst r)" by auto
  show "\<exists>w'. recv_generic_reply B fd w = (Ret r, w') \<and> pending w' fd = rest \<and> same_but_incoming fd w w'"
    by (rule recv_generic_step [OF c], rule recv_reply_of_law) (use * in auto)
qed

section \<open>Requests against a reference parser\<close>

fun parse_crlf :: "string \<Rightarrow> string option" where
  "parse_crlf (a # b # s) = (if [a, b] = LBR then Some s else None)"
| "parse_crlf s = None"

definition parse_header :: "char \<Rightarrow> string \<Rightarrow> (nat \<times> string) option" where
  "parse_header c s =
     (case s of
        [] \<Rightarrow> None
      | d # ds \<Rightarrow>
          if c = d \<and> takeWhile is_digit ds \<noteq> []
          then map_option (Pair (read_digits (takeWhile is_digit ds))) (parse_crlf (dropWhile is_digit ds))
          else None)"

definition parse_bulk :: "string \<Rightarrow> (string \<times> string) option" where
  "parse_bulk s =
     (case parse_header (CHR ''$'') s of
        None \<Rightarrow> None
      | Some (n, t) \<Rightarrow>
          if n \<le> length t then map_option (Pair (take n t)) (parse_crlf (drop n t)) else None)"

fun parse_bulks :: "nat \<Rightarrow> string \<Rightarrow> (string list \<times> string) option" where
  "parse_bulks 0 s = Some ([], s)"
| "parse_bulks (Suc n) s =
     (case parse_bulk s of
        None \<Rightarrow> None
      | Some (x, t) \<Rightarrow> map_option (\<lambda>(xs, u). (x # xs, u)) (parse_bulks n t))"

definition parse_request :: "string \<Rightarrow> (string list \<times> string) option" where
  "parse_request s = (case parse_header (CHR ''*'') s of None \<Rightarrow> None | Some (n, t) \<Rightarrow> parse_bulks n t)"

lemma parse_header_show: "parse_header c (c # show_nat n @ LBR @ s) = Some (n, s)"
proof -
  have "\<not> is_digit (CHR 0x0D)" by (simp add: is_digit_def)
  then have "takeWhile is_digit (show_nat n @ LBR @ s) = show_nat n" "dropWhile is_digit (show_nat n @ LBR @ s) = LBR @ s"
    using show_nat_digits [of n] by (simp_all add: LBR_def takeWhile_append_stop)
  then show ?thesis by (simp add: parse_header_def) (simp add: LBR_def)
qed

lemma parse_bulk_bulk: "parse_bulk (bulk x @ s) = Some (x, s)"
  using parse_header_show [of "CHR ''$''" "length x" "x @ LBR @ s"]
  by (simp add: parse_bulk_def bulk_def) (simp add: LBR_def)

lemma parse_bulks_concat: "parse_bulks (length xs) (concat (map bulk xs) @ s) = Some (xs, s)"
  by (induction xs) (simp_all add: parse_bulk_bulk)

lemma parse_request_makecmd: "parse_request (mc_string m @ s) = Some (mc_lines m, s)"
  using parse_header_show [of "CHR ''*''" "length (mc_lines m)" "concat (map bulk (mc_lines m)) @ s"]
  by (simp add: parse_request_def mc_string_def parse_bulks_concat)

lemma mc_lines_foldl [simp]: "mc_lines (foldl mc_str m args) = mc_lines m @ args"
  by (induction args arbitrary: m) (simp_all add: mc_str_def mc_append_def)

lemma mc_lines_simps [simp]:
  "mc_lines (new_makecmd n) = [n]" "mc_lines (mc_str m a) = mc_lines m @ [a]"
  "mc_lines (mc_cast sh m v) = mc_lines m @ [sh v]" "mc_lines (mc_vec m xs) = mc_lines m @ xs"
  "mc_lines (mc_append m a) = mc_lines m @ [a]"
  by (simp_all add: new_makecmd_def mc_append_def mc_str_def mc_cast_def mc_vec_def)

lemma parse_request_cmd: "parse_request (cmd n args @ s) = Some (n # args, s)"
  by (simp add: cmd_def parse_request_makecmd)

end
