(* ===== verification/RedisClient.thy ===== *)
theory RedisClient
  imports RedisReplies
begin

text \<open>
  The class \<^verbatim>\<open>base_client\<close> of src/HQTEST/redisclient.h: its connections, the choice of a server for a
  key, and the commands on connections, strings and keys (the rest are in \<open>RedisData\<close>). A command is
  written as the source has it: find the socket, send the request, read the reply. \<^verbatim>\<open>out\<close> parameters
  are taken and returned; when an exception leaves a command its partial output is not kept.
\<close>

section \<open>State\<close>

record redis =
  connections :: "connection_data list"
  sys :: os

type_synonym 'a rio = "(redis, 'a) io"

definition on_os :: "'a oio \<Rightarrow> 'a rio" where
  "on_os m s = (case m (sys s) of (r, o') \<Rightarrow> (r, s\<lparr>sys := o'\<rparr>))"

definition on_net :: "'a wio \<Rightarrow> 'a rio" where
  "on_net m s = (case m (net (sys s)) of (r, w) \<Rightarrow> (r, s\<lparr>sys := (sys s)\<lparr>net := w\<rparr>\<rparr>))"

definition send :: "int \<Rightarrow> string \<Rightarrow> unit rio" where
  "send sk msg =
     bnd (on_os (w32_anetWrite sk msg)) (\<lambda>r s.
       if r = - 1 then (Throw (connection_error (strerror (last_errno (sys s)))), s) else (Ret (), s))"

section \<open>Choosing a server\<close>

definition default_hasher :: "boost \<Rightarrow> string \<Rightarrow> connection_data list \<Rightarrow> nat res" where
  "default_hasher B key cons = (if cons = [] then Abort Undefined else Ret (hash B key mod length cons))"

definition socket_at :: "nat \<Rightarrow> int rio" where
  "socket_at i s =
     (if i < length (connections s) then (Ret (socket (connections s ! i)), s) else (Abort Undefined, s))"

definition get_socket :: "boost \<Rightarrow> string \<Rightarrow> int rio" where
  "get_socket B key s =
     (if length (connections s) = 1 then socket_at 0 s
      else bnd (lift_res (default_hasher B key (connections s))) socket_at s)"

fun common_socket :: "boost \<Rightarrow> string list \<Rightarrow> int option \<Rightarrow> int rio" where
  "common_socket B [] sk = ret (case sk of None \<Rightarrow> - 1 | Some k \<Rightarrow> k)"
| "common_socket B (key # keys) sk =
     bnd (get_socket B key) (\<lambda>cur.
       if sk \<noteq> None \<and> sk \<noteq> Some cur then ret (- 1) else common_socket B keys (Some cur))"

definition get_socket_vec :: "boost \<Rightarrow> string list \<Rightarrow> int rio" where
  "get_socket_vec B keys s =
     sq (asserting (keys \<noteq> []))
        (if length (connections s) = 1 then socket_at 0 else common_socket B keys None) s"

text \<open>The shape of most commands.\<close>

definition on_socket :: "int \<Rightarrow> string \<Rightarrow> (int \<Rightarrow> 'a wio) \<Rightarrow> 'a rio" where
  "on_socket sk msg recv = sq (send sk msg) (on_net (recv sk))"

definition on_key :: "boost \<Rightarrow> string \<Rightarrow> string \<Rightarrow> (int \<Rightarrow> 'a wio) \<Rightarrow> 'a rio" where
  "on_key B key msg recv = bnd (get_socket B key) (\<lambda>sk. on_socket sk msg recv)"

text \<open>The connections in turn, for the commands that go to all servers.\<close>

definition all_sockets :: "int list rio" where
  "all_sockets s = (Ret (map socket (connections s)), s)"

definition send_all :: "string \<Rightarrow> unit rio" where
  "send_all msg = bnd all_sockets (for_each (\<lambda>sk. send sk msg))"

text \<open>A \<^verbatim>\<open>std::map\<close> keyed by sockets, as its entries in key order.\<close>

fun map_upd :: "int \<Rightarrow> ('v option \<Rightarrow> 'v) \<Rightarrow> (int \<times> 'v) list \<Rightarrow> (int \<times> 'v) list" where
  "map_upd k f [] = [(k, f None)]"
| "map_upd k f ((k', v) # m) =
     (if k < k' then (k, f None) # (k', v) # m
      else if k = k' then (k', f (Some v)) # m
      else (k', v) # map_upd k f m)"

definition group_by_socket :: "boost \<Rightarrow> ('a \<Rightarrow> string) \<Rightarrow> ('a \<Rightarrow> 'v option \<Rightarrow> 'v) \<Rightarrow> 'a list \<Rightarrow> (int \<times> 'v) list rio" where
  "group_by_socket B keyof add xs =
     fold_io (\<lambda>x m. bnd (get_socket B (keyof x)) (\<lambda>sk. ret (map_upd sk (add x) m))) xs []"

section \<open>Connections\<close>

definition auth :: "string \<Rightarrow> connection_data \<Rightarrow> unit rio" where
  "auth pass con = on_socket (socket con) (cmd ''AUTH'' [pass]) recv_ok_reply"

definition select_con :: "boost \<Rightarrow> int \<Rightarrow> connection_data \<Rightarrow> unit rio" where
  "select_con B db con =
     sq (on_socket (socket con) (cmd ''SELECT'' [show_long B db]) recv_ok_reply)
        (\<lambda>s. (Ret (), s\<lparr>connections :=
           map (\<lambda>cur. if connection_eq cur con then cur\<lparr>dbindex := db\<rparr> else cur) (connections s)\<rparr>))"

definition init :: "names \<Rightarrow> boost \<Rightarrow> connection_data \<Rightarrow> string \<Rightarrow> connection_data rio" where
  "init N B con password =
     bnd (on_os (w32_anetTcpConnect N (Some []) (host con) (int (port con)))) (\<lambda>(sk, err).
       if sk = ANET_ERR then
         throw (connection_error
           ((case err of None \<Rightarrow> [] | Some e \<Rightarrow> e) @ '' (redis://'' @ host con @ '':'' @ show_nat (port con) @ '')''))
       else
         (let con' = con\<lparr>socket := sk\<rparr>
          in sq (on_os (w32_anetTcpNoDelay None sk))
               (sq (if password \<noteq> [] then auth password con' else ret ())
                 (sq (select_con B (dbindex con') con') (ret con')))))"

definition push_connection :: "connection_data \<Rightarrow> unit rio" where
  "push_connection con s = (Ret (), s\<lparr>connections := connections s @ [con]\<rparr>)"

definition base_client :: "names \<Rightarrow> boost \<Rightarrow> string \<Rightarrow> nat \<Rightarrow> int \<Rightarrow> string \<Rightarrow> unit rio" where
  "base_client N B h p d password = bnd (init N B (new_connection_data h p d) password) push_connection"

definition base_client_range :: "names \<Rightarrow> boost \<Rightarrow> connection_data list \<Rightarrow> unit rio" where
  "base_client_range N B cons =
     sq (for_each (\<lambda>con. bnd (init N B con []) push_connection) cons)
        (\<lambda>s. if connections s = [] then (Throw (runtime_error ''No connections given!''), s) else (Ret (), s))"

text \<open>\<^verbatim>\<open>clone\<close> makes a second client; the state returned is the new client's.\<close>

definition clone :: "names \<Rightarrow> boost \<Rightarrow> unit rio" where
  "clone N B s = base_client_range N B (connections s) (s\<lparr>connections := []\<rparr>)"

definition destroy_client :: "unit rio" where
  "destroy_client =
     bnd all_sockets (for_each (\<lambda>sk. if sk \<noteq> ANET_ERR then on_os (note_call (Close sk)) else ret ()))"

definition select :: "boost \<Rightarrow> int \<Rightarrow> unit rio" where
  "select B db =
     sq (send_all (cmd ''SELECT'' [show_long B db]))
        (\<lambda>s. for_each (\<lambda>i. bnd (socket_at i) (\<lambda>sk. sq (on_net (recv_ok_reply sk))
                (\<lambda>t. (Ret (), t\<lparr>connections := (connections t)[i := (connections t ! i)\<lparr>dbindex := db\<rparr>]\<rparr>))))
              [0..<length (connections s)] s)"

section \<open>Strings\<close>

definition client_set :: "boost \<Rightarrow> string \<Rightarrow> string \<Rightarrow> unit rio" where
  "client_set B key v = on_key B key (cmd ''SET'' [key, v]) recv_ok_reply"

text \<open>The commands of \<^verbatim>\<open>MSET\<close>, one for each socket.\<close>

definition add_pair :: "string \<Rightarrow> string \<times> string \<Rightarrow> makecmd option \<Rightarrow> makecmd" where
  "add_pair cmd_name kv m =
     mc_str (mc_str (case m of None \<Rightarrow> new_makecmd cmd_name | Some c \<Rightarrow> c) (fst kv)) (snd kv)"

text \<open>The version with two vectors asks for the socket of the whole vector in every turn.\<close>

definition client_mset_vec :: "boost \<Rightarrow> string list \<Rightarrow> string list \<Rightarrow> unit rio" where
  "client_mset_vec B keys vals =
     sq (asserting (length keys = length vals))
       (bnd (fold_io (\<lambda>kv m. bnd (get_socket_vec B keys) (\<lambda>sk. ret (map_upd sk (add_pair ''MSET'' kv) m)))
              (zip keys vals) [])
         (\<lambda>m. sq (for_each (\<lambda>(sk, c). send sk (mc_string c)) m)
                 (for_each (\<lambda>(sk, c). on_net (recv_ok_reply sk)) m)))"

definition client_mset :: "boost \<Rightarrow> (string \<times> string) list \<Rightarrow> unit rio" where
  "client_mset B kvs =
     bnd (group_by_socket B fst (add_pair ''MSET'') kvs)
       (\<lambda>m. sq (for_each (\<lambda>(sk, c). send sk (mc_string c)) m)
               (for_each (\<lambda>(sk, c). on_net (recv_ok_reply sk)) m))"

record msetex_data =
  mset_cmd :: makecmd
  expire_cmds :: string
  mcount :: nat

definition add_msetex :: "boost \<Rightarrow> int \<Rightarrow> string \<times> string \<Rightarrow> msetex_data option \<Rightarrow> msetex_data" where
  "add_msetex B seconds kv dat =
     \<lparr>mset_cmd = add_pair ''MSET'' kv (map_option mset_cmd dat),
      expire_cmds = (case dat of None \<Rightarrow> [] | Some d \<Rightarrow> expire_cmds d) @ cmd ''EXPIRE'' [fst kv, show_long B seconds],
      mcount = (case dat of None \<Rightarrow> 0 | Some d \<Rightarrow> mcount d) + 1\<rparr>"

definition client_msetex :: "boost \<Rightarrow> (string \<times> string) list \<Rightarrow> int \<Rightarrow> unit rio" where
  "client_msetex B kvs seconds =
     bnd (group_by_socket B fst (add_msetex B seconds) kvs)
       (\<lambda>m. sq (for_each (\<lambda>(sk, d). send sk (mc_string (mset_cmd d) @ expire_cmds d)) m)
               (for_each (\<lambda>(sk, d). sq (on_net (recv_ok_reply sk))
                  (for_each (\<lambda>_. on_net (recv_int_ok_reply B sk)) [0..<mcount d])) m))"

definition client_get :: "boost \<Rightarrow> string \<Rightarrow> string rio" where
  "client_get B key = on_key B key (cmd ''GET'' [key]) (recv_bulk_reply B)"

definition client_getset :: "boost \<Rightarrow> string \<Rightarrow> string \<Rightarrow> string rio" where
  "client_getset B key v = on_key B key (cmd ''GETSET'' [key, v]) (recv_bulk_reply B)"

definition recv_into :: "boost \<Rightarrow> int \<Rightarrow> command \<Rightarrow> command rio" where
  "recv_into B sk c = bnd (on_net (recv_generic_reply B sk)) (\<lambda>r. ret (set_reply c r))"

definition exec :: "boost \<Rightarrow> command \<Rightarrow> command rio" where
  "exec B c = bnd (get_socket B (hash_key c)) (\<lambda>sk. sq (send sk (request c)) (recv_into B sk c))"

definition recv_command :: "boost \<Rightarrow> command \<Rightarrow> command rio" where
  "recv_command B c = bnd (get_socket B (hash_key c)) (\<lambda>sk. recv_into B sk c)"

definition exec_vec :: "boost \<Rightarrow> command list \<Rightarrow> command list rio" where
  "exec_vec B cs =
     bnd (group_by_socket B hash_key (\<lambda>c m. (case m of None \<Rightarrow> [] | Some r \<Rightarrow> r) @ request c) cs)
       (\<lambda>m. sq (for_each (\<lambda>(sk, r). send sk r) m)
               (collect (recv_command B) cs))"

fun transaction_socket :: "boost \<Rightarrow> command list \<Rightarrow> int \<Rightarrow> int rio" where
  "transaction_socket B [] sk = ret sk"
| "transaction_socket B (c # cs) sk =
     bnd (get_socket B (hash_key c)) (\<lambda>cur.
       if sk = - 1 then transaction_socket B cs cur
       else if sk \<noteq> cur then throw (runtime_error ''calls in transaction map to different server!'')
       else transaction_socket B cs sk)"

definition expect_queued :: "int \<Rightarrow> unit rio" where
  "expect_queued sk =
     bnd (on_net (recv_single_line_reply sk)) (\<lambda>resp.
       if resp \<noteq> ''QUEUED''
       then throw (runtime_error (''invalid state (expected 'QUEUED' in transaction but got ''@ [CHR 0x27] @ resp @ [CHR 0x27] @ '')''))
       else ret ())"

definition exec_transaction :: "boost \<Rightarrow> command list \<Rightarrow> command list rio" where
  "exec_transaction B cs =
     bnd (transaction_socket B cs (- 1)) (\<lambda>sk.
     sq (send sk (cmd ''MULTI'' [] @ concat (map request cs) @ cmd ''EXEC'' []))
     (sq (on_net (recv_ok_reply sk))
     (sq (for_each (\<lambda>_. expect_queued sk) cs)
     (bnd (on_net (read_line sk)) (\<lambda>l.
       if l = [] then abort Undefined
       else if hd l \<noteq> CHR ''*'' then throw (runtime_error ''EXEC does not return a multi bulk reply'')
       else collect (recv_into B sk) cs)))))"

text \<open>The replies of \<^verbatim>\<open>MGET\<close> go back to the places of their keys.\<close>

fun scatter :: "nat list \<Rightarrow> string list \<Rightarrow> string list \<Rightarrow> string list res" where
  "scatter idx [] out = Ret out"
| "scatter [] (v # vs) out = Abort Undefined"
| "scatter (i # idx) (v # vs) out = scatter idx vs (out[i := v])"

definition add_key :: "string \<times> nat \<Rightarrow> (makecmd \<times> nat list) option \<Rightarrow> makecmd \<times> nat list" where
  "add_key ki m =
     (case m of
        None \<Rightarrow> (mc_str (new_makecmd ''MGET'') (fst ki), [snd ki])
      | Some (c, idx) \<Rightarrow> (mc_str c (fst ki), idx @ [snd ki]))"

definition recv_values :: "boost \<Rightarrow> int \<times> makecmd \<times> nat list \<Rightarrow> string list \<Rightarrow> string list rio" where
  "recv_values B e out = (case e of (sk, c, idx) \<Rightarrow>
     bnd (on_net (recv_multi_bulk_reply B sk [])) (\<lambda>(n, cur). lift_res (scatter idx cur out)))"

definition client_mget :: "boost \<Rightarrow> string list \<Rightarrow> string list rio" where
  "client_mget B keys =
     bnd (group_by_socket B fst add_key (zip keys [0..<length keys]))
       (\<lambda>m. sq (for_each (\<lambda>(sk, c, idx). send sk (mc_string c)) m)
               (fold_io (recv_values B) m (replicate (length keys) [])))"

definition client_setnx :: "boost \<Rightarrow> string \<Rightarrow> string \<Rightarrow> bool rio" where
  "client_setnx B key v =
     bnd (on_key B key (cmd ''SETNX'' [key, v]) (recv_int_reply B)) (\<lambda>i. ret (i = 1))"

text \<open>
  \<^verbatim>\<open>msetnx\<close> of two vectors: no \<^verbatim>\<open>return\<close> ends its body, so a call that gets there is undefined.
\<close>

definition client_msetnx_vec :: "boost \<Rightarrow> string list \<Rightarrow> string list \<Rightarrow> bool rio" where
  "client_msetnx_vec B keys vals =
     sq (asserting (length keys = length vals))
       (bnd (fold_io (\<lambda>kv m. bnd (get_socket_vec B keys) (\<lambda>sk. ret (map_upd sk (add_pair ''MSETNX'' kv) m)))
              (zip keys vals) [])
         (\<lambda>m. if 1 < length m then throw (runtime_error ''feature is not available in cluster mode'')
              else sq (for_each (\<lambda>(sk, c). on_socket sk (mc_string c) recv_ok_reply) m) (abort Undefined)))"

definition client_setex :: "boost \<Rightarrow> string \<Rightarrow> string \<Rightarrow> nat \<Rightarrow> unit rio" where
  "client_setex B key v secs = on_key B key (cmd ''SETEX'' [key, show_uint B secs, v]) recv_ok_reply"

definition client_append :: "boost \<Rightarrow> string \<Rightarrow> string \<Rightarrow> nat rio" where
  "client_append B key v =
     bnd (on_key B key (cmd ''APPEND'' [key, v]) (recv_int_reply B)) (\<lambda>r.
       if r < 0 then throw (protocol_error ''expected value size'')
       else sq (asserting (length v \<le> nat r)) (ret (nat r)))"

definition client_substr :: "boost \<Rightarrow> string \<Rightarrow> int \<Rightarrow> int \<Rightarrow> string rio" where
  "client_substr B key start fin =
     on_key B key (cmd ''SUBSTR'' [key, show_long B start, show_long B fin]) (recv_bulk_reply B)"

definition client_incr :: "boost \<Rightarrow> string \<Rightarrow> int rio" where
  "client_incr B key = on_key B key (cmd ''INCR'' [key]) (recv_int_reply B)"

definition client_incr_T :: "boost \<Rightarrow> (string \<Rightarrow> 'i option) \<Rightarrow> string \<Rightarrow> 'i rio" where
  "client_incr_T B conv key = on_key B key (cmd ''INCR'' [key]) (recv_int_reply_T conv)"

definition client_incrby :: "boost \<Rightarrow> string \<Rightarrow> int \<Rightarrow> int rio" where
  "client_incrby B key by' = on_key B key (cmd ''INCRBY'' [key, show_long B by']) (recv_int_reply B)"

definition client_incrby_T :: "boost \<Rightarrow> ('i \<Rightarrow> string) \<Rightarrow> (string \<Rightarrow> 'i option) \<Rightarrow> string \<Rightarrow> 'i \<Rightarrow> 'i rio" where
  "client_incrby_T B sh conv key by' = on_key B key (cmd ''INCRBY'' [key, sh by']) (recv_int_reply_T conv)"

definition client_decr :: "boost \<Rightarrow> string \<Rightarrow> int rio" where
  "client_decr B key = on_key B key (cmd ''DECR'' [key]) (recv_int_reply B)"

definition client_decr_T :: "boost \<Rightarrow> (string \<Rightarrow> 'i option) \<Rightarrow> string \<Rightarrow> 'i rio" where
  "client_decr_T B conv key = on_key B key (cmd ''DECR'' [key]) (recv_int_reply_T conv)"

definition client_decrby :: "boost \<Rightarrow> string \<Rightarrow> int \<Rightarrow> int rio" where
  "client_decrby B key by' = on_key B key (cmd ''DECRBY'' [key, show_long B by']) (recv_int_reply B)"

definition client_decrby_T :: "boost \<Rightarrow> ('i \<Rightarrow> string) \<Rightarrow> (string \<Rightarrow> 'i option) \<Rightarrow> string \<Rightarrow> 'i \<Rightarrow> 'i rio" where
  "client_decrby_T B sh conv key by' = on_key B key (cmd ''DECRBY'' [key, sh by']) (recv_int_reply_T conv)"

section \<open>Keys\<close>

definition client_exists :: "boost \<Rightarrow> string \<Rightarrow> bool rio" where
  "client_exists B key = bnd (on_key B key (cmd ''EXISTS'' [key]) (recv_int_reply B)) (\<lambda>i. ret (i = 1))"

definition client_del :: "boost \<Rightarrow> string \<Rightarrow> bool rio" where
  "client_del B key = bnd (on_key B key (cmd ''DEL'' [key]) (recv_int_reply B)) (\<lambda>i. ret (i \<noteq> 0))"

definition add_to_vec :: "string \<Rightarrow> string list option \<Rightarrow> string list" where
  "add_to_vec k v = (case v of None \<Rightarrow> [] | Some ks \<Rightarrow> ks) @ [k]"

definition sum_replies :: "boost \<Rightarrow> int list \<Rightarrow> int rio" where
  "sum_replies B sks =
     fold_io (\<lambda>sk res. bnd (on_net (recv_int_reply B sk)) (\<lambda>i. ret (wrap_long (res + i)))) sks 0"

definition client_del_range :: "boost \<Rightarrow> string list \<Rightarrow> bool rio" where
  "client_del_range B keys =
     bnd (group_by_socket B (\<lambda>k. k) add_to_vec keys)
       (\<lambda>m. sq (for_each (\<lambda>(sk, ks). send sk (mc_string (mc_vec (new_makecmd ''DEL'') ks))) m)
               (bnd (sum_replies B (map fst m)) (\<lambda>res. ret (res \<noteq> 0))))"

datatype key_type =
    datatype_none | datatype_string | datatype_list | datatype_set | datatype_zset | datatype_hash | datatype_unknown

definition type_of_name :: "string \<Rightarrow> key_type" where
  "type_of_name response =
     (if response = ''none'' then datatype_none
      else if response = ''string'' then datatype_string
      else if response = ''list'' then datatype_list
      else if response = ''set'' then datatype_set
      else if response = ''zset'' then datatype_zset
      else if response = ''hash'' then datatype_hash
      else datatype_unknown)"

definition client_type :: "boost \<Rightarrow> string \<Rightarrow> key_type rio" where
  "client_type B key =
     bnd (on_key B key (cmd ''TYPE'' [key]) recv_single_line_reply) (\<lambda>r. ret (type_of_name r))"

definition client_keys :: "boost \<Rightarrow> string \<Rightarrow> string list \<Rightarrow> (int \<times> string list) rio" where
  "client_keys B pattern out =
     sq (send_all (cmd ''KEYS'' [pattern]))
        (bnd all_sockets (\<lambda>sks. fold_io (\<lambda>sk (res, out). bnd (on_net (recv_multi_bulk_reply B sk out))
            (\<lambda>(n, out'). ret (wrap_long (res + n), out'))) sks (0, out)))"

definition client_randomkey :: "boost \<Rightarrow> string rio" where
  "client_randomkey B s =
     bnd (socket_at 0) (\<lambda>sk0.
       bnd (if 1 < length (connections s) then socket_at (die B (length (connections s))) else ret sk0)
         (\<lambda>sk. on_socket sk (cmd ''RANDOMKEY'' []) (recv_bulk_reply B))) s"

definition client_expire :: "boost \<Rightarrow> string \<Rightarrow> nat \<Rightarrow> unit rio" where
  "client_expire B key secs = on_key B key (cmd ''EXPIRE'' [key, show_uint B secs]) (recv_int_ok_reply B)"

definition client_ttl :: "boost \<Rightarrow> string \<Rightarrow> int rio" where
  "client_ttl B key = on_key B key (cmd ''TTL'' [key]) (recv_int_reply B)"

definition client_dbsize :: "boost \<Rightarrow> int rio" where
  "client_dbsize B = sq (send_all (cmd ''DBSIZE'' [])) (bnd all_sockets (sum_replies B))"

definition client_dbsize_con :: "boost \<Rightarrow> connection_data \<Rightarrow> int rio" where
  "client_dbsize_con B con = on_socket (socket con) (cmd ''DBSIZE'' []) (recv_int_reply B)"

definition client_move :: "boost \<Rightarrow> string \<Rightarrow> int \<Rightarrow> unit rio" where
  "client_move B key db = on_key B key (cmd ''MOVE'' [key, show_long B db]) (recv_int_ok_reply B)"

end
