(* ===== verification/RedisData.thy ===== *)
theory RedisData
  imports RedisClient
begin

text \<open>
  The commands of \<^verbatim>\<open>base_client\<close> on lists, sets, sorted sets and hashes, renaming across servers,
  sorting, and the administration of the servers (src/HQTEST/redisclient.h). Three overloads that
  do not compile once they are used are not here: \<^verbatim>\<open>msetnx\<close> of pairs, \<^verbatim>\<open>brpop\<close> of several keys and \<^verbatim>\<open>sort\<close> with a
  limit and no pattern.
\<close>

section \<open>Lists\<close>

definition client_rpush :: "boost \<Rightarrow> string \<Rightarrow> string \<Rightarrow> int rio" where
  "client_rpush B key v = on_key B key (cmd ''RPUSH'' [key, v]) (recv_int_reply B)"

definition client_lpush :: "boost \<Rightarrow> string \<Rightarrow> string \<Rightarrow> int rio" where
  "client_lpush B key v = on_key B key (cmd ''LPUSH'' [key, v]) (recv_int_reply B)"

definition client_llen :: "boost \<Rightarrow> string \<Rightarrow> int rio" where
  "client_llen B key = on_key B key (cmd ''LLEN'' [key]) (recv_int_reply B)"

definition client_lrange :: "boost \<Rightarrow> string \<Rightarrow> int \<Rightarrow> int \<Rightarrow> string list \<Rightarrow> (int \<times> string list) rio" where
  "client_lrange B key start fin out =
     on_key B key (cmd ''LRANGE'' [key, show_long B start, show_long B fin]) (\<lambda>sk. recv_multi_bulk_reply B sk out)"

definition client_get_list :: "boost \<Rightarrow> string \<Rightarrow> string list \<Rightarrow> (int \<times> string list) rio" where
  "client_get_list B key out = client_lrange B key 0 (- 1) out"

definition client_ltrim :: "boost \<Rightarrow> string \<Rightarrow> int \<Rightarrow> int \<Rightarrow> unit rio" where
  "client_ltrim B key start fin =
     on_key B key (cmd ''LTRIM'' [key, show_long B start, show_long B fin]) recv_ok_reply"

definition client_lindex :: "boost \<Rightarrow> string \<Rightarrow> int \<Rightarrow> string rio" where
  "client_lindex B key index = on_key B key (cmd ''LINDEX'' [key, show_long B index]) (recv_bulk_reply B)"

definition client_lset :: "boost \<Rightarrow> string \<Rightarrow> int \<Rightarrow> string \<Rightarrow> unit rio" where
  "client_lset B key index v = on_key B key (cmd ''LSET'' [key, show_long B index, v]) recv_ok_reply"

definition client_lrem :: "boost \<Rightarrow> string \<Rightarrow> int \<Rightarrow> string \<Rightarrow> int rio" where
  "client_lrem B key cnt v = on_key B key (cmd ''LREM'' [key, show_long B cnt, v]) (recv_int_reply B)"

definition client_lrem_exact :: "boost \<Rightarrow> string \<Rightarrow> int \<Rightarrow> string \<Rightarrow> unit rio" where
  "client_lrem_exact B key cnt v =
     bnd (client_lrem B key cnt v) (\<lambda>n.
       if n \<noteq> cnt then throw (value_error ''failed to remove exactly N elements from list'') else ret ())"

definition client_lpop :: "boost \<Rightarrow> string \<Rightarrow> string rio" where
  "client_lpop B key = on_key B key (cmd ''LPOP'' [key]) (recv_bulk_reply B)"

definition client_rpop :: "boost \<Rightarrow> string \<Rightarrow> string rio" where
  "client_rpop B key = on_key B key (cmd ''RPOP'' [key]) (recv_bulk_reply B)"

text \<open>The handler of \<^verbatim>\<open>key_error\<close> in the blocking pops; other exceptions leave them.\<close>

definition on_key_error :: "'a rio \<Rightarrow> 'a rio \<Rightarrow> 'a rio" where
  "on_key_error m h = try_catch m (\<lambda>e. case e of key_error _ \<Rightarrow> h | _ \<Rightarrow> throw e)"

definition client_blpop_vec :: "boost \<Rightarrow> string list \<Rightarrow> int \<Rightarrow> (string \<times> string) rio" where
  "client_blpop_vec B keys timeout =
     bnd (get_socket_vec B keys) (\<lambda>sk.
       if sk = - 1 then throw (runtime_error ''feature is not available in cluster mode'')
       else sq (send sk (mc_string (mc_cast (show_long B) (mc_vec (new_makecmd ''BLPOP'') keys) timeout)))
         (bnd (on_key_error (on_net (recv_multi_bulk_reply B sk []))
                (sq (asserting (0 < timeout)) (throw (timeout_error ''could not pop value in time''))))
           (\<lambda>(n, sv). case sv of [k, v] \<Rightarrow> ret (k, v) | _ \<Rightarrow> ret ([], missing_value))))"

text \<open>What the pops of one key make of the reply, \<open>None\<close> for the caught \<^verbatim>\<open>key_error\<close>.\<close>

definition popped :: "string \<Rightarrow> string list option \<Rightarrow> string rio" where
  "popped key sv =
     (case sv of
        Some [k, v] \<Rightarrow> sq (asserting (key = k)) (ret v)
      | _ \<Rightarrow> ret missing_value)"

definition recv_popped :: "boost \<Rightarrow> int \<Rightarrow> int \<Rightarrow> string list option rio" where
  "recv_popped B sk timeout =
     on_key_error (bnd (on_net (recv_multi_bulk_reply B sk [])) (\<lambda>(n, sv). ret (Some sv)))
       (sq (asserting (0 < timeout)) (ret None))"

definition client_blpop :: "boost \<Rightarrow> string \<Rightarrow> int \<Rightarrow> string rio" where
  "client_blpop B key timeout =
     bnd (get_socket B key) (\<lambda>sk.
       if sk = - 1 then throw (runtime_error ''feature is not available in cluster mode'')
       else sq (send sk (cmd ''BLPOP'' [key, show_long B timeout])) (bnd (recv_popped B sk timeout) (popped key)))"

definition client_brpop :: "boost \<Rightarrow> string \<Rightarrow> int \<Rightarrow> string rio" where
  "client_brpop B key timeout =
     bnd (get_socket B key) (\<lambda>sk.
       sq (send sk (cmd ''BRPOP'' [key, show_long B timeout])) (bnd (recv_popped B sk timeout) (popped key)))"

section \<open>Sets\<close>

definition client_sadd :: "boost \<Rightarrow> string \<Rightarrow> string \<Rightarrow> bool rio" where
  "client_sadd B key v = bnd (on_key B key (cmd ''SADD'' [key, v]) (recv_int_reply B)) (\<lambda>i. ret (i = 1))"

definition client_sadd_range :: "boost \<Rightarrow> string \<Rightarrow> string list \<Rightarrow> int rio" where
  "client_sadd_range B key vals =
     bnd (get_socket B key) (\<lambda>sk.
       sq (send sk (concat (map (\<lambda>v. cmd ''SADD'' [key, v]) vals))) (sum_replies B (map (\<lambda>_. sk) vals)))"

definition client_srem :: "boost \<Rightarrow> string \<Rightarrow> string \<Rightarrow> unit rio" where
  "client_srem B key v = on_key B key (cmd ''SREM'' [key, v]) (recv_int_ok_reply B)"

definition client_spop :: "boost \<Rightarrow> string \<Rightarrow> string rio" where
  "client_spop B key = on_key B key (cmd ''SPOP'' [key]) (recv_bulk_reply B)"

definition client_smove :: "boost \<Rightarrow> string \<Rightarrow> string \<Rightarrow> string \<Rightarrow> unit rio" where
  "client_smove B srckey dstkey member =
     bnd (get_socket B srckey) (\<lambda>src. bnd (get_socket B dstkey) (\<lambda>dst.
       if dst \<noteq> src then sq (client_srem B srckey member) (sq (client_sadd B dstkey member) (ret ()))
       else on_socket src (cmd ''SMOVE'' [srckey, dstkey, member]) (recv_int_ok_reply B)))"

definition client_scard :: "boost \<Rightarrow> string \<Rightarrow> int rio" where
  "client_scard B key = on_key B key (cmd ''SCARD'' [key]) (recv_int_reply B)"

definition client_sismember :: "boost \<Rightarrow> string \<Rightarrow> string \<Rightarrow> bool rio" where
  "client_sismember B key v = bnd (on_key B key (cmd ''SISMEMBER'' [key, v]) (recv_int_reply B)) (\<lambda>i. ret (i = 1))"

text \<open>\<^verbatim>\<open>std::set_intersection\<close> of two sorted sets.\<close>

definition set_intersection :: "string list \<Rightarrow> string list \<Rightarrow> string list" where
  "set_intersection xs ys = filter (\<lambda>x. x \<in> set ys) xs"

definition client_sinter :: "boost \<Rightarrow> string list \<Rightarrow> string list \<Rightarrow> (int \<times> string list) rio" where
  "client_sinter B keys out =
     bnd (group_by_socket B (\<lambda>k. k) add_to_vec keys)
       (\<lambda>m. sq (for_each (\<lambda>(sk, ks). send sk (mc_string (mc_vec (new_makecmd ''SINTER'') ks))) m)
         (bnd (fold_io (\<lambda>(sk, ks) (i, out). bnd (on_net (recv_multi_bulk_reply_set B sk []))
                  (\<lambda>(n, cur). ret (i + 1, if 0 < i then set_intersection out cur else cur))) m (0 :: nat, out))
            (\<lambda>(i, out'). ret (int (length out'), out'))))"

definition client_sinterstore :: "boost \<Rightarrow> string \<Rightarrow> string list \<Rightarrow> int rio" where
  "client_sinterstore B dstkey keys =
     bnd (get_socket B dstkey) (\<lambda>sk. bnd (get_socket_vec B keys) (\<lambda>src.
       if sk \<noteq> src then
         bnd (client_sinter B keys []) (\<lambda>(n, content).
           sq (client_del B dstkey) (sq (for_each (client_sadd B dstkey) content) (ret (int (length content)))))
       else on_socket sk (mc_string (mc_vec (mc_str (new_makecmd ''SINTERSTORE'') dstkey) keys)) (recv_int_reply B)))"

definition add_sunion :: "string \<Rightarrow> makecmd option \<Rightarrow> makecmd" where
  "add_sunion k m = mc_str (case m of None \<Rightarrow> new_makecmd ''SUNION'' | Some c \<Rightarrow> c) k"

definition client_sunion :: "boost \<Rightarrow> string list \<Rightarrow> string list \<Rightarrow> (int \<times> string list) rio" where
  "client_sunion B keys out =
     bnd (get_socket_vec B keys) (\<lambda>sk.
       if sk = - 1 then
         bnd (group_by_socket B (\<lambda>k. k) add_sunion keys)
           (\<lambda>m. sq (for_each (\<lambda>(sk, c). send sk (mc_string c)) m)
             (bnd (fold_io (\<lambda>(sk, c) out. bnd (on_net (recv_multi_bulk_reply_set B sk out)) (\<lambda>(n, out'). ret out')) m out)
                (\<lambda>out'. ret (int (length out'), out'))))
       else on_socket sk (mc_string (mc_vec (new_makecmd ''SUNION'') keys)) (\<lambda>sk. recv_multi_bulk_reply_set B sk out))"

definition client_sunionstore :: "boost \<Rightarrow> string \<Rightarrow> string list \<Rightarrow> int rio" where
  "client_sunionstore B dstkey keys =
     bnd (get_socket B dstkey) (\<lambda>sk. bnd (get_socket_vec B keys) (\<lambda>src.
       if sk \<noteq> src then
         bnd (client_sunion B keys []) (\<lambda>(n, content). sq (client_del B dstkey) (client_sadd_range B dstkey content))
       else on_socket sk (mc_string (mc_vec (mc_str (new_makecmd ''SUNIONSTORE'') dstkey) keys)) (recv_int_reply B)))"

definition client_sdiff :: "boost \<Rightarrow> string list \<Rightarrow> string list \<Rightarrow> (int \<times> string list) rio" where
  "client_sdiff B keys out =
     bnd (get_socket_vec B keys) (\<lambda>sk.
       on_socket sk (mc_string (mc_vec (new_makecmd ''SDIFF'') keys)) (\<lambda>sk. recv_multi_bulk_reply_set B sk out))"

definition client_sdiffstore :: "boost \<Rightarrow> string \<Rightarrow> string list \<Rightarrow> int rio" where
  "client_sdiffstore B dstkey keys =
     bnd (get_socket B dstkey) (\<lambda>sk. bnd (get_socket_vec B keys) (\<lambda>src.
       if sk \<noteq> src then throw (runtime_error ''not available in cluster mode'')
       else on_socket sk (mc_string (mc_vec (mc_str (new_makecmd ''SDIFFSTORE'') dstkey) keys)) (recv_int_reply B)))"

definition client_smembers :: "boost \<Rightarrow> string \<Rightarrow> string list \<Rightarrow> (int \<times> string list) rio" where
  "client_smembers B key out = on_key B key (cmd ''SMEMBERS'' [key]) (\<lambda>sk. recv_multi_bulk_reply_set B sk out)"

definition client_srandmember :: "boost \<Rightarrow> string \<Rightarrow> string rio" where
  "client_srandmember B key = on_key B key (cmd ''SPOP'' [key]) (recv_bulk_reply B)"

section \<open>Renaming\<close>

text \<open>Between two servers the value is read, the target deleted and written anew, and the source deleted.\<close>

definition client_rename :: "boost \<Rightarrow> string \<Rightarrow> string \<Rightarrow> unit rio" where
  "client_rename B old_name new_name =
     bnd (get_socket B old_name) (\<lambda>src. bnd (get_socket B new_name) (\<lambda>dst.
       if src \<noteq> dst then
         bnd (client_type B old_name) (\<lambda>t.
           case t of
             datatype_none \<Rightarrow> ret ()
           | datatype_string \<Rightarrow>
               sq (bnd (client_get B old_name) (client_set B new_name)) (sq (client_del B old_name) (ret ()))
           | datatype_list \<Rightarrow>
               bnd (client_lrange B old_name 0 (- 1) []) (\<lambda>(n, content).
                 sq (client_del B new_name) (sq (for_each (client_rpush B new_name) content)
                   (sq (client_del B old_name) (ret ()))))
           | datatype_set \<Rightarrow>
               bnd (client_smembers B old_name []) (\<lambda>(n, content).
                 sq (client_del B new_name) (sq (for_each (client_sadd B new_name) content)
                   (sq (client_del B old_name) (ret ()))))
           | _ \<Rightarrow> throw (runtime_error ''renaming is not supported for this datatype in cluster mode''))
       else on_socket src (cmd ''RENAME'' [old_name, new_name]) recv_ok_reply))"

definition client_renamenx :: "boost \<Rightarrow> string \<Rightarrow> string \<Rightarrow> bool rio" where
  "client_renamenx B old_name new_name =
     bnd (get_socket B old_name) (\<lambda>src. bnd (get_socket B new_name) (\<lambda>dst.
       if src \<noteq> dst then
         bnd (client_exists B new_name) (\<lambda>ex.
           if ex then ret False else sq (client_rename B old_name new_name) (ret True))
       else bnd (on_socket src (cmd ''RENAMENX'' [old_name, new_name]) (recv_int_reply B)) (\<lambda>i. ret (i = 1))))"

section \<open>Sorted sets\<close>

definition client_zadd :: "boost \<Rightarrow> string \<Rightarrow> double \<Rightarrow> string \<Rightarrow> unit rio" where
  "client_zadd B key score member =
     on_key B key (cmd ''ZADD'' [key, show_double B score, member]) (recv_int_ok_reply B)"

definition client_zadd_pair :: "boost \<Rightarrow> string \<Rightarrow> string \<times> double \<Rightarrow> unit rio" where
  "client_zadd_pair B key v = client_zadd B key (snd v) (fst v)"

definition client_zrem :: "boost \<Rightarrow> string \<Rightarrow> string \<Rightarrow> unit rio" where
  "client_zrem B key member = on_key B key (cmd ''ZREM'' [key, member]) (recv_int_ok_reply B)"

definition client_zincrby :: "boost \<Rightarrow> string \<Rightarrow> string \<Rightarrow> double \<Rightarrow> double rio" where
  "client_zincrby B key member increment =
     bnd (on_key B key (cmd ''ZINCRBY'' [key, show_double B increment, member]) (recv_bulk_reply B))
       (\<lambda>r. lift_res (cast (cast_double B) r))"

definition client_zrank :: "boost \<Rightarrow> string \<Rightarrow> string \<Rightarrow> int rio" where
  "client_zrank B key member = on_key B key (cmd ''ZRANK'' [key, member]) (recv_int_reply B)"

text \<open>\<^verbatim>\<open>lexical_cast<int_type>\<close> of an \<^verbatim>\<open>int_type\<close>: through its text.\<close>

definition client_zrevrank :: "boost \<Rightarrow> string \<Rightarrow> string \<Rightarrow> int rio" where
  "client_zrevrank B key v =
     bnd (on_key B key (cmd ''ZREVRANK'' [key, v]) (recv_int_reply B))
       (\<lambda>i. lift_res (cast (cast_long B) (show_long B i)))"

definition range_cmd :: "boost \<Rightarrow> string \<Rightarrow> string \<Rightarrow> int \<Rightarrow> int \<Rightarrow> makecmd" where
  "range_cmd B cmd_name key start fin =
     mc_cast (show_long B) (mc_cast (show_long B) (mc_str (new_makecmd cmd_name) key) start) fin"

definition client_zrange :: "boost \<Rightarrow> string \<Rightarrow> int \<Rightarrow> int \<Rightarrow> string list \<Rightarrow> string list rio" where
  "client_zrange B key start fin out =
     bnd (on_key B key (mc_string (range_cmd B ''ZRANGE'' key start fin)) (\<lambda>sk. recv_multi_bulk_reply B sk out))
       (\<lambda>(n, out'). ret out')"

fun score_pairs :: "boost \<Rightarrow> string list \<Rightarrow> (string \<times> double) list \<Rightarrow> (string \<times> double) list res" where
  "score_pairs B (v # sc # xs) out =
     rbnd (cast (cast_double B) sc) (\<lambda>d. score_pairs B xs (out @ [(v, d)]))"
| "score_pairs B xs out = Ret out"

definition convert :: "boost \<Rightarrow> string list \<Rightarrow> (string \<times> double) list \<Rightarrow> (string \<times> double) list rio" where
  "convert B xs out = sq (asserting (even (length xs))) (lift_res (score_pairs B xs out))"

definition client_zrange_scores :: "boost \<Rightarrow> string \<Rightarrow> int \<Rightarrow> int \<Rightarrow> (string \<times> double) list \<Rightarrow> (string \<times> double) list rio" where
  "client_zrange_scores B key start fin out =
     bnd (on_key B key (mc_string (mc_cast (show_literal B) (range_cmd B ''ZRANGE'' key start fin) ''WITHSCORES''))
            (\<lambda>sk. recv_multi_bulk_reply B sk []))
       (\<lambda>(n, xs). convert B xs out)"

definition client_zrevrange :: "boost \<Rightarrow> string \<Rightarrow> int \<Rightarrow> int \<Rightarrow> string list \<Rightarrow> string list rio" where
  "client_zrevrange B key start fin out =
     bnd (on_key B key (mc_string (range_cmd B ''ZREVRANGE'' key start fin)) (\<lambda>sk. recv_multi_bulk_reply B sk out))
       (\<lambda>(n, out'). ret out')"

definition client_zrevrange_scores :: "boost \<Rightarrow> string \<Rightarrow> int \<Rightarrow> int \<Rightarrow> (string \<times> double) list \<Rightarrow> (string \<times> double) list rio" where
  "client_zrevrange_scores B key start fin out =
     bnd (on_key B key (mc_string (mc_cast (show_literal B) (range_cmd B ''ZREVRANGE'' key start fin) ''WITHSCORES''))
            (\<lambda>sk. recv_multi_bulk_reply B sk []))
       (\<lambda>(n, xs). convert B xs out)"

text \<open>The two bits of \<^verbatim>\<open>range_specifier\<close>.\<close>

definition exclude_min :: "nat \<Rightarrow> bool" where
  "exclude_min m = odd m"

definition exclude_max :: "nat \<Rightarrow> bool" where
  "exclude_max m = odd (m div 2)"

definition score_bound :: "boost \<Rightarrow> bool \<Rightarrow> double \<Rightarrow> string" where
  "score_bound B exclude d = (if exclude then ''('' else []) @ show_double B d"

definition zrangebyscore_base ::
  "boost \<Rightarrow> bool \<Rightarrow> string \<Rightarrow> double \<Rightarrow> double \<Rightarrow> string list \<Rightarrow> int \<Rightarrow> int \<Rightarrow> nat \<Rightarrow> string list rio" where
  "zrangebyscore_base B withscores key mn mx out offset max_count m =
     bnd (get_socket B key) (\<lambda>sk.
       let c = mc_str (mc_str (mc_str (new_makecmd ''ZRANGEBYSCORE'') key)
                 (score_bound B (exclude_min m) mn)) (score_bound B (exclude_max m) mx);
           c' = (if max_count \<noteq> - 1 \<or> 0 < offset
                 then mc_cast (show_long B) (mc_cast (show_long B) (mc_cast (show_literal B) c ''LIMIT'') offset) max_count
                 else c)
       in bnd (on_socket sk (mc_string c') (\<lambda>sk. recv_multi_bulk_reply B sk out)) (\<lambda>(n, out'). ret out'))"

definition client_zrangebyscore ::
  "boost \<Rightarrow> string \<Rightarrow> double \<Rightarrow> double \<Rightarrow> string list \<Rightarrow> int \<Rightarrow> int \<Rightarrow> nat \<Rightarrow> string list rio" where
  "client_zrangebyscore B key mn mx out offset max_count m =
     zrangebyscore_base B False key mn mx out offset max_count m"

definition client_zrangebyscore_scores ::
  "boost \<Rightarrow> string \<Rightarrow> double \<Rightarrow> double \<Rightarrow> (string \<times> double) list \<Rightarrow> int \<Rightarrow> int \<Rightarrow> nat \<Rightarrow> (string \<times> double) list rio" where
  "client_zrangebyscore_scores B key mn mx out offset max_count m =
     bnd (zrangebyscore_base B True key mn mx [] offset max_count m) (\<lambda>xs. convert B xs out)"

definition client_zcount :: "boost \<Rightarrow> string \<Rightarrow> double \<Rightarrow> double \<Rightarrow> nat \<Rightarrow> int rio" where
  "client_zcount B key mn mx m =
     on_key B key (cmd ''ZCOUNT'' [key, score_bound B (exclude_min m) mn, score_bound B (exclude_max m) mx])
       (recv_int_reply B)"

definition client_zremrangebyrank :: "boost \<Rightarrow> string \<Rightarrow> int \<Rightarrow> int \<Rightarrow> int rio" where
  "client_zremrangebyrank B key start fin =
     on_key B key (mc_string (range_cmd B ''ZREMRANGEBYRANK'' key start fin)) (recv_int_reply B)"

definition client_zremrangebyscore :: "boost \<Rightarrow> string \<Rightarrow> double \<Rightarrow> double \<Rightarrow> int rio" where
  "client_zremrangebyscore B key mn mx =
     on_key B key (cmd ''ZREMRANGEBYSCORE'' [key, show_double B mn, show_double B mx]) (recv_int_reply B)"

definition client_zcard :: "boost \<Rightarrow> string \<Rightarrow> int rio" where
  "client_zcard B key = on_key B key (cmd ''ZCARD'' [key]) (recv_int_reply B)"

definition client_zscore :: "boost \<Rightarrow> string \<Rightarrow> string \<Rightarrow> double rio" where
  "client_zscore B key element =
     bnd (on_key B key (cmd ''ZSCORE'' [key, element]) (recv_bulk_reply B)) (\<lambda>r. lift_res (cast (cast_double B) r))"

datatype aggregate_type = aggregate_sum | aggregate_min | aggregate_max

definition aggregate_name :: "aggregate_type \<Rightarrow> string" where
  "aggregate_name a = (case a of aggregate_sum \<Rightarrow> ''SUM'' | aggregate_min \<Rightarrow> ''MIN'' | aggregate_max \<Rightarrow> ''MAX'')"

definition zstore_cmd :: "boost \<Rightarrow> string \<Rightarrow> string \<Rightarrow> string list \<Rightarrow> double list \<Rightarrow> aggregate_type \<Rightarrow> makecmd" where
  "zstore_cmd B cmd_name dstkey keys weights aggr =
     (let m = mc_vec (mc_cast (show_uint B) (mc_str (new_makecmd cmd_name) dstkey) (length keys)) keys;
          m' = (if weights \<noteq> [] then mc_cast_vec (show_double B) (mc_cast (show_literal B) m ''WEIGHTS'') weights else m)
      in mc_cast (show_literal B) (mc_cast (show_literal B) m' ''AGGREGATE'') (aggregate_name aggr))"

definition client_zunionstore :: "boost \<Rightarrow> string \<Rightarrow> string list \<Rightarrow> double list \<Rightarrow> aggregate_type \<Rightarrow> int rio" where
  "client_zunionstore B dstkey keys weights aggr =
     bnd (get_socket B dstkey) (\<lambda>dst. bnd (get_socket_vec B keys) (\<lambda>sk.
       if sk \<noteq> dst then throw (runtime_error ''feature is not available in cluster mode'')
       else sq (asserting (weights = [] \<or> length keys = length weights))
              (on_socket sk (mc_string (zstore_cmd B ''ZUNIONSTORE'' dstkey keys weights aggr)) (recv_int_reply B))))"

definition client_zinterstore :: "boost \<Rightarrow> string \<Rightarrow> string list \<Rightarrow> double list \<Rightarrow> aggregate_type \<Rightarrow> int rio" where
  "client_zinterstore B dstkey keys weights aggr =
     bnd (get_socket B dstkey) (\<lambda>dst. bnd (get_socket_vec B keys) (\<lambda>sk.
       if sk \<noteq> dst then throw (runtime_error ''feature is not available in cluster mode'')
       else sq (asserting (weights = [] \<or> length keys = length weights))
              (on_socket sk (mc_string (zstore_cmd B ''ZINTERSTORE'' dstkey keys weights aggr)) (recv_int_reply B))))"

section \<open>Hashes\<close>

definition client_hset :: "boost \<Rightarrow> string \<Rightarrow> string \<Rightarrow> string \<Rightarrow> bool rio" where
  "client_hset B key field v = bnd (on_key B key (cmd ''HSET'' [key, field, v]) (recv_int_reply B)) (\<lambda>i. ret (i = 1))"

definition client_hget :: "boost \<Rightarrow> string \<Rightarrow> string \<Rightarrow> string rio" where
  "client_hget B key field = on_key B key (cmd ''HGET'' [key, field]) (recv_bulk_reply B)"

definition client_hsetnx :: "boost \<Rightarrow> string \<Rightarrow> string \<Rightarrow> string \<Rightarrow> bool rio" where
  "client_hsetnx B key field v = bnd (on_key B key (cmd ''HSETNX'' [key, field, v]) (recv_int_reply B)) (\<lambda>i. ret (i = 1))"

definition add_fields :: "string \<Rightarrow> (string \<times> string) list \<Rightarrow> makecmd" where
  "add_fields key fvs = foldl (\<lambda>m (f, v). mc_str (mc_str m f) v) (mc_str (new_makecmd ''HMSET'') key) fvs"

definition client_hmset_vec :: "boost \<Rightarrow> string \<Rightarrow> string list \<Rightarrow> string list \<Rightarrow> unit rio" where
  "client_hmset_vec B key flds vals =
     bnd (get_socket B key) (\<lambda>sk. sq (asserting (length flds = length vals))
       (on_socket sk (mc_string (add_fields key (zip flds vals))) recv_ok_reply))"

definition client_hmset :: "boost \<Rightarrow> string \<Rightarrow> (string \<times> string) list \<Rightarrow> unit rio" where
  "client_hmset B key fvs = on_key B key (mc_string (add_fields key fvs)) recv_ok_reply"

definition client_hmget :: "boost \<Rightarrow> string \<Rightarrow> string list \<Rightarrow> string list \<Rightarrow> string list rio" where
  "client_hmget B key flds out =
     bnd (on_key B key (mc_string (foldl mc_str (mc_str (new_makecmd ''HMGET'') key) flds))
            (\<lambda>sk. recv_multi_bulk_reply B sk out))
       (\<lambda>(n, out'). ret out')"

definition client_hincrby :: "boost \<Rightarrow> string \<Rightarrow> string \<Rightarrow> int \<Rightarrow> int rio" where
  "client_hincrby B key field by' = on_key B key (cmd ''HINCRBY'' [key, field, show_long B by']) (recv_int_reply B)"

definition client_hexists :: "boost \<Rightarrow> string \<Rightarrow> string \<Rightarrow> bool rio" where
  "client_hexists B key field = bnd (on_key B key (cmd ''HEXISTS'' [key, field]) (recv_int_reply B)) (\<lambda>i. ret (i = 1))"

definition client_hdel :: "boost \<Rightarrow> string \<Rightarrow> string \<Rightarrow> bool rio" where
  "client_hdel B key field = bnd (on_key B key (cmd ''HDEL'' [key, field]) (recv_int_reply B)) (\<lambda>i. ret (i = 1))"

definition client_hlen :: "boost \<Rightarrow> string \<Rightarrow> int rio" where
  "client_hlen B key = on_key B key (cmd ''HLEN'' [key]) (recv_int_reply B)"

definition client_hkeys :: "boost \<Rightarrow> string \<Rightarrow> string list \<Rightarrow> string list rio" where
  "client_hkeys B key out =
     bnd (on_key B key (cmd ''HKEYS'' [key]) (\<lambda>sk. recv_multi_bulk_reply B sk out)) (\<lambda>(n, out'). ret out')"

definition client_hvals :: "boost \<Rightarrow> string \<Rightarrow> string list \<Rightarrow> string list rio" where
  "client_hvals B key out =
     bnd (on_key B key (cmd ''HVALS'' [key]) (\<lambda>sk. recv_multi_bulk_reply B sk out)) (\<lambda>(n, out'). ret out')"

text \<open>The loop of \<^verbatim>\<open>hgetall\<close> takes the elements in pairs; an odd one out is read past the end.\<close>

fun field_pairs :: "string list \<Rightarrow> (string \<times> string) list \<Rightarrow> (string \<times> string) list res" where
  "field_pairs [] out = Ret out"
| "field_pairs [f] out = Abort Undefined"
| "field_pairs (f # v # xs) out = field_pairs xs (out @ [(f, v)])"

definition client_hgetall :: "boost \<Rightarrow> string \<Rightarrow> (string \<times> string) list \<Rightarrow> (string \<times> string) list rio" where
  "client_hgetall B key out =
     bnd (on_key B key (cmd ''HGETALL'' [key]) (\<lambda>sk. recv_multi_bulk_reply B sk [])) (\<lambda>(n, xs). lift_res (field_pairs xs out))"

section \<open>Sorting\<close>

datatype sort_order = sort_order_ascending | sort_order_descending

definition order_name :: "sort_order \<Rightarrow> string" where
  "order_name ord = (if ord = sort_order_ascending then ''ASC'' else ''DESC'')"

definition add_alpha :: "boost \<Rightarrow> bool \<Rightarrow> makecmd \<Rightarrow> makecmd" where
  "add_alpha B lexicographically m = (if lexicographically then mc_cast (show_literal B) m ''ALPHA'' else m)"

definition client_sort :: "boost \<Rightarrow> string \<Rightarrow> string list \<Rightarrow> sort_order \<Rightarrow> bool \<Rightarrow> (int \<times> string list) rio" where
  "client_sort B key out ord lexi =
     on_key B key
       (mc_string (add_alpha B lexi (mc_cast (show_literal B) (mc_str (new_makecmd ''SORT'') key) (order_name ord))))
       (\<lambda>sk. recv_multi_bulk_reply B sk out)"

definition client_sort_by ::
  "boost \<Rightarrow> string \<Rightarrow> string list \<Rightarrow> string \<Rightarrow> int \<Rightarrow> int \<Rightarrow> string list \<Rightarrow> sort_order \<Rightarrow> bool \<Rightarrow> (int \<times> string list) rio" where
  "client_sort_by B key out by_pattern limit_start limit_end get_patterns ord lexi =
     (let m1 = mc_str (mc_cast (show_literal B) (mc_str (new_makecmd ''SORT'') key) ''BY'') by_pattern;
          m2 = mc_cast (show_long B) (mc_cast (show_long B) (mc_cast (show_literal B) m1 ''LIMIT'') limit_start) limit_end;
          m3 = foldl (\<lambda>m p. mc_str (mc_cast (show_literal B) m ''GET'') p) m2 get_patterns;
          m4 = mc_cast (show_literal B) m3 (order_name ord)
      in on_key B key (mc_string (add_alpha B lexi m4)) (\<lambda>sk. recv_multi_bulk_reply B sk out))"

section \<open>Administration\<close>

definition recv_all_ok :: "unit rio" where
  "recv_all_ok = bnd all_sockets (for_each (\<lambda>sk. on_net (recv_ok_reply sk)))"

definition client_flushdb :: "unit rio" where
  "client_flushdb = sq (send_all (cmd ''FLUSHDB'' [])) recv_all_ok"

definition client_flushdb_con :: "connection_data \<Rightarrow> unit rio" where
  "client_flushdb_con con = on_socket (socket con) (cmd ''FLUSHDB'' []) recv_ok_reply"

definition client_flushall :: "unit rio" where
  "client_flushall s =
     (if 1 < length (connections s) then (Throw (runtime_error ''feature is not available in cluster mode''), s)
      else bnd (socket_at 0) (\<lambda>sk. on_socket sk (cmd ''FLUSHALL'' []) recv_ok_reply) s)"

definition client_flushall_con :: "connection_data \<Rightarrow> unit rio" where
  "client_flushall_con con = on_socket (socket con) (cmd ''FLUSHALL'' []) recv_ok_reply"

definition client_save :: "unit rio" where
  "client_save = sq (send_all (cmd ''SAVE'' [])) recv_all_ok"

definition client_save_con :: "connection_data \<Rightarrow> unit rio" where
  "client_save_con con = on_socket (socket con) (cmd ''SAVE'' []) recv_ok_reply"

definition recv_bgsave :: "int \<Rightarrow> unit wio" where
  "recv_bgsave sk =
     bnd (recv_single_line_reply sk) (\<lambda>r.
       if r \<noteq> ''OK'' \<and> r \<noteq> ''Background saving started''
       then throw (protocol_error (''Unexpected response on bgsave: '' @ [CHR 0x27] @ r @ [CHR 0x27])) else ret ())"

definition client_bgsave :: "unit rio" where
  "client_bgsave = sq (send_all (cmd ''BGSAVE'' [])) (bnd all_sockets (for_each (\<lambda>sk. on_net (recv_bgsave sk))))"

definition client_bgsave_con :: "connection_data \<Rightarrow> unit rio" where
  "client_bgsave_con con = on_socket (socket con) (cmd ''BGSAVE'' []) recv_bgsave"

definition client_lastsave :: "boost \<Rightarrow> int rio" where
  "client_lastsave B =
     bnd all_sockets (\<lambda>sks. fold_io (\<lambda>sk res. bnd (on_socket sk (cmd ''LASTSAVE'' []) (recv_int_reply B))
       (\<lambda>cur. ret (if 0 < res then min cur res else cur))) sks 0)"

definition client_lastsave_con :: "boost \<Rightarrow> connection_data \<Rightarrow> int rio" where
  "client_lastsave_con B con = on_socket (socket con) (cmd ''LASTSAVE'' []) (recv_int_reply B)"

text \<open>The server closes the connection instead of answering; that exception is expected.\<close>

definition recv_shutdown :: "int \<Rightarrow> unit wio" where
  "recv_shutdown sk =
     try_catch (recv_ok_reply sk) (\<lambda>e. case e of connection_error _ \<Rightarrow> ret () | _ \<Rightarrow> throw e)"

definition client_shutdown :: "unit rio" where
  "client_shutdown = bnd all_sockets (for_each (\<lambda>sk. on_socket sk (cmd ''SHUTDOWN'' []) recv_shutdown))"

definition client_shutdown_con :: "connection_data \<Rightarrow> unit rio" where
  "client_shutdown_con con = on_socket (socket con) (cmd ''SHUTDOWN'' []) recv_shutdown"

record server_info =
  version :: string
  bgsave_in_progress :: bool
  connected_clients :: nat
  connected_slaves :: nat
  used_memory :: nat
  changes_since_last_save :: nat
  last_save_time :: nat
  total_connections_received :: nat
  total_commands_processed :: nat
  uptime_in_seconds :: nat
  uptime_in_days :: nat
  role :: server_role
  arch_bits :: nat
  multiplexing_api :: string
  param_map :: "string \<Rightarrow> string option"

definition info_field :: "boost \<Rightarrow> string \<Rightarrow> string \<Rightarrow> server_info \<Rightarrow> server_info res" where
  "info_field B k v out =
     (let n = cast (cast_ulong B) v
      in if k = ''redis_version'' then Ret (out\<lparr>version := v\<rparr>)
      else if k = ''bgsave_in_progress'' then rbnd n (\<lambda>n. Ret (out\<lparr>bgsave_in_progress := (n = 1)\<rparr>))
      else if k = ''connected_clients'' then rbnd n (\<lambda>n. Ret (out\<lparr>connected_clients := n\<rparr>))
      else if k = ''connected_slaves'' then rbnd n (\<lambda>n. Ret (out\<lparr>connected_slaves := n\<rparr>))
      else if k = ''used_memory'' then rbnd n (\<lambda>n. Ret (out\<lparr>used_memory := n\<rparr>))
      else if k = ''changes_since_last_save'' then rbnd n (\<lambda>n. Ret (out\<lparr>changes_since_last_save := n\<rparr>))
      else if k = ''last_save_time'' then rbnd n (\<lambda>n. Ret (out\<lparr>last_save_time := n\<rparr>))
      else if k = ''total_connections_received'' then rbnd n (\<lambda>n. Ret (out\<lparr>total_connections_received := n\<rparr>))
      else if k = ''total_commands_processed'' then rbnd n (\<lambda>n. Ret (out\<lparr>total_commands_processed := n\<rparr>))
      else if k = ''uptime_in_seconds'' then rbnd n (\<lambda>n. Ret (out\<lparr>uptime_in_seconds := n\<rparr>))
      else if k = ''uptime_in_days'' then rbnd n (\<lambda>n. Ret (out\<lparr>uptime_in_days := n\<rparr>))
      else if k = ''role'' then Ret (out\<lparr>role := (if v = ''master'' then role_master else role_slave)\<rparr>)
      else if k = ''arch_bits'' then rbnd (cast (cast_ushort B) v) (\<lambda>n. Ret (out\<lparr>arch_bits := n\<rparr>))
      else if k = ''multiplexing_api'' then Ret (out\<lparr>multiplexing_api := v\<rparr>)
      else Ret out)"

definition info_line :: "boost \<Rightarrow> string \<Rightarrow> server_info \<Rightarrow> server_info res" where
  "info_line B line out =
     (if line = [] \<or> hd line = CHR ''#'' then Ret out
      else case split line (CHR '':'') of
             [k, v] \<Rightarrow> info_field B k v (out\<lparr>param_map := (param_map out)(k \<mapsto> v)\<rparr>)
           | _ \<Rightarrow> Throw (protocol_error ''unexpected line format for info''))"

fun info_lines :: "boost \<Rightarrow> string list \<Rightarrow> server_info \<Rightarrow> server_info res" where
  "info_lines B [] out = Ret out"
| "info_lines B (l # ls) out = rbnd (info_line B l out) (info_lines B ls)"

definition parse_info :: "boost \<Rightarrow> string \<Rightarrow> server_info \<Rightarrow> server_info res" where
  "parse_info B response out =
     (if response = [] then Throw (protocol_error ''empty'')
      else let ls = split_lines response
           in if ls = [] then Throw (protocol_error ''empty line for info'') else info_lines B ls out)"

definition client_info_con :: "boost \<Rightarrow> connection_data \<Rightarrow> server_info \<Rightarrow> server_info rio" where
  "client_info_con B con out =
     bnd (on_socket (socket con) (cmd ''INFO'' []) (recv_bulk_reply B)) (\<lambda>r. lift_res (parse_info B r out))"

definition client_info :: "boost \<Rightarrow> server_info \<Rightarrow> server_info rio" where
  "client_info B out s =
     (if connections s = [] then (Abort Undefined, s) else client_info_con B (hd (connections s)) out s)"

definition client_publish :: "boost \<Rightarrow> string \<Rightarrow> string \<Rightarrow> int rio" where
  "client_publish B channel message = on_key B channel (cmd ''PUBLISH'' [channel, message]) (recv_int_reply B)"

end
