(* ===== verification/Distributed.thy ===== *)
theory Distributed
  imports RedisData
begin

text \<open>
  The value classes of src/HQTEST/redisclient.h: objects that stand for a key of the server. An
  object is its key; every access goes through the one client, whose state is passed along. The
  integer class is a template: \<open>int_kind\<close> holds the conversions and the wrap-around of its type.
\<close>

section \<open>distributed\_value\<close>

record distributed_value =
  dkey :: string

definition new_value :: "string \<Rightarrow> distributed_value" where
  "new_value k = \<lparr>dkey = k\<rparr>"

definition value_exists :: "boost \<Rightarrow> distributed_value \<Rightarrow> bool rio" where
  "value_exists B d = client_exists B (dkey d)"

definition value_del :: "boost \<Rightarrow> distributed_value \<Rightarrow> unit rio" where
  "value_del B d = sq (client_del B (dkey d)) (ret ())"

definition value_rename :: "boost \<Rightarrow> distributed_value \<Rightarrow> string \<Rightarrow> distributed_value rio" where
  "value_rename B d new_name = sq (client_rename B (dkey d) new_name) (ret (d\<lparr>dkey := new_name\<rparr>))"

definition value_renamenx :: "boost \<Rightarrow> distributed_value \<Rightarrow> string \<Rightarrow> (bool \<times> distributed_value) rio" where
  "value_renamenx B d new_name =
     bnd (client_renamenx B (dkey d) new_name)
       (\<lambda>done'. if done' then ret (True, d\<lparr>dkey := new_name\<rparr>) else ret (False, d))"

definition value_expire :: "boost \<Rightarrow> distributed_value \<Rightarrow> nat \<Rightarrow> unit rio" where
  "value_expire B d secs = client_expire B (dkey d) secs"

definition value_ttl :: "boost \<Rightarrow> distributed_value \<Rightarrow> int rio" where
  "value_ttl B d = client_ttl B (dkey d)"

definition value_move :: "boost \<Rightarrow> distributed_value \<Rightarrow> int \<Rightarrow> unit rio" where
  "value_move B d db = client_move B (dkey d) db"

definition value_type :: "boost \<Rightarrow> distributed_value \<Rightarrow> key_type rio" where
  "value_type B d = client_type B (dkey d)"

section \<open>distributed\_string\<close>

definition string_setnx :: "boost \<Rightarrow> distributed_value \<Rightarrow> string \<Rightarrow> bool rio" where
  "string_setnx B d v = client_setnx B (dkey d) v"

definition new_string :: "boost \<Rightarrow> string \<Rightarrow> string \<Rightarrow> distributed_value rio" where
  "new_string B k default_value =
     (let d = new_value k in sq (string_setnx B d default_value) (ret d))"

definition string_str :: "boost \<Rightarrow> distributed_value \<Rightarrow> string rio" where
  "string_str B d = client_get B (dkey d)"

definition string_assign :: "boost \<Rightarrow> distributed_value \<Rightarrow> string \<Rightarrow> unit rio" where
  "string_assign B d v = client_set B (dkey d) v"

definition string_copy :: "boost \<Rightarrow> distributed_value \<Rightarrow> distributed_value \<Rightarrow> unit rio" where
  "string_copy B d other =
     (if dkey d \<noteq> dkey other then bnd (string_str B other) (string_assign B d) else ret ())"

definition string_getset :: "boost \<Rightarrow> distributed_value \<Rightarrow> string \<Rightarrow> string rio" where
  "string_getset B d v = client_getset B (dkey d) v"

definition string_setex :: "boost \<Rightarrow> distributed_value \<Rightarrow> string \<Rightarrow> nat \<Rightarrow> unit rio" where
  "string_setex B d v secs = client_setex B (dkey d) v secs"

definition string_append :: "boost \<Rightarrow> distributed_value \<Rightarrow> string \<Rightarrow> nat rio" where
  "string_append B d v = client_append B (dkey d) v"

definition string_plus_assign :: "boost \<Rightarrow> distributed_value \<Rightarrow> string \<Rightarrow> unit rio" where
  "string_plus_assign B d v = sq (string_append B d v) (ret ())"

definition string_substr :: "boost \<Rightarrow> distributed_value \<Rightarrow> int \<Rightarrow> int \<Rightarrow> string rio" where
  "string_substr B d start fin = client_substr B (dkey d) start fin"

definition string_eq :: "boost \<Rightarrow> distributed_value \<Rightarrow> string \<Rightarrow> bool rio" where
  "string_eq B d s = bnd (string_str B d) (\<lambda>v. ret (v = s))"

definition string_neq :: "boost \<Rightarrow> distributed_value \<Rightarrow> string \<Rightarrow> bool rio" where
  "string_neq B d s = bnd (string_str B d) (\<lambda>v. ret (v \<noteq> s))"

definition string_print :: "boost \<Rightarrow> string \<Rightarrow> distributed_value \<Rightarrow> string rio" where
  "string_print B os d = bnd (string_str B d) (\<lambda>v. ret (os @ v))"

text \<open>Extraction from a stream takes the next word.\<close>

definition next_word :: "string \<Rightarrow> string \<times> string" where
  "next_word is' =
     (let t = dropWhile is_ws is' in (takeWhile (\<lambda>c. \<not> is_ws c) t, dropWhile (\<lambda>c. \<not> is_ws c) t))"

definition string_extract :: "boost \<Rightarrow> string \<Rightarrow> distributed_value \<Rightarrow> string rio" where
  "string_extract B is' d = (case next_word is' of (s_val, rest) \<Rightarrow> sq (string_assign B d s_val) (ret rest))"

section \<open>distributed\_base\_int\<close>

text \<open>
  The integer type of the template: how it is printed and read, and what its arithmetic makes of a result. For \<^verbatim>\<open>int\<close>
  and wider types a result outside the range is undefined; it can come up only when the counter of the server is at the
  end of the range, which the specification of the class leaves out.
\<close>

record int_kind =
  int_show :: "int \<Rightarrow> string"
  int_read :: "string \<Rightarrow> int option"
  int_wrap :: "int \<Rightarrow> int"

definition int_setnx :: "boost \<Rightarrow> int_kind \<Rightarrow> distributed_value \<Rightarrow> int \<Rightarrow> bool rio" where
  "int_setnx B K d v = client_setnx B (dkey d) (int_show K v)"

definition new_int :: "boost \<Rightarrow> int_kind \<Rightarrow> string \<Rightarrow> int \<Rightarrow> distributed_value rio" where
  "new_int B K k default_value =
     (let d = new_value k in sq (int_setnx B K d default_value) (ret d))"

definition int_assign :: "boost \<Rightarrow> int_kind \<Rightarrow> distributed_value \<Rightarrow> int \<Rightarrow> unit rio" where
  "int_assign B K d v = client_set B (dkey d) (int_show K v)"

definition to_int_type :: "int_kind \<Rightarrow> string \<Rightarrow> int res" where
  "to_int_type K v =
     (case cast (int_read K) v of
        Throw bad_lexical_cast \<Rightarrow> Throw (value_error ''value is not of integer type'')
      | r \<Rightarrow> r)"

definition int_value :: "boost \<Rightarrow> int_kind \<Rightarrow> distributed_value \<Rightarrow> int rio" where
  "int_value B K d = bnd (client_get B (dkey d)) (\<lambda>v. lift_res (to_int_type K v))"

definition int_copy :: "boost \<Rightarrow> int_kind \<Rightarrow> distributed_value \<Rightarrow> distributed_value \<Rightarrow> unit rio" where
  "int_copy B K d other =
     (if dkey d \<noteq> dkey other then bnd (int_value B K other) (int_assign B K d) else ret ())"

definition int_setex :: "boost \<Rightarrow> int_kind \<Rightarrow> distributed_value \<Rightarrow> int \<Rightarrow> nat \<Rightarrow> unit rio" where
  "int_setex B K d v secs = client_setex B (dkey d) (int_show K v) secs"

definition pre_increment :: "boost \<Rightarrow> int_kind \<Rightarrow> distributed_value \<Rightarrow> int rio" where
  "pre_increment B K d = client_incr_T B (int_read K) (dkey d)"

definition post_increment :: "boost \<Rightarrow> int_kind \<Rightarrow> distributed_value \<Rightarrow> int rio" where
  "post_increment B K d = bnd (client_incr_T B (int_read K) (dkey d)) (\<lambda>i. ret (int_wrap K (i - 1)))"

definition pre_decrement :: "boost \<Rightarrow> int_kind \<Rightarrow> distributed_value \<Rightarrow> int rio" where
  "pre_decrement B K d = client_decr_T B (int_read K) (dkey d)"

definition post_decrement :: "boost \<Rightarrow> int_kind \<Rightarrow> distributed_value \<Rightarrow> int rio" where
  "post_decrement B K d = bnd (client_decr_T B (int_read K) (dkey d)) (\<lambda>i. ret (int_wrap K (i + 1)))"

definition int_plus_assign :: "boost \<Rightarrow> int_kind \<Rightarrow> distributed_value \<Rightarrow> int \<Rightarrow> int rio" where
  "int_plus_assign B K d v = client_incrby_T B (int_show K) (int_read K) (dkey d) v"

definition int_minus_assign :: "boost \<Rightarrow> int_kind \<Rightarrow> distributed_value \<Rightarrow> int \<Rightarrow> int rio" where
  "int_minus_assign B K d v = client_decrby_T B (int_show K) (int_read K) (dkey d) v"

section \<open>distributed\_list\<close>

definition push_back :: "boost \<Rightarrow> distributed_value \<Rightarrow> string \<Rightarrow> unit rio" where
  "push_back B d v = sq (client_rpush B (dkey d) v) (ret ())"

definition push_front :: "boost \<Rightarrow> distributed_value \<Rightarrow> string \<Rightarrow> unit rio" where
  "push_front B d v = sq (client_lpush B (dkey d) v) (ret ())"

definition pop_back :: "boost \<Rightarrow> distributed_value \<Rightarrow> string rio" where
  "pop_back B d = client_rpop B (dkey d)"

definition blocking_pop_back :: "boost \<Rightarrow> distributed_value \<Rightarrow> int \<Rightarrow> string rio" where
  "blocking_pop_back B d timeout = client_brpop B (dkey d) timeout"

definition pop_front :: "boost \<Rightarrow> distributed_value \<Rightarrow> string rio" where
  "pop_front B d = client_lpop B (dkey d)"

definition blocking_pop_front :: "boost \<Rightarrow> distributed_value \<Rightarrow> int \<Rightarrow> string rio" where
  "blocking_pop_front B d timeout = client_blpop B (dkey d) timeout"

definition list_size :: "boost \<Rightarrow> distributed_value \<Rightarrow> nat rio" where
  "list_size B d = bnd (client_llen B (dkey d)) (\<lambda>n. ret (to_u32 n))"

definition list_range :: "boost \<Rightarrow> distributed_value \<Rightarrow> int \<Rightarrow> int \<Rightarrow> string list rio" where
  "list_range B d b e = bnd (client_lrange B (dkey d) b e []) (\<lambda>(n, res). ret res)"

definition to_vector :: "boost \<Rightarrow> distributed_value \<Rightarrow> string list rio" where
  "to_vector B d = list_range B d 0 (- 1)"

definition list_trim :: "boost \<Rightarrow> distributed_value \<Rightarrow> int \<Rightarrow> int \<Rightarrow> unit rio" where
  "list_trim B d b e = client_ltrim B (dkey d) b e"

definition list_index :: "boost \<Rightarrow> distributed_value \<Rightarrow> int \<Rightarrow> string rio" where
  "list_index B d i = client_lindex B (dkey d) i"

definition list_set :: "boost \<Rightarrow> distributed_value \<Rightarrow> int \<Rightarrow> string \<Rightarrow> unit rio" where
  "list_set B d i v = client_lset B (dkey d) i v"

section \<open>distributed\_unordered\_set\<close>

definition set_insert :: "boost \<Rightarrow> distributed_value \<Rightarrow> string \<Rightarrow> unit rio" where
  "set_insert B d v = sq (client_sadd B (dkey d) v) (ret ())"

definition set_erase :: "boost \<Rightarrow> distributed_value \<Rightarrow> string \<Rightarrow> unit rio" where
  "set_erase B d v = client_srem B (dkey d) v"

definition set_clear :: "boost \<Rightarrow> distributed_value \<Rightarrow> unit rio" where
  "set_clear B d = value_del B d"

definition set_count :: "boost \<Rightarrow> distributed_value \<Rightarrow> int rio" where
  "set_count B d = client_scard B (dkey d)"

definition pop_random :: "boost \<Rightarrow> distributed_value \<Rightarrow> string rio" where
  "pop_random B d = client_spop B (dkey d)"

definition get_random :: "boost \<Rightarrow> distributed_value \<Rightarrow> string rio" where
  "get_random B d = client_srandmember B (dkey d)"

definition set_contains :: "boost \<Rightarrow> distributed_value \<Rightarrow> string \<Rightarrow> bool rio" where
  "set_contains B d v = client_sismember B (dkey d) v"

end
