(* ===== verification/RedisCorrect.thy ===== *)
theory RedisCorrect
  imports Distributed
begin

text \<open>
  What the commands of the Redis client do, seen from the servers: \<open>outq\<close> is what a socket has been
  sent, \<open>inq\<close> the replies it will deliver. Every command is a sequence of sends and reads on these
  queues. Proved are the single exchange (once, for every reader that keeps the contract), the
  grouping of keys by server, and with them the commands that talk to several servers at once.
\<close>

section \<open>The client as queues\<close>

definition outq :: "redis \<Rightarrow> int \<Rightarrow> string" where
  "outq s k = outgoing (net (sys s) k)"

definition inq :: "redis \<Rightarrow> int \<Rightarrow> string" where
  "inq s k = pending (net (sys s)) k"

text \<open>The system accepts everything that is sent.\<close>

definition ready :: "redis \<Rightarrow> bool" where
  "ready s \<longleftrightarrow> (\<forall>k. sending (net (sys s) k) = [])"

definition moves :: "redis \<Rightarrow> redis \<Rightarrow> (int \<Rightarrow> string) \<Rightarrow> (int \<Rightarrow> string) \<Rightarrow> bool" where
  "moves s s' out' in' \<longleftrightarrow> ready s' \<and> connections s' = connections s \<and> outq s' = out' \<and> inq s' = in'"

lemma moves_refl: "ready s \<Longrightarrow> moves s s (outq s) (inq s)"
  by (simp add: moves_def)

lemma moves_trans: "moves s t out' in' \<Longrightarrow> moves t u out'' in'' \<Longrightarrow> moves s u out'' in''"
  by (simp add: moves_def)

lemma movesD:
  assumes "moves s s' out' in'"
  shows "ready s'" "connections s' = connections s" "outq s' = out'" "inq s' = in'"
  using assms by (simp_all add: moves_def)

lemma send_law:
  assumes "ready s"
  shows "\<exists>s'. send k msg s = (Ret (), s') \<and> moves s s' ((outq s)(k := outq s k @ msg)) (inq s)"
proof -
  have "sending (net (sys s) k) = []" using assms by (simp add: ready_def)
  from anetWrite_all [OF this, of msg] have
    "w32_anetWrite k msg (sys s) = (Ret (int (length msg)),
       (sys s)\<lparr>net := (net (sys s))(k := (net (sys s) k)\<lparr>outgoing := outgoing (net (sys s) k) @ msg\<rparr>)\<rparr>)"
    by (simp add: w32_anetWrite_def anetWrite_def w32_anetWrite_loop_eq)
  then show ?thesis
    using assms by (auto simp: send_def bnd_def on_os_def moves_def ready_def outq_def inq_def pending_def fun_eq_iff)
qed

lemma on_net_frame:
  assumes "ready s" "m (net (sys s)) = (r, w')" "pending w' k = rest" "same_but_incoming k (net (sys s)) w'"
  shows "\<exists>s'. on_net m s = (r, s') \<and> moves s s' (outq s) ((inq s)(k := rest))"
proof -
  have "pending w' g = pending (net (sys s)) g" if "g \<noteq> k" for g
    using same_but_incoming_frame(1) [OF assms(4)] that by simp
  then show ?thesis
    using assms same_but_incoming_frame(2,3) [OF assms(4)]
    by (auto simp: on_net_def moves_def ready_def outq_def inq_def fun_eq_iff)
qed

context wire_result
begin

lemma on_net_law:
  assumes "ready s" "ok x" "0 < k" "inq s k = render x @ rest"
  shows "\<exists>s'. on_net (recv k) s = (outcome x, s') \<and> moves s s' (outq s) ((inq s)(k := rest))"
proof -
  have "pending (net (sys s)) k = render x @ rest" using assms(4) by (simp add: inq_def)
  from recv_outcome [OF assms(2,3) this] obtain w' where "recv k (net (sys s)) = (outcome x, w')" "pending w' k = rest"
    "same_but_incoming k (net (sys s)) w'" by blast
  from on_net_frame [where m = "recv k", OF assms(1) this] show ?thesis .
qed

lemma on_socket_law:
  assumes "ready s" "ok x" "0 < k" "inq s k = render x @ rest"
  shows "\<exists>s'. on_socket k msg recv s = (outcome x, s') \<and>
    moves s s' ((outq s)(k := outq s k @ msg)) ((inq s)(k := rest))"
proof -
  from send_law [OF assms(1), of k msg] obtain t where
    t: "send k msg s = (Ret (), t)" "moves s t ((outq s)(k := outq s k @ msg)) (inq s)" by blast
  from on_net_law [of t x k rest] movesD [OF t(2)] assms obtain u where
    "on_net (recv k) t = (outcome x, u)" "moves t u (outq t) ((inq t)(k := rest))" by auto
  with t movesD [OF t(2)] show ?thesis by (auto simp: on_socket_def intro: moves_trans)
qed

end

section \<open>Routing\<close>

text \<open>The socket of a key: the only connection's, or the one its hash selects.\<close>

definition route :: "boost \<Rightarrow> connection_data list \<Rightarrow> string \<Rightarrow> int" where
  "route B cons key = (if length cons = 1 then socket (hd cons) else socket (cons ! (hash B key mod length cons)))"

lemma get_socket_route: "connections s \<noteq> [] \<Longrightarrow> get_socket B key s = (Ret (route B (connections s) key), s)"
  by (cases "connections s")
    (auto simp: get_socket_def socket_at_def default_hasher_def route_def bnd_def)

text \<open>A client whose constructor has run: connected, and the system takes what is sent.\<close>

definition connected :: "redis \<Rightarrow> bool" where
  "connected s \<longleftrightarrow> ready s \<and> connections s \<noteq> [] \<and> list_all (\<lambda>c. 0 < socket c) (connections s)"

lemma route_in: "cons \<noteq> [] \<Longrightarrow> route B cons key \<in> socket ` set cons"
  by (auto simp: route_def intro!: imageI)

lemma route_pos: "connected s \<Longrightarrow> 0 < route B (connections s) key"
  using route_in [of "connections s" B key] by (auto simp: connected_def list_all_iff)

lemma connected_moves: "connected s \<Longrightarrow> moves s s' o' i' \<Longrightarrow> connected s'"
  by (simp add: connected_def moves_def)

context wire_result
begin

lemma on_key_law:
  assumes "connected s" "ok x" "k = route B (connections s) key" "inq s k = render x @ rest"
  shows "\<exists>s'. on_key B key msg recv s = (outcome x, s') \<and> moves s s' ((outq s)(k := outq s k @ msg)) ((inq s)(k := rest))"
proof -
  have "get_socket B key s = (Ret k, s)"
    using assms(1,3) get_socket_route by (simp add: connected_def)
  moreover have "0 < k" "ready s" using assms(1,3) route_pos by (auto simp: connected_def)
  ultimately show ?thesis using on_socket_law [of s x k rest msg] assms by (simp add: on_key_def)
qed

lemma on_key_then:
  assumes "connected s" "ok x" "k = route B (connections s) key" "inq s k = render x @ rest"
    "\<And>y t. g y t = (f y, t)"
  shows "\<exists>s'. bnd (on_key B key msg recv) g s = (rbnd (outcome x) f, s') \<and>
    moves s s' ((outq s)(k := outq s k @ msg)) ((inq s)(k := rest))"
  using on_key_law [OF assms(1-4), of msg] assms(5) by (cases "outcome x") auto

end

text \<open>Conversions that keep the contract, and a client on two servers that deliver the given bytes, as an example.\<close>

definition std_boost :: boost where
  "std_boost =
     \<lparr>cast_long = (\<lambda>s. case read_int s of None \<Rightarrow> None | Some i \<Rightarrow> if long_range i then Some i else None),
      cast_ulong = (\<lambda>s. map_option nat (read_int s)), cast_ushort = (\<lambda>s. map_option nat (read_int s)),
      cast_double = (\<lambda>s. None), show_long = show_int, show_uint = show_nat, show_double = (\<lambda>_. []),
      show_literal = (\<lambda>s. s), hash = length, die = (\<lambda>n. n - 1)\<rparr>"

lemma std_boost_ok [simp]: "boost_ok std_boost"
  by (simp add: boost_ok_def std_boost_def)

lemma hash_std_boost [simp]: "hash std_boost = length"
  by (simp add: std_boost_def)

definition two_servers :: "connection_data list" where
  "two_servers = [(new_connection_data ''a'' 6379 0)\<lparr>socket := 3\<rparr>, (new_connection_data ''b'' 6379 0)\<lparr>socket := 4\<rparr>]"

definition demo_client :: "(int \<Rightarrow> string) \<Rightarrow> redis" where
  "demo_client ins =
     \<lparr>connections = two_servers,
      sys = (demo_os [] [] [])\<lparr>net := \<lambda>k. \<lparr>incoming = [Chunk (ins k)], sending = [], outgoing = []\<rparr>\<rparr>\<rparr>"

lemma demo_client [simp]:
  "connections (demo_client ins) = two_servers" "inq (demo_client ins) = ins" "outq (demo_client ins) = (\<lambda>_. [])"
  "connected (demo_client ins)" "ready (demo_client ins)"
  by (auto simp: demo_client_def inq_def outq_def pending_def connected_def ready_def two_servers_def)

section \<open>Grouping by server\<close>

lemma map_of_map_upd: "map_of (map_upd k f m) = (map_of m)(k \<mapsto> f (map_of m k))"
  if "sorted_wrt (<) (map fst m)"
  using that
proof (induction m)
  case (Cons e m)
  obtain k' v where e: "e = (k', v)" by (cases e)
  have none: "map_of m k = None" if "k < k'"
    using Cons.prems that e by (force simp: map_of_eq_None_iff)
  show ?case using Cons e none by (auto simp: fun_eq_iff)
qed simp

lemma fst_map_upd: "fst ` set (map_upd k f m) = insert k (fst ` set m)"
  by (induction k f m rule: map_upd.induct) auto

lemma sorted_map_upd: "sorted_wrt (<) (map fst m) \<Longrightarrow> sorted_wrt (<) (map fst (map_upd k f m))"
proof (induction m)
  case (Cons e m)
  obtain k' v where e: "e = (k', v)" by (cases e)
  show ?case using Cons e fst_map_upd [of k f m] by force
qed simp

definition groups :: "('a \<Rightarrow> int) \<Rightarrow> ('a \<Rightarrow> 'v option \<Rightarrow> 'v) \<Rightarrow> 'a list \<Rightarrow> (int \<times> 'v) list \<Rightarrow> (int \<times> 'v) list" where
  "groups rt add xs m = foldl (\<lambda>m x. map_upd (rt x) (add x) m) m xs"

text \<open>The value of a socket: its elements added one after the other, in order.\<close>

definition added :: "('a \<Rightarrow> 'v option \<Rightarrow> 'v) \<Rightarrow> 'a list \<Rightarrow> 'v option \<Rightarrow> 'v option" where
  "added add xs v = foldl (\<lambda>v x. Some (add x v)) v xs"

lemma groups_spec:
  "sorted_wrt (<) (map fst m) \<Longrightarrow>
     sorted_wrt (<) (map fst (groups rt add xs m)) \<and>
     map_of (groups rt add xs m) k = added add (filter (\<lambda>x. rt x = k) xs) (map_of m k)"
proof (induction xs arbitrary: m)
  case (Cons x xs)
  from Cons.IH [OF sorted_map_upd [OF Cons.prems]] Cons.prems show ?case
    by (auto simp: groups_def added_def map_of_map_upd)
qed (simp add: groups_def added_def)

lemma added_None: "added add xs v = None \<longleftrightarrow> xs = [] \<and> v = None"
  by (induction xs arbitrary: v) (auto simp: added_def)

lemma groups_entry:
  assumes "(k, v) \<in> set (groups rt add xs [])"
  shows "added add (filter (\<lambda>x. rt x = k) xs) None = Some v"
proof -
  have "distinct (map fst (groups rt add xs []))"
    using groups_spec [of "[]" rt add xs k] by (auto simp: strict_sorted_iff)
  then have "map_of (groups rt add xs []) k = Some v" using assms by simp
  then show ?thesis using groups_spec [of "[]" rt add xs k] by simp
qed

lemma group_by_socket_law:
  assumes "connections s \<noteq> []"
  shows "group_by_socket B keyof add xs s =
    (Ret (groups (\<lambda>x. route B (connections s) (keyof x)) add xs []), s)"
proof -
  have "fold_io (\<lambda>x m. bnd (get_socket B (keyof x)) (\<lambda>sk. ret (map_upd sk (add x) m))) xs m s =
      (Ret (groups (\<lambda>x. route B (connections s) (keyof x)) add xs m), s)" for m
    using assms by (induction xs arbitrary: m) (simp_all add: groups_def get_socket_route bnd_def)
  then show ?thesis by (simp add: group_by_socket_def)
qed

lemma for_each_send:
  assumes "ready s" "distinct (map fst m)"
  shows "\<exists>s'. for_each (\<lambda>(sk, x). send sk (f x)) m s = (Ret (), s') \<and>
    moves s s' (\<lambda>k. outq s k @ (case map_of m k of None \<Rightarrow> [] | Some x \<Rightarrow> f x)) (inq s)"
  using assms
proof (induction m arbitrary: s)
  case Nil
  then show ?case by (auto simp: moves_def)
next
  case (Cons e m)
  obtain k x where e: "e = (k, x)" by (cases e)
  from send_law [OF Cons.prems(1), of k "f x"] obtain t where
    t: "send k (f x) s = (Ret (), t)" "moves s t ((outq s)(k := outq s k @ f x)) (inq s)" by blast
  from Cons.IH [OF movesD(1) [OF t(2)]] Cons.prems(2) obtain u where
    u: "for_each (\<lambda>(sk, x). send sk (f x)) m t = (Ret (), u)"
      "moves t u (\<lambda>k. outq t k @ (case map_of m k of None \<Rightarrow> [] | Some x \<Rightarrow> f x)) (inq t)" by auto
  have none: "map_of m k = None" using Cons.prems(2) e by (simp add: map_of_eq_None_iff)
  have "(\<lambda>g. outq t g @ (case map_of m g of None \<Rightarrow> [] | Some x \<Rightarrow> f x)) =
      (\<lambda>g. outq s g @ (case map_of (e # m) g of None \<Rightarrow> [] | Some x \<Rightarrow> f x))"
    using movesD(3) [OF t(2)] none e by (auto simp: fun_eq_iff)
  with t u e movesD [OF t(2)] show ?case by (auto intro: moves_trans)
qed

section \<open>Pipelines over several servers\<close>

text \<open>
  Replies read one by one, each from the socket of its command, when every socket delivers the
  replies of its own commands in order.
\<close>

definition replies_for :: "('a \<Rightarrow> int) \<Rightarrow> ('r \<Rightarrow> string) \<Rightarrow> ('a \<times> 'r) list \<Rightarrow> int \<Rightarrow> string" where
  "replies_for rt render crs k = concat (map (\<lambda>(c, r). render r) (filter (\<lambda>(c, r). rt c = k) crs))"

lemma replies_for_Cons:
  "replies_for rt render ((c, r) # crs) k = (if rt c = k then render r else []) @ replies_for rt render crs k"
  by (simp add: replies_for_def)

lemma collect_replies:
  assumes "connected s" "boost_ok B" "list_all reply_ok (map snd crs)"
    "inq s = (\<lambda>k. replies_for (\<lambda>c. route B (connections s) (hash_key c)) render_reply crs k @ rest k)"
  shows "\<exists>s'. collect (recv_command B) (map fst crs) s =
      (Ret (map (\<lambda>(c, r). set_reply c r) crs), s') \<and> moves s s' (outq s) rest"
  using assms
proof (induction crs arbitrary: s)
  case Nil
  then show ?case by (auto simp: moves_def connected_def replies_for_def)
next
  case (Cons e crs)
  obtain c r where e: "e = (c, r)" by (cases e)
  let ?rt = "\<lambda>c. route B (connections s) (hash_key c)"
  let ?k = "?rt c"
  have sock: "get_socket B (hash_key c) s = (Ret ?k, s)" and rdy: "ready s" and pos: "0 < ?k"
    using Cons.prems(1) route_pos by (auto simp: get_socket_route connected_def)
  have "inq s ?k = render_reply r @ replies_for ?rt render_reply crs ?k @ rest ?k"
    using Cons.prems(4) e by (simp add: replies_for_Cons)
  from generic_r.on_net_law [OF rdy _ pos this, of B] Cons.prems(2,3) e obtain t where
    t: "on_net (recv_generic_reply B ?k) s = (Ret r, t)"
      "moves s t (outq s) ((inq s)(?k := replies_for ?rt render_reply crs ?k @ rest ?k))" by auto
  have "inq t = (\<lambda>k. replies_for (\<lambda>c. route B (connections t) (hash_key c)) render_reply crs k @ rest k)"
    using movesD(2,4) [OF t(2)] Cons.prems(4) e by (auto simp: replies_for_Cons fun_eq_iff)
  moreover have "list_all reply_ok (map snd crs)" using Cons.prems(3) by simp
  ultimately obtain u where
    u: "collect (recv_command B) (map fst crs) t =
      (Ret (map (\<lambda>(c, r). set_reply c r) crs), u)" "moves t u (outq t) rest"
    using Cons.IH [OF connected_moves [OF Cons.prems(1) t(2)] Cons.prems(2)] by blast
  have "moves s u (outq s) rest" using moves_trans [OF t(2) u(2)] movesD(3) [OF t(2)] by simp
  moreover have "recv_command B c s = (Ret (set_reply c r), t)" using t(1) sock by (simp add: recv_command_def recv_into_def)
  ultimately show ?case using u(1) e by simp
qed

lemma added_requests: "added (\<lambda>c m. (case m of None \<Rightarrow> [] | Some r \<Rightarrow> r) @ request c) cs v =
  (if cs = [] then v else Some ((case v of None \<Rightarrow> [] | Some r \<Rightarrow> r) @ concat (map request cs)))"
proof (induction cs arbitrary: v)
  case (Cons c cs)
  from Cons [of "Some ((case v of None \<Rightarrow> [] | Some r \<Rightarrow> r) @ request c)"] show ?case
    by (simp add: added_def)
qed (simp add: added_def)

text \<open>The pieces of a list that the groups' indices hold, put in place one group after the other.\<close>

definition place :: "nat list \<Rightarrow> (nat \<Rightarrow> string) \<Rightarrow> string list \<Rightarrow> string list" where
  "place idx f out = foldl (\<lambda>out i. out[i := f i]) out idx"

lemma scatter_place: "scatter idx (map f idx) out = Ret (place idx f out)"
  by (induction idx arbitrary: out) (simp_all add: place_def)

lemma length_place [simp]: "length (place idx f out) = length out"
  by (induction idx arbitrary: out) (simp_all add: place_def)

lemma nth_place: "i < length out \<Longrightarrow> place idx f out ! i = (if i \<in> set idx then f i else out ! i)"
  by (induction idx arbitrary: out) (auto simp: place_def nth_list_update)

text \<open>Groups of requests, and the requests of one socket.\<close>

lemma groups_sorted: "sorted_wrt (<) (map fst (groups rt add xs []))"
  and groups_distinct: "distinct (map fst (groups rt add xs []))"
  using groups_spec [of "[]" rt add xs] by (auto simp: strict_sorted_iff)

lemma groups_lookup: "map_of (groups rt add xs []) k = added add (filter (\<lambda>x. rt x = k) xs) None"
  using groups_spec [of "[]" rt add xs k] by simp

definition requests_for :: "(command \<Rightarrow> int) \<Rightarrow> command list \<Rightarrow> int \<Rightarrow> string" where
  "requests_for rt cs k = concat (map request (filter (\<lambda>c. rt c = k) cs))"

lemma group_requests:
  "(case map_of (groups rt (\<lambda>c m. (case m of None \<Rightarrow> [] | Some r \<Rightarrow> r) @ request c) cs []) k of
      None \<Rightarrow> [] | Some x \<Rightarrow> x) = requests_for rt cs k"
  by (simp add: groups_lookup added_requests requests_for_def)

text \<open>
  Property C8. A pipeline of commands over several servers: when every server answers the requests
  sent to it in their order, \<^verbatim>\<open>exec\<close> of a vector of commands ends with each command holding its own
  reply; every server has been sent exactly the requests of the commands whose key it holds, in
  order, and what follows the replies is left unread.
\<close>

theorem exec_vec_pipelines:
  assumes "connected s" "boost_ok B" "list_all reply_ok (map snd crs)"
    "inq s = (\<lambda>k. replies_for (\<lambda>c. route B (connections s) (hash_key c)) render_reply crs k @ rest k)"
  shows "\<exists>s'. exec_vec B (map fst crs) s = (Ret (map (\<lambda>(c, r). set_reply c r) crs), s') \<and>
    connections s' = connections s \<and> inq s' = rest \<and>
    outq s' = (\<lambda>k. outq s k @ requests_for (\<lambda>c. route B (connections s) (hash_key c)) (map fst crs) k)"
proof -
  let ?rt = "\<lambda>c. route B (connections s) (hash_key c)"
  let ?m = "groups ?rt (\<lambda>c m. (case m of None \<Rightarrow> [] | Some r \<Rightarrow> r) @ request c) (map fst crs) []"
  have con: "connections s \<noteq> []" "ready s" using assms(1) by (auto simp: connected_def)
  have "distinct (map fst ?m)" by (rule groups_distinct)
  from for_each_send [OF con(2) this, of "\<lambda>x. x"] obtain t where
    t: "for_each (\<lambda>(sk, x). send sk x) ?m s = (Ret (), t)"
      "moves s t (\<lambda>k. outq s k @ requests_for ?rt (map fst crs) k) (inq s)"
    unfolding group_requests by blast
  have "inq t = (\<lambda>k. replies_for (\<lambda>c. route B (connections t) (hash_key c)) render_reply crs k @ rest k)"
    using movesD(2,4) [OF t(2)] assms(4) by simp
  from collect_replies [OF connected_moves [OF assms(1) t(2)] assms(2,3) this] obtain u where
    u: "collect (recv_command B) (map fst crs) t = (Ret (map (\<lambda>(c, r). set_reply c r) crs), u)"
      "moves t u (outq t) rest" by blast
  have "exec_vec B (map fst crs) s = (Ret (map (\<lambda>(c, r). set_reply c r) crs), u)"
    using t(1) u(1) by (simp add: exec_vec_def group_by_socket_law [OF con(1)])
  with movesD [OF t(2)] movesD [OF u(2)] show ?thesis by auto
qed

definition demo_command :: "string \<Rightarrow> string \<Rightarrow> command" where
  "demo_command c k = \<lparr>request = cmd c [k], hash_key = k, reply = (no_reply, Str [])\<rparr>"

theorem exec_vec_pipelines_witness:
  "\<exists>s'. exec_vec std_boost [demo_command ''INCR'' ''ab'', demo_command ''GET'' ''x'', demo_command ''INCR'' ''ab'']
      (demo_client (replies_for (\<lambda>c. route std_boost two_servers (hash_key c)) render_reply
        [(demo_command ''INCR'' ''ab'', (int_reply, IntV 7)), (demo_command ''GET'' ''x'', (bulk_reply, Str ''v'')), (demo_command ''INCR'' ''ab'', (int_reply, IntV 8))])) =
    (Ret [set_reply (demo_command ''INCR'' ''ab'') (int_reply, IntV 7), set_reply (demo_command ''GET'' ''x'') (bulk_reply, Str ''v''), set_reply (demo_command ''INCR'' ''ab'') (int_reply, IntV 8)], s')"
  using exec_vec_pipelines [of "demo_client (replies_for (\<lambda>c. route std_boost two_servers (hash_key c)) render_reply
        [(demo_command ''INCR'' ''ab'', (int_reply, IntV 7)), (demo_command ''GET'' ''x'', (bulk_reply, Str ''v'')), (demo_command ''INCR'' ''ab'', (int_reply, IntV 8))])" std_boost
      "[(demo_command ''INCR'' ''ab'', (int_reply, IntV 7)), (demo_command ''GET'' ''x'', (bulk_reply, Str ''v'')), (demo_command ''INCR'' ''ab'', (int_reply, IntV 8))]" "\<lambda>_. []"]
  by (auto simp: reply_ok_def long_range_def bulk_ok_def)

section \<open>Values of several keys\<close>

text \<open>For each server, the \<^verbatim>\<open>MGET\<close> request of its keys and their places in the list.\<close>

lemma added_keys:
  "added add_key kis (Some (c, idx)) = Some (foldl mc_str c (map fst kis), idx @ map snd kis)"
  by (induction kis arbitrary: c idx) (simp_all add: added_def add_key_def)

lemma added_keys_None:
  "added add_key kis None =
     (if kis = [] then None else Some (foldl mc_str (new_makecmd ''MGET'') (map fst kis), map snd kis))"
proof (cases kis)
  case (Cons ki kis')
  then show ?thesis
    using added_keys [of kis' "mc_str (new_makecmd ''MGET'') (fst ki)" "[snd ki]"]
    by (simp add: added_def add_key_def)
qed (simp add: added_def)

definition places :: "(string \<Rightarrow> int) \<Rightarrow> string list \<Rightarrow> int \<Rightarrow> nat list" where
  "places rt keys k = filter (\<lambda>i. rt (keys ! i) = k) [0..<length keys]"

lemma filter_enumerated:
  "filter (\<lambda>ki. rt (fst ki) = k) (zip keys [0..<length keys]) = map (\<lambda>i. (keys ! i, i)) (places rt keys k)"
proof -
  have "zip keys [0..<length keys] = map (\<lambda>i. (keys ! i, i)) [0..<length keys]"
    by (rule nth_equalityI) auto
  then show ?thesis by (simp add: filter_map comp_def places_def)
qed

lemma mget_groups:
  "map_of (groups (\<lambda>ki. rt (fst ki)) add_key (zip keys [0..<length keys]) []) k =
     (if places rt keys k = [] then None
      else Some (foldl mc_str (new_makecmd ''MGET'') (map ((!) keys) (places rt keys k)), places rt keys k))"
  by (simp add: groups_lookup filter_enumerated added_keys_None comp_def)

text \<open>What the servers are sent, and the replies that give every key the value \<open>vals\<close> has for it.\<close>

definition mget_request :: "(string \<Rightarrow> int) \<Rightarrow> string list \<Rightarrow> int \<Rightarrow> string" where
  "mget_request rt keys k =
     (if places rt keys k = [] then [] else cmd ''MGET'' (map ((!) keys) (places rt keys k)))"

definition mget_reply :: "(string \<Rightarrow> int) \<Rightarrow> string list \<Rightarrow> string option list \<Rightarrow> int \<Rightarrow> string" where
  "mget_reply rt keys vals k =
     (if places rt keys k = [] then [] else opt_multi (map ((!) vals) (places rt keys k)))"

lemma mget_sends:
  "(case map_of (groups (\<lambda>ki. rt (fst ki)) add_key (zip keys [0..<length keys]) []) k of
      None \<Rightarrow> [] | Some x \<Rightarrow> (\<lambda>(c, idx). mc_string c) x) = mget_request rt keys k"
  by (simp add: mget_groups mget_request_def cmd_def)

definition place_all :: "(int \<times> makecmd \<times> nat list) list \<Rightarrow> (nat \<Rightarrow> string) \<Rightarrow> string list \<Rightarrow> string list" where
  "place_all m f out = foldl (\<lambda>out (k, c, idx). place idx f out) out m"

lemma length_place_all [simp]: "length (place_all m f out) = length out"
  by (induction m arbitrary: out) (auto simp: place_all_def)

lemma nth_place_all:
  "i < length out \<Longrightarrow>
     place_all m f out ! i = (if \<exists>(k, c, idx)\<in>set m. i \<in> set idx then f i else out ! i)"
proof (induction m arbitrary: out)
  case (Cons e m)
  then have "place_all (e # m) f out ! i = place_all m f (place (snd (snd e)) f out) ! i"
    by (cases e) (simp add: place_all_def)
  with Cons.IH [of "place (snd (snd e)) f out"] Cons.prems show ?case by (cases e) (auto simp: nth_place)
qed (simp add: place_all_def)

text \<open>One reply from every server of a group, each combined with what the servers before it gave.\<close>

context wire_value
begin

lemma fold_sockets:
  assumes "ready s" "distinct (map fst m)"
    "\<forall>e\<in>set m. 0 < fst e \<and> ok (x e) \<and> inq s (fst e) = render (x e) @ rest (fst e)"
    "\<forall>k. k \<notin> fst ` set m \<longrightarrow> inq s k = rest k"
    "\<And>e b t. h e (val (x e)) b t = (Ret (g e b), t)"
  shows "\<exists>s'. fold_io (\<lambda>e b. bnd (on_net (recv (fst e))) (\<lambda>a. h e a b)) m b s = (Ret (foldl (\<lambda>b e. g e b) b m), s') \<and>
    moves s s' (outq s) rest"
  using assms(1-4)
proof (induction m arbitrary: s b)
  case Nil
  then show ?case by (auto simp: moves_def fun_eq_iff)
next
  case (Cons e m)
  let ?k = "fst e" and ?f = "\<lambda>e b. bnd (on_net (recv (fst e))) (\<lambda>a. h e a b)"
  from on_net_law [of s "x e" ?k "rest ?k"] Cons.prems(1,3) obtain t where
    t: "on_net (recv ?k) s = (Ret (val (x e)), t)" "moves s t (outq s) ((inq s)(?k := rest ?k))" by auto
  have "\<forall>e'\<in>set m. fst e' \<noteq> ?k" using Cons.prems(2) by (auto simp: image_iff)
  with Cons.prems(3) have "\<forall>e'\<in>set m. 0 < fst e' \<and> ok (x e') \<and> inq t (fst e') = render (x e') @ rest (fst e')"
    using movesD(4) [OF t(2)] by auto
  moreover have "\<forall>k. k \<notin> fst ` set m \<longrightarrow> inq t k = rest k" using Cons.prems(4) movesD(4) [OF t(2)] by auto
  ultimately obtain u where
    u: "fold_io ?f m (g e b) t = (Ret (foldl (\<lambda>b e. g e b) (g e b) m), u)" "moves t u (outq t) rest"
    using Cons.IH [OF movesD(1) [OF t(2)], of "g e b"] Cons.prems(2) by auto
  have "moves s u (outq s) rest" using moves_trans [OF t(2) u(2)] movesD(3) [OF t(2)] by simp
  then show ?case using t(1) u(1) assms(5) by (simp add: bnd_def)
qed

end

lemma recv_all_values:
  assumes "ready s" "boost_ok B" "distinct (map fst m)"
    "\<forall>(k, c, idx)\<in>set m. 0 < k \<and> length idx \<le> 153391689 \<and> list_all (\<lambda>i. opt_ok (f i)) idx \<and>
       inq s k = opt_multi (map f idx) @ rest k"
    "\<forall>k. k \<notin> fst ` set m \<longrightarrow> inq s k = rest k"
  shows "\<exists>s'. fold_io (recv_values B) m out s = (Ret (place_all m (\<lambda>i. opt_value (f i)) out), s') \<and>
    moves s s' (outq s) rest"
proof -
  let ?h = "\<lambda>e a out. lift_res (scatter (snd (snd e)) (snd a) out)"
  have "\<forall>e\<in>set m. 0 < fst e \<and> (boost_ok B \<and> list_all opt_ok (map f (snd (snd e))) \<and> length (map f (snd (snd e))) \<le> 153391689) \<and>
      inq s (fst e) = opt_multi (map f (snd (snd e))) @ rest (fst e)"
    using assms(2,4) by (force simp: list_all_iff)
  from opt_multi_r.fold_sockets [where h = ?h and g = "\<lambda>e. place (snd (snd e)) (\<lambda>i. opt_value (f i))", OF assms(1,3) this assms(5)]
  obtain s' where "fold_io (\<lambda>e b. bnd (on_net (recv_multi_bulk_reply B (fst e) [])) (\<lambda>a. ?h e a b)) m out s =
      (Ret (foldl (\<lambda>b e. place (snd (snd e)) (\<lambda>i. opt_value (f i)) b) out m), s')" "moves s s' (outq s) rest"
    by (auto simp: comp_def scatter_place)
  moreover have "recv_values B = (\<lambda>e b. bnd (on_net (recv_multi_bulk_reply B (fst e) [])) (\<lambda>a. ?h e a b))"
    by (simp add: fun_eq_iff recv_values_def case_prod_unfold)
  ultimately show ?thesis by (auto simp: place_all_def case_prod_unfold)
qed

lemma mget_entry:
  assumes "(k, c, idx) \<in> set (groups (\<lambda>ki. rt (fst ki)) add_key (zip keys [0..<length keys]) [])"
  shows "idx = places rt keys k" "places rt keys k \<noteq> []"
  using map_of_is_SomeI [OF groups_distinct assms] by (auto simp: mget_groups split: if_splits)

lemma mget_covers:
  assumes "i < length keys"
  shows "\<exists>(k, c, idx)\<in>set (groups (\<lambda>ki. rt (fst ki)) add_key (zip keys [0..<length keys]) []). i \<in> set idx"
proof -
  have "i \<in> set (places rt keys (rt (keys ! i)))" using assms by (simp add: places_def)
  moreover from this have "places rt keys (rt (keys ! i)) \<noteq> []" by auto
  ultimately show ?thesis
    using map_of_SomeD [of "groups (\<lambda>ki. rt (fst ki)) add_key (zip keys [0..<length keys]) []" "rt (keys ! i)"]
    by (fastforce simp: mget_groups)
qed

lemma mget_values_in_place:
  assumes "length vals = length keys"
  shows "place_all (groups (\<lambda>ki. rt (fst ki)) add_key (zip keys [0..<length keys]) [])
    (\<lambda>i. opt_value (vals ! i)) (replicate (length keys) []) = map opt_value vals"
  using assms mget_covers [of _ keys rt] by (intro nth_equalityI) (simp_all add: nth_place_all)

lemma places_ok:
  assumes "length vals = length keys" "list_all opt_ok vals" "length keys \<le> 153391689"
  shows "list_all (\<lambda>i. opt_ok (vals ! i)) (places rt keys k)" "length (places rt keys k) \<le> 153391689"
  using assms order_trans [OF length_filter_le, of "[0..<length keys]" 153391689]
  by (auto simp: list_all_iff list_all_length places_def)

text \<open>
  Property C9. \<^verbatim>\<open>mget\<close> over several servers: every server is sent one \<^verbatim>\<open>MGET\<close> of exactly the keys it
  holds, a server without keys nothing, and when each answers with the values of its keys, the
  result is the list of all values in the order the keys were asked for, the marker
  \<open>missing_value\<close> standing for a key that does not exist.
\<close>

theorem client_mget_in_key_order:
  assumes "connected s" "boost_ok B" "length vals = length keys" "list_all opt_ok vals" "length keys \<le> 153391689"
    "rt = route B (connections s)" "inq s = (\<lambda>k. mget_reply rt keys vals k @ rest k)"
  shows "\<exists>s'. client_mget B keys s = (Ret (map opt_value vals), s') \<and> connections s' = connections s \<and>
    inq s' = rest \<and> outq s' = (\<lambda>k. outq s k @ mget_request rt keys k)"
proof -
  let ?m = "groups (\<lambda>ki. rt (fst ki)) add_key (zip keys [0..<length keys]) []"
  let ?f = "(!) vals"
  have con: "connections s \<noteq> []" "ready s" using assms(1) by (auto simp: connected_def)
  have dist: "distinct (map fst ?m)" by (rule groups_distinct)
  from for_each_send [OF con(2) dist, of "\<lambda>(c, idx). mc_string c"] obtain t where
    t: "for_each (\<lambda>(sk, x). send sk ((\<lambda>(c, idx). mc_string c) x)) ?m s = (Ret (), t)"
      "moves s t (\<lambda>k. outq s k @ mget_request rt keys k) (inq s)" unfolding mget_sends by blast
  have pos: "0 < k" if "places rt keys k \<noteq> []" for k
    using that route_pos [OF assms(1)] assms(6) by (auto simp: places_def filter_empty_conv)
  have each: "\<forall>(k, c, idx)\<in>set ?m. 0 < k \<and> length idx \<le> 153391689 \<and> list_all (\<lambda>i. opt_ok (?f i)) idx \<and>
      inq t k = opt_multi (map ?f idx) @ rest k"
  proof (safe)
    fix k c idx assume e: "(k, c, idx) \<in> set ?m"
    note mget_entry [OF e]
    then show "0 < k" "length idx \<le> 153391689" "list_all (\<lambda>i. opt_ok (?f i)) idx" "inq t k = opt_multi (map ?f idx) @ rest k"
      using pos places_ok [OF assms(3-5)] movesD(4) [OF t(2)] assms(7) by (auto simp: mget_reply_def)
  qed
  have none: "\<forall>k. k \<notin> fst ` set ?m \<longrightarrow> inq t k = rest k"
    using movesD(4) [OF t(2)] assms(7) mget_groups [of rt keys]
    by (auto simp: mget_reply_def map_of_eq_None_iff [symmetric] split: if_splits)
  from recv_all_values [OF movesD(1) [OF t(2)] assms(2) dist each none] obtain u where
    u: "fold_io (recv_values B) ?m (replicate (length keys) []) t =
        (Ret (place_all ?m (\<lambda>i. opt_value (?f i)) (replicate (length keys) [])), u)" "moves t u (outq t) rest" by blast
  then have "client_mget B keys s = (Ret (map opt_value vals), u)"
    using t(1) mget_values_in_place [OF assms(3), of rt]
    by (simp add: client_mget_def group_by_socket_law [OF con(1)] assms(6) case_prod_unfold)
  with movesD [OF t(2)] movesD [OF u(2)] show ?thesis by auto
qed

theorem client_mget_in_key_order_witness:
  "\<exists>s'. client_mget std_boost [''ab'', ''x'', ''cd'']
      (demo_client (mget_reply (route std_boost two_servers) [''ab'', ''x'', ''cd''] [Some ''1'', None, Some ''3''])) =
    (Ret [''1'', missing_value, ''3''], s')"
  using client_mget_in_key_order [of "demo_client (mget_reply (route std_boost two_servers) [''ab'', ''x'', ''cd'']
      [Some ''1'', None, Some ''3''])" std_boost "[Some ''1'', None, Some ''3'']" "[''ab'', ''x'', ''cd'']"
      "route std_boost two_servers" "\<lambda>_. []"]
  by (auto simp: opt_ok_def bulk_ok_def opt_value_def)

end
