(* ===== verification/RedisStore.thy ===== *)
theory RedisStore
  imports RedisCorrect
begin

text \<open>
  Connecting to a server, and transactions: when the commands of a transaction live on one server they
  run there in one piece, otherwise nothing is sent.
\<close>

section \<open>Connecting\<close>

lemma base_client_run:
  assumes "gethostbyname N h = Some a" "answers (sys s) = (k, e1) # (0, e2) # (r, e3) # as" "0 < k" "ready s"
    "connections s = []" "password \<noteq> []" "inq s k = status_line ''OK'' @ status_line ''OK'' @ rest"
  shows "\<exists>s'. base_client N B h p d password s = (Ret (), s') \<and> connected s' \<and>
    connections s' = [(new_connection_data h p d)\<lparr>socket := k\<rparr>] \<and> inq s' = (inq s)(k := rest) \<and>
    outq s' = (outq s)(k := outq s k @ cmd ''AUTH'' [password] @ cmd ''SELECT'' [show_long B d])"
proof -
  let ?con = "(new_connection_data h p d)\<lparr>socket := k\<rparr>"
  let ?s1 = "s\<lparr>sys := (sys s)\<lparr>answers := (r, e3) # as, trace := trace (sys s) @ [Socket, Connect k a (int p)]\<rparr>\<rparr>"
  let ?s2 = "s\<lparr>sys := (sys s)\<lparr>answers := as,
    trace := trace (sys s) @ [Socket, Connect k a (int p), Setsockopt k ''TCP_NODELAY'' 1]\<rparr>\<rparr>"
  have con: "on_os (w32_anetTcpConnect N (Some []) h (int p)) s = (Ret (k, Some []), ?s1)"
    using assms(1-3) by (simp add: on_os_def w32_anetTcpConnect_def w32_socket_def syscall_def bnd_def Let_def)
  have opt: "\<exists>x. on_os (w32_anetTcpNoDelay None k) ?s1 = (Ret x, ?s2)"
    by (simp add: on_os_def w32_anetTcpNoDelay_def syscall_def bnd_def Let_def)
  have q2: "ready ?s2" "outq ?s2 = outq s" "inq ?s2 = inq s" "connections ?s2 = []"
    using assms(4,5) by (simp_all add: ready_def outq_def inq_def fun_eq_iff)
  from ok_r.on_socket_law [OF q2(1) TrueI assms(3), of "status_line ''OK'' @ rest" "cmd ''AUTH'' [password]"] q2 assms(7)
  obtain t where t: "on_socket k (cmd ''AUTH'' [password]) recv_ok_reply ?s2 = (Ret (), t)"
    "moves ?s2 t ((outq s)(k := outq s k @ cmd ''AUTH'' [password])) ((inq s)(k := status_line ''OK'' @ rest))" by auto
  from ok_r.on_socket_law [OF movesD(1) [OF t(2)] TrueI assms(3), of rest "cmd ''SELECT'' [show_long B d]"] movesD [OF t(2)]
  obtain u where u: "on_socket k (cmd ''SELECT'' [show_long B d]) recv_ok_reply t = (Ret (), u)"
    "moves t u ((outq t)(k := outq t k @ cmd ''SELECT'' [show_long B d])) ((inq t)(k := rest))" by auto
  have none: "connections u = []" "connections t = []" using movesD(2) [OF t(2)] movesD(2) [OF u(2)] q2(4) by simp_all
  have fields: "host (new_connection_data h p d) = h" "port (new_connection_data h p d) = p" "dbindex ?con = d"
    by (simp_all add: new_connection_data_def)
  have "auth password ?con ?s2 = (Ret (), t)" using t(1) by (simp add: auth_def)
  moreover have "select_con B d ?con t = (Ret (), u)" using u(1) none by (simp add: select_con_def)
  ultimately have "init N B (new_connection_data h p d) password s = (Ret ?con, u)"
    using con opt assms(3,6) by (auto simp: init_def fields Let_def ANET_ERR_def)
  then have run: "base_client N B h p d password s = (Ret (), u\<lparr>connections := [?con]\<rparr>)"
    using none by (simp add: base_client_def push_connection_def)
  have "connected (u\<lparr>connections := [?con]\<rparr>)"
    using movesD(1) [OF u(2)] assms(3) by (simp add: connected_def ready_def)
  moreover have "inq (u\<lparr>connections := [?con]\<rparr>) = inq u" "outq (u\<lparr>connections := [?con]\<rparr>) = outq u"
    by (simp_all add: inq_def outq_def fun_eq_iff)
  ultimately show ?thesis using run movesD [OF t(2)] movesD [OF u(2)] by simp
qed

text \<open>
  Property C30. The constructor of the client: when the host is known, the system gives a socket and
  connects it, and the server accepts password and database, the result is a connected client with
  that one server, which has been sent exactly the two requests and has nothing left unread.
\<close>

theorem base_client_connects:
  assumes "gethostbyname N h = Some a" "answers (sys s) = (k, e1) # (0, e2) # (r, e3) # as" "0 < k" "ready s"
    "connections s = []" "password \<noteq> []" "inq s k = status_line ''OK'' @ status_line ''OK'' @ rest"
  shows "\<exists>s'. base_client N B h p d password s = (Ret (), s') \<and> connected s' \<and>
    connections s' = [(new_connection_data h p d)\<lparr>socket := k\<rparr>] \<and> inq s' = (inq s)(k := rest) \<and>
    outq s' = (outq s)(k := outq s k @ cmd ''AUTH'' [password] @ cmd ''SELECT'' [show_long B d])"
  by (rule base_client_run [OF assms])

definition demo_names :: names where
  "demo_names = \<lparr>inet_aton = (\<lambda>_. None), gethostbyname = (\<lambda>_. Some 1), inet_ntoa = (\<lambda>_. [])\<rparr>"

definition welcoming_os :: os where
  "welcoming_os = demo_os [Chunk (status_line ''OK'' @ status_line ''OK'')] [] [(5, EINTR), (0, EINTR), (0, EINTR)]"

lemma welcoming_os:
  "gethostbyname demo_names h = Some 1"
  "answers (sys \<lparr>connections = [], sys = welcoming_os\<rparr>) = (5, EINTR) # (0, EINTR) # (0, EINTR) # []"
  "ready \<lparr>connections = [], sys = welcoming_os\<rparr>"
  "inq \<lparr>connections = [], sys = welcoming_os\<rparr> 5 = status_line ''OK'' @ status_line ''OK'' @ []"
  by (simp_all add: demo_names_def welcoming_os_def demo_os_def ready_def inq_def pending_def)

theorem base_client_connects_witness:
  "\<exists>s'. base_client demo_names std_boost ''localhost'' 6379 0 ''secret'' \<lparr>connections = [], sys = welcoming_os\<rparr> = (Ret (), s') \<and>
     connected s'"
proof -
  have "connections \<lparr>connections = [], sys = welcoming_os\<rparr> = []" "(0::int) < 5" "''secret'' \<noteq> []" by simp_all
  from base_client_connects [OF welcoming_os(1,2) this(2) welcoming_os(3) this(1,3) welcoming_os(4)] show ?thesis by blast
qed

section \<open>Transactions\<close>

lemma transaction_socket_same:
  assumes "connections s \<noteq> []" "\<forall>c\<in>set cs. route B (connections s) (hash_key c) = k" "sk = - 1 \<or> sk = k"
  shows "transaction_socket B cs sk s = (Ret (if cs = [] then sk else k), s)"
  using assms
proof (induction cs arbitrary: sk)
  case (Cons c cs)
  then show ?case by (cases "cs = []") (auto simp: get_socket_route)
qed simp

lemma transaction_socket_split:
  assumes "connected s" "0 < k" "\<exists>c\<in>set cs. route B (connections s) (hash_key c) \<noteq> k"
  shows "transaction_socket B cs k s = (Throw (runtime_error ''calls in transaction map to different server!''), s)"
  using assms
proof (induction cs)
  case (Cons c cs)
  then show ?case by (auto simp: get_socket_route connected_def)
qed simp

lemma on_net_read_line:
  assumes "ready s" "0 < k" "line_ok l" "inq s k = l @ LBR @ rest"
  shows "\<exists>s'. on_net (read_line k) s = (Ret l, s') \<and> moves s s' (outq s) ((inq s)(k := rest))"
proof -
  from read_line_law [OF assms(3,2)] assms(4) obtain w' where "read_line k (net (sys s)) = (Ret l, w')"
    "pending w' k = rest" "same_but_incoming k (net (sys s)) w'" unfolding inq_def by blast
  from on_net_frame [where m = "read_line k", OF assms(1) this] show ?thesis .
qed

lemma expect_queued_all:
  assumes "ready s" "0 < k" "inq s k = concat (map (\<lambda>_. status_line ''QUEUED'') cs) @ rest"
  shows "\<exists>s'. for_each (\<lambda>_. expect_queued k) cs s = (Ret (), s') \<and> moves s s' (outq s) ((inq s)(k := rest))"
  using assms
proof (induction cs arbitrary: s)
  case Nil
  then show ?case by (auto simp: moves_def fun_upd_idem)
next
  case (Cons c cs)
  have "line_ok ''QUEUED''" by (simp add: line_ok_def)
  from status_r.on_net_law [OF Cons.prems(1) this Cons.prems(2)] Cons.prems(3) obtain t where
    t: "on_net (recv_single_line_reply k) s = (Ret ''QUEUED'', t)"
      "moves s t (outq s) ((inq s)(k := concat (map (\<lambda>_. status_line ''QUEUED'') cs) @ rest))"
    by auto
  have "inq t k = concat (map (\<lambda>_. status_line ''QUEUED'') cs) @ rest" using movesD(4) [OF t(2)] by simp
  from Cons.IH [OF movesD(1) [OF t(2)] Cons.prems(2) this] obtain u where
    u: "for_each (\<lambda>_. expect_queued k) cs t = (Ret (), u)" "moves t u (outq t) ((inq t)(k := rest))" by blast
  have "expect_queued k s = (Ret (), t)" using t(1) by (simp add: expect_queued_def)
  moreover have "moves s u (outq s) ((inq s)(k := rest))"
    using moves_trans [OF t(2) u(2)] movesD(3,4) [OF t(2)] by simp
  ultimately show ?case using u(1) by (simp del: fun_upd_apply)
qed

lemma recv_into_all:
  assumes "ready s" "0 < k" "boost_ok B" "list_all reply_ok (map snd crs)"
    "inq s k = concat (map (\<lambda>e. render_reply (snd e)) crs) @ rest"
  shows "\<exists>s'. collect (recv_into B k) (map fst crs) s = (Ret (map (\<lambda>(c, r). set_reply c r) crs), s') \<and>
    moves s s' (outq s) ((inq s)(k := rest))"
  using assms
proof (induction crs arbitrary: s)
  case Nil
  then show ?case by (auto simp: moves_def fun_upd_idem)
next
  case (Cons e crs)
  obtain c r where e: "e = (c, r)" by (cases e)
  from generic_r.on_net_law [OF Cons.prems(1) _ Cons.prems(2), of B r "concat (map (\<lambda>e. render_reply (snd e)) crs) @ rest"]
    Cons.prems(3-5) e obtain t where
    t: "on_net (recv_generic_reply B k) s = (Ret r, t)"
      "moves s t (outq s) ((inq s)(k := concat (map (\<lambda>e. render_reply (snd e)) crs) @ rest))" by auto
  have "list_all reply_ok (map snd crs)" "inq t k = concat (map (\<lambda>e. render_reply (snd e)) crs) @ rest"
    using Cons.prems(4) movesD(4) [OF t(2)] by simp_all
  from Cons.IH [OF movesD(1) [OF t(2)] Cons.prems(2,3) this] obtain u where
    u: "collect (recv_into B k) (map fst crs) t = (Ret (map (\<lambda>(c, r). set_reply c r) crs), u)"
      "moves t u (outq t) ((inq t)(k := rest))" by blast
  have "recv_into B k c s = (Ret (set_reply c r), t)" using t(1) by (simp add: recv_into_def)
  moreover have "moves s u (outq s) ((inq s)(k := rest))"
    using moves_trans [OF t(2) u(2)] movesD(3,4) [OF t(2)] by simp
  ultimately show ?case using u(1) e by (simp del: fun_upd_apply)
qed

text \<open>The stream of a server that runs the transaction.\<close>

definition transaction_reply :: "reply_data list \<Rightarrow> string" where
  "transaction_reply rs =
     status_line ''OK'' @ concat (map (\<lambda>_. status_line ''QUEUED'') rs) @
     ''*'' @ show_nat (length rs) @ LBR @ concat (map render_reply rs)"

text \<open>
  Property C14. A transaction whose commands all live on one server is sent to it in one piece,
  between \<^verbatim>\<open>MULTI\<close> and \<^verbatim>\<open>EXEC\<close>, and when the server runs it every command gets its own reply and
  exactly the replies of the transaction are read.
\<close>

theorem exec_transaction_runs:
  assumes "connected s" "boost_ok B" "crs \<noteq> []" "list_all reply_ok (map snd crs)"
    "\<forall>(c, r)\<in>set crs. route B (connections s) (hash_key c) = k"
    "inq s k = transaction_reply (map snd crs) @ rest"
  shows "\<exists>s'. exec_transaction B (map fst crs) s = (Ret (map (\<lambda>(c, r). set_reply c r) crs), s') \<and>
    connections s' = connections s \<and> inq s' = (inq s)(k := rest) \<and>
    outq s' = (outq s)(k := outq s k @ cmd ''MULTI'' [] @ concat (map (\<lambda>e. request (fst e)) crs) @ cmd ''EXEC'' [])"
proof -
  obtain c0 r0 where "(c0, r0) \<in> set crs" using assms(3) by (cases crs) auto
  then have pos: "0 < k" using assms(5) route_pos [OF assms(1), of B "hash_key c0"] by auto
  have con: "connections s \<noteq> []" "ready s" using assms(1) by (auto simp: connected_def)
  have sock: "transaction_socket B (map fst crs) (- 1) s = (Ret k, s)"
    using transaction_socket_same [of s "map fst crs" B k "- 1"] con assms(3,5) by (auto simp: case_prod_unfold)
  let ?req = "cmd ''MULTI'' [] @ concat (map request (map fst crs)) @ cmd ''EXEC'' []"
  let ?q = "concat (map (\<lambda>_. status_line ''QUEUED'') (map fst crs)) @ ''*'' @ show_nat (length crs) @ LBR @
    concat (map (\<lambda>e. render_reply (snd e)) crs) @ rest"
  from send_law [OF con(2), of k ?req] obtain t1 where
    t1: "send k ?req s = (Ret (), t1)" "moves s t1 ((outq s)(k := outq s k @ ?req)) (inq s)" by blast
  have "inq t1 k = status_line ''OK'' @ ?q"
    using movesD(4) [OF t1(2)] assms(6) by (simp add: transaction_reply_def comp_def)
  from ok_r.on_net_law [OF movesD(1) [OF t1(2)] TrueI pos this] obtain t2 where
    t2: "on_net (recv_ok_reply k) t1 = (Ret (), t2)" "moves t1 t2 (outq t1) ((inq t1)(k := ?q))" by blast
  from expect_queued_all [OF movesD(1) [OF t2(2)] pos, of "map fst crs"] movesD(4) [OF t2(2)] obtain t3 where
    t3: "for_each (\<lambda>_. expect_queued k) (map fst crs) t2 = (Ret (), t3)"
      "moves t2 t3 (outq t2) ((inq t2)(k := ''*'' @ show_nat (length crs) @ LBR @ concat (map (\<lambda>e. render_reply (snd e)) crs) @ rest))"
    by auto
  have "line_ok (''*'' @ show_nat (length crs))"
    using line_ok_show_int [of "CHR ''*''" "int (length crs)"] by (simp add: show_int_nat)
  from on_net_read_line [OF movesD(1) [OF t3(2)] pos this] movesD(4) [OF t3(2)] obtain t4 where
    t4: "on_net (read_line k) t3 = (Ret (''*'' @ show_nat (length crs)), t4)"
      "moves t3 t4 (outq t3) ((inq t3)(k := concat (map (\<lambda>e. render_reply (snd e)) crs) @ rest))" by auto
  from recv_into_all [OF movesD(1) [OF t4(2)] pos assms(2,4)] movesD(4) [OF t4(2)] obtain t5 where
    t5: "collect (recv_into B k) (map fst crs) t4 = (Ret (map (\<lambda>(c, r). set_reply c r) crs), t5)"
      "moves t4 t5 (outq t4) ((inq t4)(k := rest))" by auto
  have "exec_transaction B (map fst crs) s = (Ret (map (\<lambda>(c, r). set_reply c r) crs), t5)"
    using sock t1(1) t2(1) t3(1) t4(1) t5(1) by (simp add: exec_transaction_def)
  with movesD [OF t1(2)] movesD [OF t2(2)] movesD [OF t3(2)] movesD [OF t4(2)] movesD [OF t5(2)]
  show ?thesis by (simp add: comp_def)
qed

theorem exec_transaction_runs_witness:
  "\<exists>s'. exec_transaction std_boost [demo_command ''INCR'' ''ab'', demo_command ''GET'' ''cd'']
      (demo_client (\<lambda>_. transaction_reply [(int_reply, IntV 7), (bulk_reply, Str ''v'')])) =
    (Ret [set_reply (demo_command ''INCR'' ''ab'') (int_reply, IntV 7),
          set_reply (demo_command ''GET'' ''cd'') (bulk_reply, Str ''v'')], s')"
  using exec_transaction_runs [of "demo_client (\<lambda>_. transaction_reply [(int_reply, IntV 7), (bulk_reply, Str ''v'')])"
      std_boost "[(demo_command ''INCR'' ''ab'', (int_reply, IntV 7)), (demo_command ''GET'' ''cd'', (bulk_reply, Str ''v''))]" 3 "[]"]
  by (auto simp: reply_ok_def long_range_def bulk_ok_def demo_command_def route_def two_servers_def
      new_connection_data_def)

text \<open>
  A transaction whose commands live on different servers is refused before anything is
  sent: the client is left as it was.
\<close>

theorem exec_transaction_refuses_split:
  assumes "connected s" "\<exists>d\<in>set cs. route B (connections s) (hash_key d) \<noteq> route B (connections s) (hash_key c)"
  shows "exec_transaction B (c # cs) s = (Throw (runtime_error ''calls in transaction map to different server!''), s)"
proof -
  have "transaction_socket B (c # cs) (- 1) s = transaction_socket B cs (route B (connections s) (hash_key c)) s"
    using assms(1) by (simp add: get_socket_route connected_def)
  then show ?thesis
    using transaction_socket_split [OF assms(1) route_pos [OF assms(1)] assms(2)] by (simp add: exec_transaction_def)
qed

theorem exec_transaction_refuses_split_witness:
  "exec_transaction std_boost [demo_command ''INCR'' ''ab'', demo_command ''GET'' ''x''] (demo_client (\<lambda>_. [])) =
     (Throw (runtime_error ''calls in transaction map to different server!''), demo_client (\<lambda>_. []))"
  by (rule exec_transaction_refuses_split)
    (simp_all add: demo_command_def route_def two_servers_def new_connection_data_def)

end
