(* ===== verification/RedisEdges.thy ===== *)
theory RedisEdges
  imports RedisStore
begin

text \<open>
  The Redis client on the edges of the protocol: servers that report errors, connections that close
  inside a reply, long lines, pipelined requests and replies, and the commands whose behaviour
  differs from what their name or documentation says.
\<close>

section \<open>Connections that close\<close>

text \<open>After what a socket still delivers the peer closes.\<close>

fun closing :: "'b recv_event list \<Rightarrow> bool" where
  "closing [] = False"
| "closing (Chunk bs # es) = closing es"
| "closing (Failed EINTR # es) = closing es"
| "closing (Failed (Errno m) # es) = False"
| "closing (Closed # es) = True"

definition closes :: "int \<Rightarrow> 'b net \<Rightarrow> bool" where
  "closes fd w = closing (incoming (w fd))"

lemma recv_events_closing:
  "closing es \<Longrightarrow> recv_events n peek es = (r, es') \<Longrightarrow>
     closing es' \<and> (r = RecvError EINTR \<or> (if pending_events es = [] then r = PeerClosed else \<exists>bs. r = Got bs))"
  by (induction n peek es rule: recv_events.induct) (auto split: if_splits elim: pending_events.elims closing.elims)

lemma sock_recv_closing:
  assumes "closes fd w" "sock_recv fd n peek w = (r, w')"
  shows "closes fd w'" "r = RecvError EINTR \<or> (if pending w fd = [] then r = PeerClosed else \<exists>bs. r = Got bs)"
  using assms recv_events_closing [of "incoming (w fd)" n peek r "incoming (w' fd)"]
  by (auto simp: sock_recv_def closes_def pending_def split: prod.splits)

definition closed_error :: exn where
  "closed_error = connection_error ''connection was closed''"

lemma recv_or_throw_closes:
  "closes fd w \<Longrightarrow> closes fd (snd (recv_or_throw fd n peek w)) \<and>
     (pending w fd = [] \<longrightarrow> fst (recv_or_throw fd n peek w) = Throw closed_error)"
proof (induction fd n peek w rule: recv_or_throw.induct)
  case (1 fd n peek w)
  obtain r w' where recv: "sock_recv fd n peek w = (r, w')" by (cases "sock_recv fd n peek w")
  note cl = sock_recv_closing [OF "1.prems" recv]
  show ?case
  proof (cases "r = RecvError EINTR")
    case True
    with "1.IH" [OF recv [symmetric] True refl cl(1)] recv pending_interrupted [of fd n peek w w'] show ?thesis
      by (subst (1 2) recv_or_throw.simps) simp
  next
    case False
    with cl recv show ?thesis by (subst (1 2) recv_or_throw.simps) (auto simp: closed_error_def split: if_splits)
  qed
qed

lemma recv_or_throw_closed:
  assumes "closes fd w" "pending w fd = []"
  shows "\<exists>w'. recv_or_throw fd n peek w = (Throw closed_error, w') \<and> closes fd w'"
  using recv_or_throw_closes [OF assms(1), of n peek] assms(2) by (cases "recv_or_throw fd n peek w") auto

lemma closes_after: "closes fd w \<Longrightarrow> recv_or_throw fd n peek w = (r, w') \<Longrightarrow> closes fd w'"
  using recv_or_throw_closes [of fd w n peek] by simp

text \<open>A line that ends before its line feed, and a block that ends before its length.\<close>

lemma up_to_eol_none: "CHR 0x0A \<notin> set bs \<Longrightarrow> up_to_eol bs = bs"
  by (auto simp: up_to_eol_def takeWhile_eq_all_conv)

lemma read_line_loop_cut:
  assumes "closes fd w" "CHR 0x0A \<notin> set (pending w fd)"
  shows "\<exists>w'. read_line_loop fd oss w = (Throw closed_error, w')"
  using assms
proof (induction "length (pending w fd)" arbitrary: w oss rule: less_induct)
  case less
  show ?case
  proof (cases "pending w fd = []")
    case True
    with recv_or_throw_closed [OF less.prems(1), of 64 True] show ?thesis by (subst read_line_loop.simps) auto
  next
    case False
    from recv_or_throw_pending [OF False, of 64 True] obtain bs w1 where
      peek: "recv_or_throw fd 64 True w = (Ret bs, w1)" "bs \<noteq> []" "bs = take (length bs) (pending w fd)" by auto
    have bs: "CHR 0x0A \<notin> set bs" using peek(3) less.prems(2) by (metis in_set_takeD)
    from recv_or_throw_after_peek [OF peek(1), of "length bs"] peek(2) obtain w2 where
      w2: "recv_or_throw fd (length bs) False w1 = (Ret bs, w2)" "pending w2 fd = drop (length bs) (pending w fd)" by auto
    have "closes fd w2" using less.prems(1) peek(1) w2(1) closes_after by blast
    moreover have "CHR 0x0A \<notin> set (pending w2 fd)" using less.prems(2) w2(2) by (metis in_set_dropD)
    moreover have "length (pending w2 fd) < length (pending w fd)" using w2(2) peek(2) False by (cases bs) auto
    ultimately obtain w' where "read_line_loop fd (oss @ bs) w2 = (Throw closed_error, w')" using less.hyps by blast
    with peek(1) w2(1) bs show ?thesis by (subst read_line_loop.simps) (simp add: Let_def up_to_eol_none)
  qed
qed

lemma read_line_loop_closes: "closes fd w \<Longrightarrow> closes fd (snd (read_line_loop fd oss w))"
proof (induction fd oss w rule: read_line_loop.induct)
  case (1 fd oss w)
  obtain r w1 where r: "recv_or_throw fd 64 True w = (r, w1)" by (cases "recv_or_throw fd 64 True w")
  have c1: "closes fd w1" using "1.prems" r closes_after by blast
  show ?case
  proof (cases r)
    case (Ret bs)
    obtain q w2 where q: "recv_or_throw fd (length (up_to_eol bs)) False w1 = (q, w2)"
      by (cases "recv_or_throw fd (length (up_to_eol bs)) False w1")
    have c2: "closes fd w2" using c1 q closes_after by blast
    with "1.IH" [OF r [symmetric] Ret refl q [symmetric]] r q Ret show ?thesis
      by (cases q) (subst read_line_loop.simps, auto simp: Let_def)+
  qed (use r c1 in \<open>subst read_line_loop.simps, simp\<close>)+
qed

lemma read_n_loop_cut:
  assumes "closes fd w" "length buf + length (pending w fd) < n"
  shows "\<exists>w'. read_n_loop fd n buf w = (Throw closed_error, w')"
  using assms
proof (induction "length (pending w fd)" arbitrary: w buf rule: less_induct)
  case less
  then have n: "length buf \<noteq> n" "0 < n - length buf" by auto
  show ?case
  proof (cases "pending w fd = []")
    case True
    with recv_or_throw_closed [OF less.prems(1), of "n - length buf" False] n show ?thesis
      by (subst read_n_loop.simps) auto
  next
    case False
    from recv_or_throw_pending [OF False n(2), of False] obtain bs w1 where
      r: "recv_or_throw fd (n - length buf) False w = (Ret bs, w1)" "bs \<noteq> []" "bs = take (length bs) (pending w fd)"
        "pending w1 fd = drop (length bs) (pending w fd)" by auto
    have le: "length bs \<le> length (pending w fd)" using r(3) by (metis length_take min.cobounded1)
    have "closes fd w1" using less.prems(1) r(1) closes_after by blast
    moreover have "length (pending w1 fd) < length (pending w fd)" using r(2,4) le by (cases bs) auto
    moreover have "length (buf @ bs) + length (pending w1 fd) < n" using less.prems(2) r(4) le by simp
    ultimately obtain w' where "read_n_loop fd n (buf @ bs) w1 = (Throw closed_error, w')" using less.hyps by blast
    with r(1) n(1) show ?thesis by (subst read_n_loop.simps) simp
  qed
qed

lemma read_line_closes:
  assumes "closes fd w" "read_line fd w = (Ret l, w')"
  shows "closes fd w'"
proof (cases "0 < fd")
  case True
  then have "bnd (read_line_loop fd []) (\<lambda>line. ret (rtrim is_lbr line)) w = (Ret l, w')"
    using assms(2) by (simp add: read_line_def)
  then obtain line where "read_line_loop fd [] w = (Ret line, w')" by (auto elim: bnd_RetE)
  with read_line_loop_closes [OF assms(1), of "[]"] show ?thesis by simp
qed (use assms(2) in \<open>simp add: read_line_def sq_def bnd_def\<close>)

lemma read_line_cut:
  assumes "0 < fd" "closes fd w" "CHR 0x0A \<notin> set (pending w fd)"
  shows "\<exists>w'. read_line fd w = (Throw closed_error, w')"
  using read_line_loop_cut [OF assms(2,3), of "[]"] assms(1) by (auto simp: read_line_def)

text \<open>A prefix of a line and what follows it either lacks the line feed or has the whole line.\<close>

lemma cut_line:
  assumes "p @ cs = l @ LBR @ body" "CHR 0x0A \<notin> set l"
  shows "CHR 0x0A \<notin> set p \<or> (\<exists>q. p = l @ LBR @ q \<and> q @ cs = body)"
proof -
  have "p @ cs = (l @ [CHR 0x0D]) @ CHR 0x0A # body" using assms(1) by (simp add: LBR_def)
  from iffD1 [OF append_eq_append_conv2 this] obtain u where
    "p = (l @ [CHR 0x0D]) @ u \<and> u @ cs = CHR 0x0A # body \<or> p @ u = l @ [CHR 0x0D]" by blast
  then show ?thesis
  proof (elim disjE conjE)
    assume "p = (l @ [CHR 0x0D]) @ u" "u @ cs = CHR 0x0A # body"
    then show ?thesis using assms(2) by (cases u) (auto simp: LBR_def)
  next
    assume "p @ u = l @ [CHR 0x0D]"
    then have "set p \<subseteq> set (l @ [CHR 0x0D])" by (metis Un_upper1 set_append)
    then show ?thesis using assms(2) by auto
  qed
qed

lemma show_examples: "show_nat 4 = ''4''" "show_nat (Suc (Suc (Suc (Suc (Suc 0))))) = ''5''"
  by code_simp+

text \<open>
  Property C15. A connection that closes inside a bulk reply, wherever the cut is and however the bytes
  arrived, makes the read throw the error that says so: never a value, and never a wait for more.
\<close>

theorem recv_bulk_reply_cut:
  assumes "boost_ok B" "bulk_ok x" "0 < fd" "closes fd w" "pending w fd @ cs = bulk x" "cs \<noteq> []"
  shows "\<exists>w'. recv_bulk_reply B fd w = (Throw (connection_error ''connection was closed''), w')"
proof -
  let ?l = "CHR ''$'' # show_int (int (length x))"
  have lf: "CHR 0x0A \<notin> set ?l" using show_int_no_crlf by auto
  have "pending w fd @ cs = ?l @ LBR @ x @ LBR" using assms(5) by (simp add: bulk_def show_int_nat)
  from cut_line [OF this lf] show ?thesis
  proof (elim disjE exE conjE)
    assume "CHR 0x0A \<notin> set (pending w fd)"
    with read_line_cut [OF assms(3,4)] show ?thesis
      by (auto simp: recv_bulk_reply_def recv_bulk_length_def closed_error_def)
  next
    fix q assume q: "pending w fd = ?l @ LBR @ q" "q @ cs = x @ LBR"
    from read_int_line [of "CHR ''$''" fd w "int (length x)" q] assms(3) q(1) obtain w1 where
      w1: "read_line fd w = (Ret ?l, w1)" "pending w1 fd = q" by auto
    have len: "long_range (int (length x))" "long_range (int (length x) + 2)"
      using assms(2) by (auto simp: long_range_def bulk_ok_def)
    have "length q < length x + 2" using arg_cong [OF q(2), of length] assms(6) by (cases cs) (auto simp: LBR_def)
    with read_n_loop_cut [OF read_line_closes [OF assms(4) w1(1)], of "[]" "length x + 2"] w1(2)
    obtain w2 where w2: "read_n_loop fd (length x + 2) [] w1 = (Throw closed_error, w2)" by auto
    have "nat (int (length x) + 2) = length x + 2" by simp
    with w2 have "read_n fd (int (length x) + 2) w1 = (Throw closed_error, w2)" by (simp add: read_n_def)
    moreover have "recv_bulk_length B fd (CHR ''$'') w = (Ret (int (length x)), w1)"
      using w1(1) len(1) assms(1) by (simp add: recv_bulk_length_def cast_def boost_okD)
    ultimately show ?thesis using len(2) by (simp add: recv_bulk_reply_def Let_def wrap_long_id closed_error_def)
  qed
qed

theorem recv_bulk_reply_cut_witness:
  "\<exists>w'. recv_bulk_reply std_boost 3
     (\<lambda>_. \<lparr>incoming = [Chunk (''$5'' @ LBR @ ''he''), Failed EINTR, Chunk ''l'', Closed], sending = [], outgoing = []\<rparr>) =
     (Throw (connection_error ''connection was closed''), w')"
  by (rule recv_bulk_reply_cut [where x = "''hello''" and cs = "''lo'' @ LBR"])
    (simp_all add: bulk_ok_def closes_def pending_def bulk_def LBR_def show_examples)

section \<open>Pipelines\<close>

text \<open>
  Property C23. Replies of every type, pipelined on one socket in any segmentation, are read back one by
  one, in order and unchanged, and what follows them stays on the stream.
\<close>

theorem generic_replies_pipelined:
  assumes "boost_ok B" "list_all reply_ok rs" "0 < fd" "pending w fd = concat (map render_reply rs) @ rest"
  shows "\<exists>w'. collect (\<lambda>_. recv_generic_reply B fd) rs w = (Ret rs, w') \<and> pending w' fd = rest"
  using generic_r.recv_pipelined [of B rs fd w rest] assms by (auto simp: list_all_iff)

theorem generic_replies_pipelined_witness:
  "\<exists>w'. collect (\<lambda>_. recv_generic_reply std_boost 3) [(int_reply, IntV (- 4)), (multi_bulk_reply, Vec [''a'', []])]
     (\<lambda>_. \<lparr>incoming = [Chunk '':'', Chunk (''-4'' @ LBR @ multi_bulk [''a'', []])], sending = [], outgoing = []\<rparr>) =
     (Ret [(int_reply, IntV (- 4)), (multi_bulk_reply, Vec [''a'', []])], w')"
proof -
  have "\<exists>w'. collect (\<lambda>_. recv_generic_reply std_boost 3) [(int_reply, IntV (- 4)), (multi_bulk_reply, Vec [''a'', []])]
     (\<lambda>_. \<lparr>incoming = [Chunk '':'', Chunk (''-4'' @ LBR @ multi_bulk [''a'', []])], sending = [], outgoing = []\<rparr>) =
     (Ret [(int_reply, IntV (- 4)), (multi_bulk_reply, Vec [''a'', []])], w') \<and> pending w' 3 = []"
    by (rule generic_replies_pipelined)
      (simp_all add: reply_ok_def multi_ok_def bulk_ok_def long_range_def pending_def render_reply_def int_line_def
        show_int_def show_examples)
  then show ?thesis by blast
qed

text \<open>Requests, read back by the reference parser.\<close>

fun parse_pipeline :: "nat \<Rightarrow> string \<Rightarrow> (string list list \<times> string) option" where
  "parse_pipeline 0 s = Some ([], s)"
| "parse_pipeline (Suc n) s =
     (case parse_request s of
        None \<Rightarrow> None
      | Some (ws, t) \<Rightarrow> map_option (\<lambda>(wss, u). (ws # wss, u)) (parse_pipeline n t))"

text \<open>
  Property C26. Requests are binary safe: the text of any commands built with \<^verbatim>\<open>makecmd\<close>, written one
  after the other, is read back by a parser of the protocol as exactly the words given to the
  builder, command by command, whatever bytes the words contain.
\<close>

theorem makecmd_roundtrip:
  "parse_pipeline (length ms) (concat (map mc_string ms) @ s) = Some (map mc_lines ms, s)"
  by (induction ms) (simp_all add: parse_request_makecmd)

section \<open>Errors of the server\<close>

lemma client_set_refused:
  assumes "connected s" "line_ok msg" "k = route B (connections s) key" "inq s k = ERR @ msg @ LBR @ rest"
  shows "\<exists>s'. client_set B key v s = (Throw (protocol_error (if msg = [] then ''unknown error'' else msg)), s') \<and>
    moves s s' ((outq s)(k := outq s k @ cmd ''SET'' [key, v])) ((inq s)(k := rest))"
proof -
  have "error_ok (''ERR '' @ msg)" using assms(2) by (auto simp: error_ok_def line_ok_def)
  moreover have "inq s k = error_line (''ERR '' @ msg) @ rest" using assms(4) by (simp add: error_line_def ERR_def)
  ultimately show ?thesis
    using ok_e.on_key_law [OF assms(1) _ assms(3), of "''ERR '' @ msg" rest "cmd ''SET'' [key, v]", unfolded refusal_ERR]
    by (simp add: client_set_def)
qed

text \<open>
  An error reply to a command that expects a status is thrown as a \<open>protocol_error\<close> with the
  server's message, and the reply is off the stream, so the connection stays usable.
\<close>

theorem client_set_error:
  assumes "connected s" "line_ok msg" "k = route B (connections s) key" "inq s k = ERR @ msg @ LBR @ rest"
  shows "\<exists>s'. client_set B key v s = (Throw (protocol_error (if msg = [] then ''unknown error'' else msg)), s') \<and>
    connections s' = connections s \<and> inq s' = (inq s)(k := rest) \<and>
    outq s' = (outq s)(k := outq s k @ cmd ''SET'' [key, v])"
  using client_set_refused [OF assms, of v] unfolding moves_def by blast

theorem client_set_error_witness:
  "\<exists>s'. client_set std_boost ''ab'' ''v'' (demo_client (\<lambda>_. ERR @ ''readonly'' @ LBR)) =
     (Throw (protocol_error ''readonly''), s')"
  using client_set_error [of "demo_client (\<lambda>_. ERR @ ''readonly'' @ LBR)" "''readonly''" 3 std_boost "''ab''" "[]" "''v''"]
  by (auto simp: line_ok_def route_def two_servers_def new_connection_data_def)

text \<open>
  The generic reader assumes that every error starts with \<^verbatim>\<open>-ERR \<close>: of any other error line it
  drops the first five characters, and a line shorter than that makes it throw \<open>out_of_range\<close> instead of
  reporting the error.
\<close>

theorem generic_error_loses_prefix:
  assumes "0 < fd" "line_ok (CHR ''-'' # l)" "pending w fd = CHR ''-'' # l @ LBR @ rest"
  shows "\<exists>w'. recv_generic_reply B fd w =
      (if length l < 4 then Throw (out_of_range ''invalid string position'') else Ret (error_reply, Str (drop 4 l)), w') \<and>
    pending w' fd = rest"
proof -
  from next_reply_type_law [OF assms(3)] obtain w1 where
    w1: "next_reply_type fd w = (Ret error_reply, w1)" "pending w1 fd = (CHR ''-'' # l) @ LBR @ rest"
    using assms(3) by auto
  from read_line_law [OF assms(2,1) w1(2)] obtain w2 where
    "read_line fd w1 = (Ret (CHR ''-'' # l), w2)" "pending w2 fd = rest" by blast
  with w1(1) show ?thesis
    by (auto simp: recv_generic_reply_def recv_reply_of_def substr_from_def ERR_def eval_nat_numeral)
qed

theorem generic_error_loses_prefix_witness:
  "\<exists>w'. recv_generic_reply std_boost 3
     (\<lambda>_. \<lparr>incoming = [Chunk (''-WRONGTYPE bad'' @ LBR)], sending = [], outgoing = []\<rparr>) =
     (Ret (error_reply, Str ''GTYPE bad''), w')"
  using generic_error_loses_prefix [of 3 "''WRONGTYPE bad''"
      "\<lambda>_. \<lparr>incoming = [Chunk (''-WRONGTYPE bad'' @ LBR)], sending = [], outgoing = []\<rparr>" "[]" std_boost]
  by (auto simp: line_ok_def pending_def)

section \<open>Behaviour that differs from the documentation\<close>

text \<open>
  \<^verbatim>\<open>read_line\<close> has no bound: a line of any length is read in full, although the comment of
  the function says that a line above \<^verbatim>\<open>max_size\<close>, 2048 by default, gives an empty string.
\<close>

theorem read_line_unbounded:
  assumes "0 < fd"
  shows "\<exists>w'. read_line fd (w(fd := (w fd)\<lparr>incoming := [Chunk (replicate n (CHR ''x'') @ LBR @ rest)]\<rparr>)) =
      (Ret (replicate n (CHR ''x'')), w') \<and> pending w' fd = rest"
proof -
  let ?l = "replicate n (CHR ''x'')"
  have "line_ok ?l" by (auto simp: line_ok_def)
  from read_line_law [OF this assms, of "w(fd := (w fd)\<lparr>incoming := [Chunk (?l @ LBR @ rest)]\<rparr>)" rest]
  show ?thesis by (auto simp: pending_def)
qed

theorem read_line_unbounded_witness:
  "\<exists>w'. read_line 3 ((\<lambda>_. \<lparr>incoming = [], sending = [], outgoing = []\<rparr>)
      (3 := \<lparr>incoming = [Chunk (replicate 4096 (CHR ''x'') @ LBR @ [])], sending = [], outgoing = []\<rparr>)) =
     (Ret (replicate 4096 (CHR ''x'')), w')"
  using read_line_unbounded [of 3 "\<lambda>_. \<lparr>incoming = [], sending = [], outgoing = []\<rparr>" 4096 "[]"] by auto

text \<open>
  \<^verbatim>\<open>smembers\<close> returns the members the server sent as a set: each once, in order, and the
  number the server announced.
\<close>

theorem client_smembers_set:
  assumes "connected s" "boost_ok B" "multi_ok xs" "k = route B (connections s) key" "inq s k = multi_bulk xs @ rest"
  shows "\<exists>ys s'. client_smembers B key [] s = (Ret (int (length xs), ys), s') \<and>
    set ys = set xs \<and> distinct ys \<and> sorted ys \<and> inq s' = (inq s)(k := rest)"
  using set_r.on_key_law [OF assms(1) _ assms(4,5), of B "cmd ''SMEMBERS'' [key]"] assms(2,3) string_set [of xs]
  by (auto simp: client_smembers_def dest: movesD(4))

theorem client_smembers_set_witness:
  "\<exists>ys s'. client_smembers std_boost ''ab'' [] (demo_client (\<lambda>_. multi_bulk [''q'', ''p'', ''q''])) =
       (Ret (int (length [''q'', ''p'', ''q'']), ys), s') \<and>
     set ys = set [''q'', ''p'', ''q''] \<and> distinct ys \<and> sorted ys"
proof -
  have "3 = route std_boost (connections (demo_client (\<lambda>_. multi_bulk [''q'', ''p'', ''q'']))) ''ab''"
    "multi_ok [''q'', ''p'', ''q'']"
    "inq (demo_client (\<lambda>_. multi_bulk [''q'', ''p'', ''q''])) 3 = multi_bulk [''q'', ''p'', ''q''] @ []"
    by (simp_all add: multi_ok_def bulk_ok_def route_def two_servers_def new_connection_data_def)
  from client_smembers_set [OF demo_client(4) std_boost_ok this(2,1,3)] show ?thesis by blast
qed

text \<open>
  \<^verbatim>\<open>srandmember\<close> sends \<^verbatim>\<open>SPOP\<close>, the command that removes the member it returns from the set
  of the server, where \<^verbatim>\<open>SRANDMEMBER\<close> only looks at it.
\<close>

theorem client_srandmember_pops:
  assumes "connected s" "boost_ok B" "opt_ok v" "k = route B (connections s) key" "inq s k = opt_bulk v @ rest"
  shows "\<exists>s' req. client_srandmember B key s = (Ret (opt_value v), s') \<and> outq s' = (outq s)(k := outq s k @ req) \<and>
    parse_request req = Some ([''SPOP'', key], [])"
  using opt_r.on_key_law [OF assms(1) _ assms(4,5), of B "cmd ''SPOP'' [key]"] assms(2,3)
    parse_request_cmd [of "''SPOP''" "[key]" "[]"]
  by (auto simp: client_srandmember_def dest: movesD(3))

theorem client_srandmember_pops_witness:
  "\<exists>s' req. client_srandmember std_boost ''ab'' (demo_client (\<lambda>_. opt_bulk (Some ''m''))) = (Ret ''m'', s') \<and>
     outq s' 3 = req \<and> parse_request req = Some ([''SPOP'', ''ab''], [])"
proof -
  have "3 = route std_boost (connections (demo_client (\<lambda>_. opt_bulk (Some ''m'')))) ''ab''"
    "opt_ok (Some ''m'')" "inq (demo_client (\<lambda>_. opt_bulk (Some ''m''))) 3 = opt_bulk (Some ''m'') @ []"
    by (simp_all add: opt_ok_def bulk_ok_def route_def two_servers_def new_connection_data_def)
  from client_srandmember_pops [OF demo_client(4) std_boost_ok this(2,1,3)] show ?thesis
    by (auto simp: opt_value_def)
qed

section \<open>Replies and their types\<close>

lemma yields_on_net [intro!]: "yields P m \<Longrightarrow> yields P (on_net m)"
  by (auto simp: yields_def on_net_def split: prod.splits)

text \<open>The value of a reply is of the type its tag says, so that the accessor for the tag returns it.\<close>

definition well_typed :: "reply_data \<Rightarrow> bool" where
  "well_typed r =
     (case r of
        (no_reply, _) \<Rightarrow> False
      | (int_reply, v) \<Rightarrow> (case v of IntV _ \<Rightarrow> True | _ \<Rightarrow> False)
      | (multi_bulk_reply, v) \<Rightarrow> (case v of Vec _ \<Rightarrow> True | _ \<Rightarrow> False)
      | (_, v) \<Rightarrow> (case v of Str _ \<Rightarrow> True | _ \<Rightarrow> False))"

lemma recv_generic_typed: "yields well_typed (recv_generic_reply B fd)"
proof -
  have "yields well_typed (recv_reply_of B fd t)" for t
    by (cases t) (auto simp: recv_reply_of_def well_typed_def split: prod.splits)
  then show ?thesis by (auto simp: recv_generic_reply_def)
qed

definition answered :: "command \<Rightarrow> command \<Rightarrow> bool" where
  "answered c c' \<longleftrightarrow> request c' = request c \<and> hash_key c' = hash_key c \<and> well_typed (reply c')"

lemma recv_into_answered: "yields (answered c) (recv_into B sk c)"
  unfolding recv_into_def
  by (rule yields_bnd [OF yields_on_net [OF recv_generic_typed]]) (auto simp: answered_def set_reply_def)

lemma exec_vec_answered: "yields (list_all2 answered cs) (exec_vec B cs)"
  by (auto simp: exec_vec_def recv_command_def intro!: yields_collect recv_into_answered)

lemma exec_transaction_answered: "yields (list_all2 answered cs) (exec_transaction B cs)"
  by (auto simp: exec_transaction_def intro!: yields_collect recv_into_answered)

text \<open>The accessors of a command, by the type of its reply.\<close>

definition accessor :: "command \<Rightarrow> reply_val res" where
  "accessor c =
     (case reply_type c of
        no_reply \<Rightarrow> Throw bad_get
      | status_code_reply \<Rightarrow> rbnd (get_status_code_reply c) (\<lambda>s. Ret (Str s))
      | error_reply \<Rightarrow> rbnd (get_error_reply c) (\<lambda>s. Ret (Str s))
      | int_reply \<Rightarrow> rbnd (get_int_reply c) (\<lambda>i. Ret (IntV i))
      | bulk_reply \<Rightarrow> rbnd (get_bulk_reply c) (\<lambda>s. Ret (Str s))
      | multi_bulk_reply \<Rightarrow> rbnd (get_multi_bulk_reply c) (\<lambda>v. Ret (Vec v)))"

lemmas accessor_defs = accessor_def reply_type_def get_status_code_reply_def get_error_reply_def get_int_reply_def
  get_bulk_reply_def get_multi_bulk_reply_def check_reply_t_def get_str_def

lemma accessor_typed: "well_typed (reply c) \<Longrightarrow> accessor c = Ret (snd (reply c))"
  by (cases "reply c") (auto simp: well_typed_def accessor_defs split: reply_t.splits reply_val.splits)

text \<open>
  Property C17. Whatever the servers send, executed commands are well typed: when a pipeline or a
  transaction returns, every command is the one that was given, with a reply whose value has the type
  its tag says; so the accessor for the tag returns the value and never throws \<^verbatim>\<open>bad_get\<close>.
\<close>

theorem executed_commands_typed:
  assumes "exec_vec B cs s = (Ret cs', s') \<or> exec_transaction B cs s = (Ret cs', s')"
  shows "length cs' = length cs \<and>
    (\<forall>i<length cs. request (cs' ! i) = request (cs ! i) \<and> hash_key (cs' ! i) = hash_key (cs ! i) \<and>
       accessor (cs' ! i) = Ret (snd (reply (cs' ! i))))"
proof -
  have "list_all2 answered cs cs'"
    using assms exec_vec_answered exec_transaction_answered unfolding yields_def by blast
  then show ?thesis by (auto simp: list_all2_conv_all_nth answered_def accessor_typed)
qed

definition demo_commands :: "command list" where
  "demo_commands = [demo_command ''INCR'' ''ab'', demo_command ''GET'' ''x'']"

lemma demo_commands_run:
  "\<exists>s'. exec_vec std_boost demo_commands (demo_client (\<lambda>k. if k = route std_boost two_servers ''ab'' then '':7'' @ LBR else ''$-1'' @ LBR)) =
     (Ret [set_reply (demo_command ''INCR'' ''ab'') (int_reply, IntV 7), set_reply (demo_command ''GET'' ''x'') (bulk_reply, Str missing_value)], s')"
proof -
  have "fst (exec_vec std_boost demo_commands (demo_client (\<lambda>k. if k = route std_boost two_servers ''ab'' then '':7'' @ LBR else ''$-1'' @ LBR))) =
     Ret [set_reply (demo_command ''INCR'' ''ab'') (int_reply, IntV 7), set_reply (demo_command ''GET'' ''x'') (bulk_reply, Str missing_value)]"
    by code_simp
  then show ?thesis by (metis prod.collapse)
qed

theorem executed_commands_typed_witness:
  "\<exists>cs' s'. exec_vec std_boost demo_commands (demo_client (\<lambda>k. if k = route std_boost two_servers ''ab'' then '':7'' @ LBR else ''$-1'' @ LBR)) =
     (Ret cs', s') \<and> accessor (cs' ! 1) = Ret (Str missing_value)"
proof -
  from demo_commands_run obtain s' where run: "exec_vec std_boost demo_commands
      (demo_client (\<lambda>k. if k = route std_boost two_servers ''ab'' then '':7'' @ LBR else ''$-1'' @ LBR)) =
    (Ret [set_reply (demo_command ''INCR'' ''ab'') (int_reply, IntV 7), set_reply (demo_command ''GET'' ''x'') (bulk_reply, Str missing_value)], s')" ..
  from executed_commands_typed [OF disjI1 [OF run]] run show ?thesis by (auto simp: demo_commands_def set_reply_def)
qed

end
