(* ===== verification/Quotation.thy ===== *)
theory Quotation
  imports BarsCorrect RedisEdges
begin

text \<open>
  The worker threads of the application, src/HQTEST/Quotation.cpp, and its configuration,
  src/HQTEST/Config.cpp. A worker holds its share of the securities, a slot of the quotation DLL and
  a Redis client. When it is triggered it fetches two tables of candlesticks for each security and
  writes their lines to the security's database. SQLite is seen through the calls made to it, whose
  results the source only traces; the profile functions of Windows are the parameter \<open>profile\<close>. The two
  loops that depend on the environment have a bound on their turns as an argument, and running out of
  it is the outcome of a call that never returns.
\<close>

section \<open>Configuration\<close>

record profile =
  GetModuleFileNameA :: string
  GetPrivateProfileString :: "string \<Rightarrow> string \<Rightarrow> string \<Rightarrow> string \<Rightarrow> string"
  GetPrivateProfileInt :: "string \<Rightarrow> string \<Rightarrow> nat \<Rightarrow> string \<Rightarrow> nat"

record config =
  m_csDataPath :: string
  g_cs_mysql_host :: string
  g_cs_mysql_port :: nat
  g_cs_mysql_user :: string
  g_cs_mysql_password :: string
  g_cs_mysql_dbname :: string

definition backslash :: char where
  "backslash = CHR 0x5C"

text \<open>\<^verbatim>\<open>csExe.Left(csExe.ReverseFind(...))\<close>: nothing when the separator is not found.\<close>

definition exe_directory :: "string \<Rightarrow> string" where
  "exe_directory exe = rev (drop 1 (dropWhile (\<lambda>c. c \<noteq> backslash) (rev exe)))"

definition CConfig :: "profile \<Rightarrow> config" where
  "CConfig F =
     (let csIni = exe_directory (GetModuleFileNameA F) @ [backslash] @ ''HQTEST.ini'';
          str = (\<lambda>k d. GetPrivateProfileString F ''GLOBAL'' k d csIni)
      in \<lparr>m_csDataPath = str ''DataPath'' (''D:'' @ [backslash]),
          g_cs_mysql_host = str ''Mysql_host'' [],
          g_cs_mysql_port = GetPrivateProfileInt F ''GLOBAL'' ''Mysql_port'' 3306 csIni,
          g_cs_mysql_user = str ''Mysql_user'' [],
          g_cs_mysql_password = str ''Mysql_password'' [],
          g_cs_mysql_dbname = str ''Mysql_dbname'' []\<rparr>)"

section \<open>State of a worker\<close>

record stockcode =
  code :: string
  market :: string

definition null_stock :: stockcode where
  "null_stock = \<lparr>code = [], market = []\<rparr>"

record quotation =
  m_dwID :: nat
  m_iStockNum :: nat
  m_stockcode :: "stockcode list"
  g_bGetQuotation :: bool
  conID :: int
  redis_client :: redis

datatype sql_call = Open string | Exec string | Close_db

text \<open>What a turn of a worker works on: itself, the globals of the DLL, the calls to SQLite.\<close>

record station =
  worker :: quotation
  dll :: tdx
  sql :: "sql_call list"

type_synonym 'a sio = "(station, 'a) io"

definition on_dll :: "'a tio \<Rightarrow> 'a sio" where
  "on_dll m s = (case m (dll s) of (r, d) \<Rightarrow> (r, s\<lparr>dll := d\<rparr>))"

definition on_redis :: "'a rio \<Rightarrow> 'a sio" where
  "on_redis m s =
     (case m (redis_client (worker s)) of (r, c) \<Rightarrow> (r, s\<lparr>worker := (worker s)\<lparr>redis_client := c\<rparr>\<rparr>))"

definition call_sql :: "sql_call \<Rightarrow> unit sio" where
  "call_sql c s = (Ret (), s\<lparr>sql := sql s @ [c]\<rparr>)"

text \<open>
  The constructor: it copies the given number of securities into an array of 400, reading the
  caller's array from the given place on, and connects a Redis client. The other fields keep what
  the memory held, \<open>raw\<close>, until the thread starts with \<^verbatim>\<open>InitInstance\<close>.
\<close>

definition MAXSTOCK :: nat where
  "MAXSTOCK = 400"

definition CQuotation :: "names \<Rightarrow> boost \<Rightarrow> quotation \<Rightarrow> nat \<Rightarrow> stockcode list \<Rightarrow> nat \<Rightarrow> os \<Rightarrow> quotation res" where
  "CQuotation N B raw dwID pStockCode iStockNum o' =
     (if MAXSTOCK < iStockNum \<or> length pStockCode < iStockNum then Abort Undefined
      else case base_client N B ''14.25.93.208'' 6379 0 ''myPassword'' \<lparr>connections = [], sys = o'\<rparr> of
             (Ret _, c) \<Rightarrow>
               Ret (raw\<lparr>m_dwID := dwID, m_iStockNum := iStockNum,
                        m_stockcode := take iStockNum pStockCode @ replicate (MAXSTOCK - iStockNum) null_stock,
                        redis_client := c\<rparr>)
           | (Throw e, c) \<Rightarrow> Throw e
           | (Abort f, c) \<Rightarrow> Abort f)"

definition InitInstance :: "quotation \<Rightarrow> quotation" where
  "InitInstance q = q\<lparr>g_bGetQuotation := False, conID := - 1\<rparr>"

section \<open>A turn of the thread\<close>

text \<open>Connecting: the loop ends only with a slot.\<close>

fun connect_loop :: "nat \<Rightarrow> unit sio" where
  "connect_loop fuel s =
     (if 0 \<le> conID (worker s) then (Ret (), s)
      else case fuel of
             0 \<Rightarrow> (Abort Blocked, s)
           | Suc n \<Rightarrow>
               bnd (on_dll TDXHQ_Connect)
                 (\<lambda>id t. connect_loop n (t\<lparr>worker := (worker t)\<lparr>conID := id\<rparr>\<rparr>)) s)"

declare connect_loop.simps [simp del]

text \<open>A character array as a string: up to its first zero.\<close>

definition c_str :: "string \<Rightarrow> string res" where
  "c_str buf = (if CHR 0x00 \<in> set buf then Ret (takeWhile (\<lambda>c. c \<noteq> CHR 0x00) buf) else Abort Undefined)"

text \<open>The rows of a table after its header, each one statement, up to the first empty row.\<close>

fun save_rows :: "platform \<Rightarrow> nat \<Rightarrow> string \<Rightarrow> string \<Rightarrow> nat \<Rightarrow> unit sio" where
  "save_rows P 0 stmt text iRow = abort Blocked"
| "save_rows P (Suc fuel) stmt text iRow =
     (let csLine = AfxExtractSubString P text iRow (CHR 0x0A)
      in if csLine = [] then ret ()
         else sq (call_sql (Exec (stmt @ csLine @ '')''))) (save_rows P fuel stmt text (iRow + 1)))"

definition RESULTSIZE :: nat where
  "RESULTSIZE = 256 * 800"

definition fetch_table :: "platform \<Rightarrow> nat \<Rightarrow> nat \<Rightarrow> nat \<Rightarrow> string \<Rightarrow> nat \<Rightarrow> string \<Rightarrow> unit sio" where
  "fetch_table P fuel Category mk stock count stmt s =
     bnd (on_dll (TDXHQ_GetSecurityBars P (conID (worker s)) Category mk stock 0 count (replicate RESULTSIZE (CHR 0x00))))
       (\<lambda>(result, n, szResult). bnd (lift_res (c_str szResult)) (\<lambda>text. save_rows P fuel stmt text 1)) s"

definition SQL_MIN30 :: string where
  "SQL_MIN30 = ''REPLACE INTO Min30(DateTime,Open,Close,Hight,Low,Vol,amount) Values(''"

definition SQL_MIN5 :: string where
  "SQL_MIN5 = ''REPLACE INTO Min5(DateTime,Open,Close,Hight,Low,Vol,TureOver) Values(''"

definition db_path :: "config \<Rightarrow> stockcode \<Rightarrow> string \<times> nat" where
  "db_path cfg st =
     (if market st \<noteq> [] \<and> hd (market st) = CHR ''0''
      then (m_csDataPath cfg @ [backslash] @ ''SZ'' @ [backslash] @ code st @ ''.db'', 0)
      else if market st \<noteq> [] \<and> hd (market st) = CHR ''1''
      then (m_csDataPath cfg @ [backslash] @ ''SH'' @ [backslash] @ code st @ ''.db'', 1)
      else (m_csDataPath cfg, 0))"

definition process_stock :: "config \<Rightarrow> platform \<Rightarrow> boost \<Rightarrow> nat \<Rightarrow> stockcode \<Rightarrow> unit sio" where
  "process_stock cfg P B fuel st =
     (let (csDbPath, mk) = db_path cfg st
      in sq (call_sql (Open csDbPath))
        (sq (on_redis (select B 0))
        (sq (on_redis (client_publish B ''data'' ''message''))
        (sq (on_redis (select B 1))
        (sq (on_redis (client_publish B ''kline5'' ''message9''))
        (sq (fetch_table P fuel 2 mk (code st) 2 SQL_MIN30)
        (sq (fetch_table P fuel 0 mk (code st) 3 SQL_MIN5)
            (call_sql Close_db))))))))"

definition process_all :: "config \<Rightarrow> platform \<Rightarrow> boost \<Rightarrow> nat \<Rightarrow> unit sio" where
  "process_all cfg P B fuel s =
     for_each (\<lambda>i t. if i < length (m_stockcode (worker t)) then process_stock cfg P B fuel (m_stockcode (worker t) ! i) t
                     else (Abort Undefined, t))
       [0..<m_iStockNum (worker s)] s"

text \<open>
  One turn of the loop of \<^verbatim>\<open>Run\<close>, by a worker that is not disturbed. \<open>quit\<close> says that the message pump has
  ended; the result says whether the thread goes on.
\<close>

definition Run_turn :: "config \<Rightarrow> platform \<Rightarrow> boost \<Rightarrow> nat \<Rightarrow> bool \<Rightarrow> bool sio" where
  "Run_turn cfg P B fuel quit s =
     (if quit then (Ret False, s)
      else if g_bGetQuotation (worker s) then
        sq (connect_loop fuel)
          (sq (process_all cfg P B fuel)
            (\<lambda>t. (Ret True, t\<lparr>worker := (worker t)\<lparr>g_bGetQuotation := False\<rparr>\<rparr>))) s
      else (Ret True, s))"

text \<open>
  The thread as the timer and the other workers see it, in steps between which they run: where it is in
  its code, before \<^verbatim>\<open>InitInstance\<close>, at the top of the loop, before an attempt to connect, before the security
  with the given index, or after its end; and what it does there. A step makes at most one attempt to
  connect or deals with one security.
\<close>

datatype spot = Starting | Top | Connecting | Fetching nat | Ended

definition Run_step :: "config \<Rightarrow> platform \<Rightarrow> boost \<Rightarrow> nat \<Rightarrow> bool \<Rightarrow> spot \<Rightarrow> spot sio" where
  "Run_step cfg P B fuel quit sp s =
     (case sp of
        Starting \<Rightarrow> (Ret Top, s\<lparr>worker := InitInstance (worker s)\<rparr>)
      | Top \<Rightarrow> (Ret (if quit then Ended else if g_bGetQuotation (worker s) then Connecting else Top), s)
      | Connecting \<Rightarrow>
          if conID (worker s) < 0
          then bnd (on_dll TDXHQ_Connect) (\<lambda>id t. (Ret Connecting, t\<lparr>worker := (worker t)\<lparr>conID := id\<rparr>\<rparr>)) s
          else (Ret (Fetching 0), s)
      | Fetching i \<Rightarrow>
          if i < m_iStockNum (worker s) then
            (if i < length (m_stockcode (worker s))
             then sq (process_stock cfg P B fuel (m_stockcode (worker s) ! i)) (ret (Fetching (i + 1))) s
             else (Abort Undefined, s))
          else (Ret Top, s\<lparr>worker := (worker s)\<lparr>g_bGetQuotation := False\<rparr>\<rparr>)
      | Ended \<Rightarrow> (Ret Ended, s))"

end
