(* ===== verification/QuotationCorrect.thy ===== *)
theory QuotationCorrect
  imports Quotation
begin

text \<open>
  What the worker threads do: the connection loop ends with a slot as soon as one attempt succeeds,
  and the candlesticks a server sends end up, line by line and in order, in the statements given to
  the database. The second crosses every layer of the program, from the bytes on the socket to the
  SQL text.
\<close>

section \<open>Connecting\<close>

lemma TDXHQ_Connect_consumes:
  assumes "tdx_inv s" "nIP s < 100" "free_slot (skHQ s) = Some i" "new_sockets s = k # ks" "connect_ok s = r # oks"
    "k \<noteq> INVALID_SOCKET"
  shows "\<exists>s'. TDXHQ_Connect s = (Ret (if r then int i else TDXHQ_ERROR_CONT), s') \<and> tdx_inv s' \<and> nIP s' = nIP s \<and>
    new_sockets s' = ks \<and> connect_ok s' = oks \<and> skHQ s' = (skHQ s)[i := k]"
proof -
  have i: "slot_of s = i" "skHQ s ! i = INVALID_SOCKET" "i < length (skHQ s)"
    using assms(3) free_slot_Some by (auto simp: slot_of_def)
  have srv: "server_of s < 100" using server_of_le [OF assms(1)] assms(2) by simp
  from TDXHQ_Connect_spec [OF assms(1) srv] i assms(4-6) obtain s' where
    s': "TDXHQ_Connect s = (Ret (if r then int i else TDXHQ_ERROR_CONT), s')" "tdx_inv s'" "nIP s' = nIP s"
      "skHQ s' = (skHQ s)[i := k]" by auto
  have "new_sockets s' = ks \<and> connect_ok s' = oks"
    using s'(1) i assms(4,5)
    by (auto simp: TDXHQ_Connect_def bnd_def open_slot_def call_socket_def connect_server_def call_connect_def Let_def
        next_server_def split: if_splits prod.splits res.splits)
  with s' show ?thesis by blast
qed

lemma free_slot_append: "INVALID_SOCKET \<notin> set used \<Longrightarrow> free_slot (used @ INVALID_SOCKET # ks) = Some (length used)"
  by (induction used) auto

text \<open>
  Property C27. The connection loop of a worker ends as soon as an attempt succeeds, with the slot of
  that attempt; every failed attempt before it has cost a slot of the table, which keeps the dead
  socket.
\<close>

theorem connect_loop_returns:
  assumes "conID (worker s) < 0" "tdx_inv (dll s)" "nIP (dll s) < 100"
    "skHQ (dll s) = used @ replicate m INVALID_SOCKET" "INVALID_SOCKET \<notin> set used" "length fails < m"
    "new_sockets (dll s) = fails @ k # ks" "INVALID_SOCKET \<notin> set fails" "k \<noteq> INVALID_SOCKET"
    "connect_ok (dll s) = map (\<lambda>_. False) fails @ True # oks" "length fails < fuel"
  shows "\<exists>s'. connect_loop fuel s = (Ret (), s') \<and> conID (worker s') = int (length used + length fails) \<and>
    skHQ (dll s') = used @ fails @ k # replicate (m - length fails - 1) INVALID_SOCKET"
  using assms
proof (induction fails arbitrary: s used m fuel)
  case Nil
  obtain n where fuel: "fuel = Suc n" using Nil.prems(11) by (cases fuel) auto
  obtain m' where m: "m = Suc m'" using Nil.prems(6) by (cases m) auto
  have "free_slot (skHQ (dll s)) = Some (length used)" using Nil.prems(4,5) m by (simp add: free_slot_append)
  from TDXHQ_Connect_consumes [OF Nil.prems(2,3) this, of k ks True oks] Nil.prems(7,9,10) obtain d where
    d: "TDXHQ_Connect (dll s) = (Ret (int (length used)), d)" "skHQ d = used @ k # replicate m' INVALID_SOCKET"
    using Nil.prems(4) m by (auto simp: list_update_append)
  let ?t = "s\<lparr>dll := d, worker := (worker s)\<lparr>conID := int (length used)\<rparr>\<rparr>"
  have "connect_loop fuel s = connect_loop n ?t"
    using Nil.prems(1) d(1) fuel by (subst connect_loop.simps) (simp add: on_dll_def bnd_def)
  also have "\<dots> = (Ret (), ?t)" by (subst connect_loop.simps) simp
  finally show ?case using d(2) m by auto
next
  case (Cons f fails)
  obtain n where fuel: "fuel = Suc n" using Cons.prems(11) by (cases fuel) auto
  obtain m' where m: "m = Suc m'" using Cons.prems(6) by (cases m) auto
  have "free_slot (skHQ (dll s)) = Some (length used)" using Cons.prems(4,5) m by (simp add: free_slot_append)
  from TDXHQ_Connect_consumes [OF Cons.prems(2,3) this, of f _ False] Cons.prems(7,8,10) obtain d where
    d: "TDXHQ_Connect (dll s) = (Ret TDXHQ_ERROR_CONT, d)" "tdx_inv d" "nIP d = nIP (dll s)" "new_sockets d = fails @ k # ks"
      "connect_ok d = map (\<lambda>_. False) fails @ True # oks" "skHQ d = (used @ [f]) @ replicate m' INVALID_SOCKET"
    using Cons.prems(4) m by (auto simp: list_update_append)
  let ?t = "s\<lparr>dll := d, worker := (worker s)\<lparr>conID := TDXHQ_ERROR_CONT\<rparr>\<rparr>"
  have "connect_loop fuel s = connect_loop n ?t"
    using Cons.prems(1) d(1) fuel by (subst connect_loop.simps) (simp add: on_dll_def bnd_def)
  moreover have "\<exists>s'. connect_loop n ?t = (Ret (), s') \<and> conID (worker s') = int (length (used @ [f]) + length fails) \<and>
      skHQ (dll s') = (used @ [f]) @ fails @ k # replicate (m' - length fails - 1) INVALID_SOCKET"
    by (rule Cons.IH) (use Cons.prems d fuel m in \<open>auto simp: TDXHQ_ERROR_CONT_def\<close>)
  ultimately show ?case using m by simp
qed

definition demo_worker :: quotation where
  "demo_worker =
     \<lparr>m_dwID = 0, m_iStockNum = 0, m_stockcode = replicate MAXSTOCK null_stock, g_bGetQuotation = True, conID = - 1,
      redis_client = demo_client (\<lambda>_. [])\<rparr>"

theorem connect_loop_returns_witness:
  "\<exists>s'. connect_loop 5 \<lparr>worker = demo_worker, dll = ready_tdx [7, 8] [False, True], sql = []\<rparr> = (Ret (), s') \<and>
     conID (worker s') = 1"
  using connect_loop_returns [of "\<lparr>worker = demo_worker, dll = ready_tdx [7, 8] [False, True], sql = []\<rparr>" "[]"
      CONNECTNUM "[7]" 8 "[]" "[]" 5]
  by (auto simp: demo_worker_def ready_tdx_inv ready_tdx_fields CONNECTNUM_def INVALID_SOCKET_def)

section \<open>From the socket to the database\<close>

text \<open>What the source relies on: \<^verbatim>\<open>AfxExtractSubString\<close> returns the line with the given number, nothing after the last.\<close>

definition extracts_lines :: "platform \<Rightarrow> bool" where
  "extracts_lines P \<longleftrightarrow>
     (\<forall>ls i sep. (\<forall>l\<in>set ls. sep \<notin> set l) \<longrightarrow>
        AfxExtractSubString P (concat (map (\<lambda>l. l @ [sep]) ls)) i sep = (if i < length ls then ls ! i else []))"

definition statements :: "string \<Rightarrow> string list \<Rightarrow> sql_call list" where
  "statements stmt ls = map (\<lambda>l. Exec (stmt @ l @ '')'')) ls"

lemma save_rows_lines:
  assumes "extracts_lines P" "\<forall>l\<in>set ls. CHR 0x0A \<notin> set l \<and> l \<noteq> []" "length ls < iRow + fuel" "iRow \<le> length ls"
  shows "save_rows P fuel stmt (concat (map (\<lambda>l. l @ [CHR 0x0A]) ls)) iRow s =
    (Ret (), s\<lparr>sql := sql s @ statements stmt (drop iRow ls)\<rparr>)"
  using assms(3,4)
proof (induction fuel arbitrary: iRow s)
  case (Suc fuel)
  have get: "AfxExtractSubString P (concat (map (\<lambda>l. l @ [CHR 0x0A]) ls)) iRow (CHR 0x0A) =
      (if iRow < length ls then ls ! iRow else [])"
    using assms(1,2) unfolding extracts_lines_def by blast
  show ?case
  proof (cases "iRow < length ls")
    case True
    then have "ls ! iRow \<noteq> []" "drop iRow ls = ls ! iRow # drop (Suc iRow) ls" using assms(2) by (auto simp: Cons_nth_drop_Suc)
    with True Suc get show ?thesis by (simp add: Let_def call_sql_def statements_def)
  next
    case False
    with get Suc.prems show ?thesis by (simp add: Let_def statements_def)
  qed
qed simp

text \<open>The lines of the table hold no line feed and no zero.\<close>

definition plain :: "char \<Rightarrow> bool" where
  "plain c \<longleftrightarrow> c \<noteq> CHR 0x0A \<and> c \<noteq> CHR 0x00"

lemma is_digit_plain: "is_digit c \<Longrightarrow> plain c"
  by (auto simp: plain_def is_digit_def)

lemma plain_show_nat [simp]: "list_all plain (show_nat n)"
  using show_nat_digits [of n] is_digit_plain by (simp add: list_all_iff)

lemma plain_replicate [simp]: "plain c \<Longrightarrow> list_all plain (replicate n c)"
  by (simp add: list_all_length)

lemma plain_chars [simp]:
  "plain (CHR ''-'')" "plain (CHR ''0'')" "plain (CHR ''.'')" "plain (CHR '' '')" "plain (CHR '','')" "plain (CHR '':'')"
  "plain (CHR 0x22)"
  by (simp_all add: plain_def)

lemma plain_show [simp]: "list_all plain (show_int i)" "list_all plain (show_f3 x)"
  by (simp_all add: show_int_def show_f3_def show_milli_def pad0_def)

definition line_of :: "platform \<Rightarrow> bar \<Rightarrow> string" where
  "line_of P b = butlast (format_line P b)"

lemma format_line_line_of: "format_line P b = line_of P b @ [CHR 0x0A]"
  by (simp add: line_of_def format_line_def butlast_append)

lemma line_of_plain:
  assumes "list_all plain (format_infinite P)"
  shows "list_all plain (line_of P b)" "line_of P b \<noteq> []"
proof -
  show "line_of P b \<noteq> []" by (simp add: line_of_def format_line_def butlast_append)
  have "list_all plain (case dbvol b of Fin v \<Rightarrow> show_f3 v | Infinite \<Rightarrow> format_infinite P)"
    using assms plain_show by (simp split: fval.splits)
  then show "list_all plain (line_of P b)"
    by (simp add: line_of_def format_line_def butlast_append pad_def pad0_def show_price_def)
qed

lemma table_lines:
  "table P cs = concat (map (\<lambda>l. l @ [CHR 0x0A]) (butlast table_header # map (\<lambda>c. line_of P (bar_of c)) cs))"
  by (simp add: table_def table_header_def format_line_line_of comp_def)

lemma table_plain:
  assumes "list_all plain (format_infinite P)"
  shows "CHR 0x00 \<notin> set (table P cs)"
    "\<forall>l\<in>set (butlast table_header # map (\<lambda>c. line_of P (bar_of c)) cs). CHR 0x0A \<notin> set l \<and> l \<noteq> []"
proof -
  have line: "CHR 0x00 \<notin> set (line_of P b)" "CHR 0x0A \<notin> set (line_of P b)" for b
    using line_of_plain(1) [OF assms, of b] by (auto simp: list_all_iff plain_def)
  then show "CHR 0x00 \<notin> set (table P cs)" by (auto simp: table_def table_header_def format_line_line_of)
  show "\<forall>l\<in>set (butlast table_header # map (\<lambda>c. line_of P (bar_of c)) cs). CHR 0x0A \<notin> set l \<and> l \<noteq> []"
    using line line_of_plain(2) [OF assms] by (auto simp: table_header_def)
qed

lemma c_str_padded:
  assumes "CHR 0x00 \<notin> set text" "length text < n"
  shows "c_str (text @ drop (length text) (replicate n (CHR 0x00))) = Ret text"
proof -
  obtain m where "n - length text = Suc m" using assms(2) by (metis Suc_diff_Suc)
  then have "drop (length text) (replicate n (CHR 0x00)) = CHR 0x00 # replicate m (CHR 0x00)" by simp
  moreover have "takeWhile (\<lambda>c. c \<noteq> CHR 0x00) (text @ CHR 0x00 # replicate m (CHR 0x00)) = text"
    using assms(1) by (intro takeWhile_append_stop) auto
  ultimately show ?thesis by (simp add: c_str_def)
qed

text \<open>
  Property C2. From the socket to the database: a worker on a connected slot whose server answers with
  the header in one piece and then the encoding of a list of candlesticks, in any segmentation and compressed or not, executes exactly
  one statement for each candlestick, in their order, with the values of that candlestick, and has
  sent exactly the request.
\<close>

theorem fetch_table_saves_bars:
  assumes slot: "0 \<le> conID (worker s)" "conID (worker s) < int (length (skHQ (dll s)))"
      "skHQ (dll s) ! nat (conID (worker s)) = k" "k \<noteq> INVALID_SOCKET"
    and code: "CHR 0x00 \<notin> set stock" "length stock < 1000"
    and script: "sending (wire (dll s) k) = []"
      "incoming (wire (dll s) k) =
         Chunk (reply_head a b c (length zipped) (length (encode_bars Category bars))) # map Chunk cs @ es"
      "concat cs = zipped"
    and body: "carries P zipped (encode_bars Category bars)" "zipped \<noteq> []" "length zipped < 2 ^ 16"
      "length (encode_bars Category bars) < 2 ^ 16"
    and bars: "list_all (candle_ok Category) bars" "length bars < 2 ^ 16" "length (table P bars) < RESULTSIZE"
    and platform: "extracts_lines P" "list_all plain (format_infinite P)" and fuel: "length bars < fuel"
  shows "\<exists>w. fetch_table P fuel Category mk stock count stmt s =
      (Ret (), s\<lparr>dll := (dll s)\<lparr>wire := w\<rparr>, sql := sql s @ statements stmt (map (\<lambda>c. line_of P (bar_of c)) bars)\<rparr>) \<and>
    outgoing (w k) = outgoing (wire (dll s) k) @ bars_bytes Category mk stock count"
proof -
  let ?buf = "replicate RESULTSIZE (CHR 0x00)"
  have "length (table P bars) \<le> length ?buf" using bars(3) by simp
  from GetSecurityBars_run [OF slot code script body bars(1,2) this, of mk 0 count] obtain w where
    w: "TDXHQ_GetSecurityBars P (conID (worker s)) Category mk stock 0 count ?buf (dll s) =
        (Ret (TDXHQ_ERROR_OK, length bars, table P bars @ drop (length (table P bars)) ?buf), (dll s)\<lparr>wire := w\<rparr>)"
      "outgoing (w k) = outgoing (wire (dll s) k) @ bars_bytes Category mk stock count" by blast
  have buf: "c_str (table P bars @ drop (length (table P bars)) ?buf) = Ret (table P bars)"
    by (rule c_str_padded [OF table_plain(1) [OF platform(2)] bars(3)])
  have save: "save_rows P fuel stmt (table P bars) 1 t =
      (Ret (), t\<lparr>sql := sql t @ statements stmt (map (\<lambda>c. line_of P (bar_of c)) bars)\<rparr>)" for t
    unfolding table_lines
    using save_rows_lines [OF platform(1) table_plain(2) [OF platform(2), of bars], of 1 fuel stmt t] fuel by simp
  have "fetch_table P fuel Category mk stock count stmt s =
      (Ret (), s\<lparr>dll := (dll s)\<lparr>wire := w\<rparr>, sql := sql s @ statements stmt (map (\<lambda>c. line_of P (bar_of c)) bars)\<rparr>)"
    using w(1) buf save by (simp add: fetch_table_def on_dll_def bnd_def)
  with w(2) show ?thesis by blast
qed

text \<open>A platform that keeps the contract.\<close>

fun nth_line :: "string \<Rightarrow> nat \<Rightarrow> char \<Rightarrow> string" where
  "nth_line s 0 sep = takeWhile (\<lambda>c. c \<noteq> sep) s"
| "nth_line s (Suc n) sep = nth_line (drop 1 (dropWhile (\<lambda>c. c \<noteq> sep) s)) n sep"

lemma nth_line_nil: "nth_line [] n sep = []"
  by (induction n) auto

lemma nth_line_lines:
  "\<forall>l\<in>set ls. sep \<notin> set l \<Longrightarrow>
     nth_line (concat (map (\<lambda>l. l @ [sep]) ls)) i sep = (if i < length ls then ls ! i else [])"
proof (induction ls arbitrary: i)
  case (Cons l ls)
  have "dropWhile (\<lambda>c. c \<noteq> sep) (l @ sep # t) = sep # t" "takeWhile (\<lambda>c. c \<noteq> sep) (l @ sep # t) = l" for t
    using Cons.prems by (auto intro: takeWhile_append_stop) (subst dropWhile_append2, auto)
  with Cons show ?case by (cases i) simp_all
qed (simp add: nth_line_nil)

definition line_platform :: platform where
  "line_platform = demo_platform\<lparr>AfxExtractSubString := nth_line\<rparr>"

lemma line_platform: "extracts_lines line_platform" "list_all plain (format_infinite line_platform)"
  by (auto simp: extracts_lines_def line_platform_def demo_platform_def nth_line_lines plain_def)

text \<open>The size of a line with known amount.\<close>

lemma length_show_milli: "n < 10 ^ 13 \<Longrightarrow> length (show_milli n) \<le> 16"
proof -
  assume "n < 10 ^ 13"
  then have "length (show_nat (n div 1000)) \<le> Suc 11" "length (show_nat (n mod 1000)) \<le> Suc 2"
    by (intro length_show_nat; simp add: div_less_iff_less_mult)+
  then show ?thesis by (simp add: show_milli_def pad0_def)
qed

lemma length_show_price: "length (show_price p) \<le> 17"
proof -
  have p: "\<bar>sint p\<bar> \<le> 2 ^ 31" using sint_range_size [of p] by (simp add: word_size abs_le_iff)
  then have "nat \<bar>sint p\<bar> < 10 ^ 13" by simp
  then have "length (show_milli (nat \<bar>sint p\<bar>)) \<le> 16" by (rule length_show_milli)
  then show ?thesis unfolding show_price_def show_f3_div1000 [OF p] by (cases "sint p < 0") simp_all
qed

lemma demo_amount: "case dbvol (bar_of demo_candle) of Fin v \<Rightarrow> length (show_f3 v) \<le> 17 | Infinite \<Rightarrow> False"
proof -
  have v: "GetVolume 0x4d7cc397 = Fin 265042288"
    using GetVolume_exact [of "0x4d7cc397"] by (simp add: unat_vol_byte ieee_single_def)
  have "round_half_up (265042288 * 1000) = 265042288000" by (rule round_half_up_near) simp
  then have "show_f3 265042288 = show_milli 265042288000" by (simp add: show_f3_def)
  then have "length (show_f3 265042288) \<le> 17" using length_show_milli [of 265042288000] by simp
  moreover have "length (show_f3 (ddiv (of_int (sint (word_of_int 10210 :: 32 word))) 1000)) \<le> 17"
    using length_show_price [of "word_of_int 10210"] by (simp add: show_price_def)
  ultimately show ?thesis by (simp add: bar_of_def demo_candle_def amount_of_def v)
qed

lemma demo_line: "length (format_line P (bar_of demo_candle)) \<le> 150"
proof -
  have dates: "length (show_nat 2016) \<le> Suc 3" "length (show_nat 3) \<le> Suc 0" "length (show_nat 18) \<le> Suc 1"
    "length (show_nat 15) \<le> Suc 1" "length (show_nat 0) \<le> Suc 0"
    by (intro length_show_nat; simp)+
  have vol: "length (show_int (sint (Volume (bar_of demo_candle)))) \<le> 7"
    using length_show_nat [of 259294 6] by (simp add: bar_of_def demo_candle_def show_int_def)
  let ?b = "bar_of demo_candle"
  have f: "year ?b = 2016" "month ?b = 3" "day ?b = 18" "hour ?b = 15" "minute ?b = 0"
    by (simp_all add: bar_of_def demo_candle_def)
  have "length (case dbvol ?b of Fin v \<Rightarrow> show_f3 v | Infinite \<Rightarrow> format_infinite P) \<le> 17"
    using demo_amount by (simp split: fval.splits)
  with dates vol length_show_price [of "iPriceOpen ?b"] length_show_price [of "iPriceClose ?b"]
    length_show_price [of "iPriceHight ?b"] length_show_price [of "iPriceLow ?b"]
  show ?thesis unfolding format_line_def f by (simp add: pad_def pad0_def)
qed

definition demo_station :: station where
  "demo_station = \<lparr>worker = demo_worker\<lparr>conID := 0\<rparr>, dll = demo_tdx demo_script, sql = []\<rparr>"

theorem fetch_table_saves_bars_witness:
  "\<exists>w. fetch_table line_platform 10 9 0 ''000001'' 5 SQL_MIN5 demo_station =
      (Ret (), demo_station\<lparr>dll := (dll demo_station)\<lparr>wire := w\<rparr>,
         sql := sql demo_station @ statements SQL_MIN5 (map (\<lambda>c. line_of line_platform (bar_of c)) [demo_candle])\<rparr>) \<and>
    outgoing (w 7) = outgoing (wire (dll demo_station) 7) @ bars_bytes 9 0 ''000001'' 5"
proof (rule fetch_table_saves_bars [where a = 0 and b = 0 and c = 0 and zipped = demo_body and cs = demo_chunks
      and es = "[Closed]"])
  show "concat demo_chunks = demo_body" by (simp add: demo_chunks_def)
  show "demo_body \<noteq> []" "length demo_body < 2 ^ 16" "length (encode_bars 9 [demo_candle]) < 2 ^ 16"
    by (simp_all add: demo_body_def encode_bars_def encode_candle_def demo_candle_def encodePrice_def Let_def
        put7.simps)
  show "list_all (candle_ok 9) [demo_candle]" by (simp add: candle_ok_def demo_candle_def intraday_def)
  show "extracts_lines line_platform" "list_all plain (format_infinite line_platform)" by (rule line_platform)+
  show "length (table line_platform [demo_candle]) < RESULTSIZE"
    using demo_line [of line_platform] by (simp add: table_def table_header_def RESULTSIZE_def)
qed (simp_all add: demo_station_def demo_worker_def demo_tdx_def demo_script_def carries_def INVALID_SOCKET_def
    flip: demo_body_def)

end
