(* ===== verification/Dialog.thy ===== *)
theory Dialog
  imports QuotationCorrect
begin

text \<open>
  The main window, src/HQTEST/HQTESTDlg.cpp: at start it reads the list of watched securities from
  MySQL and deals it out to 20 worker threads; a timer then triggers the workers once a minute during
  the trading hours. The MySQL client is seen through its outcome, the clock through the readings of
  \<^verbatim>\<open>GetLocalTime\<close>. The window, menu and tray icon are in \<open>Window\<close>. The threads run beside the timer; how, is in
  \<open>DialogCorrect\<close>.
\<close>

section \<open>Time\<close>

record systemtime =
  wYear :: nat
  wMonth :: nat
  wDay :: nat
  wDayOfWeek :: nat
  wHour :: nat
  wMinute :: nat
  wSecond :: nat

datatype CTime = CTime (ymd: "nat \<times> nat \<times> nat") (hms: "nat \<times> nat \<times> nat")

fun ctime_key :: "CTime \<Rightarrow> nat list" where
  "ctime_key (CTime (y, m, d) (h, i, s)) = [y, m, d, h, i, s]"

lemma ctime_key_inj: "ctime_key a = ctime_key b \<Longrightarrow> a = b"
  by (cases a rule: ctime_key.cases, cases b rule: ctime_key.cases) simp

instantiation CTime :: linorder
begin

definition less_eq_CTime :: "CTime \<Rightarrow> CTime \<Rightarrow> bool" where
  "a \<le> b \<longleftrightarrow> ctime_key a \<le> ctime_key b"

definition less_CTime :: "CTime \<Rightarrow> CTime \<Rightarrow> bool" where
  "a < b \<longleftrightarrow> ctime_key a < ctime_key b"

instance
  by standard (auto simp: less_eq_CTime_def less_CTime_def intro: ctime_key_inj order_trans)

end

lemma less_same_day:
  "CTime d (h, i, s) < CTime d (h', i', s') \<longleftrightarrow> h < h' \<or> h = h' \<and> (i < i' \<or> i = i' \<and> s < s')"
  by (cases d) (auto simp: less_CTime_def)

definition IsTraderTime :: "systemtime \<Rightarrow> bool" where
  "IsTraderTime st =
     (let date = (wYear st, wMonth st, wDay st);
          t_1_start = CTime date (9, 25, 1); t_1_end = CTime date (11, 30, 30);
          t_2_start = CTime date (13, 0, 1); t_2_end = CTime date (15, 0, 1);
          t_now = CTime date (wHour st, wMinute st, wSecond st)
      in if 1 \<le> wDayOfWeek st \<and> wDayOfWeek st \<le> 5
         then (if t_1_start < t_now \<and> t_now < t_1_end \<or> t_2_start < t_now \<and> t_now < t_2_end then True else False)
         else False)"

section \<open>The window\<close>

definition TREADNUM :: nat where
  "TREADNUM = 20"

definition MAXWATCH :: nat where
  "MAXWATCH = 3000"

text \<open>
  How the query ends. A query that succeeds and has no result set is not looked for: the row loop is then given a null pointer.
\<close>

datatype mysql = InitFails | ConnectFails | QueryFails | NoResult | Rows "string list list"

datatype dialog_box = DatabaseInit | DatabaseConnect | DatabaseQuery

record dialog =
  m_istock :: nat
  watched :: "stockcode list"
  pquo :: "quotation option list"
  preMin :: nat
  timer :: bool
  alerts :: "dialog_box list"
  board :: tdx

type_synonym 'a dio = "(dialog, 'a) io"

text \<open>The rows of the query, copied into the array of 3000 without a check.\<close>

fun load_rows :: "string list list \<Rightarrow> nat \<Rightarrow> stockcode list \<Rightarrow> (stockcode list \<times> nat) res" where
  "load_rows [] iRows arr = Ret (arr, iRows)"
| "load_rows (rec # recs) iRows arr =
     (if iRows < length arr \<and> 3 \<le> length rec
      then load_rows recs (iRows + 1) (arr[iRows := \<lparr>code = take 6 (rec ! 0), market = take 1 (rec ! 2)\<rparr>])
      else Abort Undefined)"

text \<open>
  The environment of a new thread: the memory it gets and its sockets. The object is made here, and the
  thread, once it runs, begins with \<^verbatim>\<open>InitInstance\<close>.
\<close>

record spawn =
  raw_memory :: quotation
  thread_os :: os

definition start_thread :: "names \<Rightarrow> boost \<Rightarrow> (nat \<Rightarrow> spawn) \<Rightarrow> stockcode list \<Rightarrow> nat \<Rightarrow> nat \<Rightarrow> nat \<Rightarrow> quotation res" where
  "start_thread N B env stocks i from n =
     CQuotation N B (raw_memory (env i)) i (drop from stocks) n (thread_os (env i))"

fun start_all :: "(nat \<Rightarrow> quotation res) \<Rightarrow> nat list \<Rightarrow> quotation list res" where
  "start_all f [] = Ret []"
| "start_all f (i # is) = rbnd (f i) (\<lambda>q. rbnd (start_all f is) (\<lambda>qs. Ret (q # qs)))"

text \<open>The last thread takes what the division leaves; without a security there is no last thread.\<close>

definition start_threads :: "names \<Rightarrow> boost \<Rightarrow> (nat \<Rightarrow> spawn) \<Rightarrow> stockcode list \<Rightarrow> nat \<Rightarrow> quotation option list res" where
  "start_threads N B env stocks istock =
     (let stockpertread = istock div TREADNUM; i = TREADNUM - 1
      in rbnd (start_all (\<lambda>i. start_thread N B env stocks i (i * stockpertread) stockpertread) [0..<i]) (\<lambda>qs.
           if i * stockpertread < istock
           then rbnd (start_thread N B env stocks i (i * stockpertread) (istock - i * stockpertread))
                  (\<lambda>q. Ret (map Some qs @ [Some q]))
           else Ret (map Some qs @ [None])))"

definition OnInitDialog ::
  "names \<Rightarrow> boost \<Rightarrow> platform \<Rightarrow> (nat \<Rightarrow> spawn) \<Rightarrow> mysql \<Rightarrow> systemtime \<Rightarrow> string list option \<Rightarrow> bool dio" where
  "OnInitDialog N B P env db st servers d =
     (case db of
        InitFails \<Rightarrow> (Ret False, d\<lparr>alerts := alerts d @ [DatabaseInit]\<rparr>)
      | ConnectFails \<Rightarrow> (Ret False, d\<lparr>alerts := alerts d @ [DatabaseConnect]\<rparr>)
      | QueryFails \<Rightarrow> (Ret False, d\<lparr>alerts := alerts d @ [DatabaseQuery]\<rparr>)
      | NoResult \<Rightarrow> (Abort Undefined, d)
      | Rows recs \<Rightarrow>
          (case load_rows recs 0 (replicate MAXWATCH null_stock) of
             Ret (stocks, iRows) \<Rightarrow>
               (let d1 = d\<lparr>watched := stocks, m_istock := iRows\<rparr>
                in case start_threads N B env stocks iRows of
                     Ret qs \<Rightarrow>
                       (case TDXHQ_Init P servers 0 0 (board d1) of
                          (Ret _, b) \<Rightarrow> (Ret True, d1\<lparr>pquo := qs, preMin := wMinute st, board := b, timer := True\<rparr>)
                        | (Throw e, b) \<Rightarrow> (Throw e, d1)
                        | (Abort f, b) \<Rightarrow> (Abort f, d1))
                   | Throw e \<Rightarrow> (Throw e, d1)
                   | Abort f \<Rightarrow> (Abort f, d1))
           | Throw e \<Rightarrow> (Throw e, d)
           | Abort f \<Rightarrow> (Abort f, d)))"

text \<open>The loop of the trigger over the indices of the 20 pointers, also of one that was never set.\<close>

fun trigger_all :: "nat list \<Rightarrow> quotation option list \<Rightarrow> quotation option list res" where
  "trigger_all [] qs = Ret qs"
| "trigger_all (i # is) qs =
     (if i < length qs then
        (case qs ! i of
           None \<Rightarrow> Abort Undefined
         | Some q \<Rightarrow> trigger_all is (qs[i := Some (q\<lparr>g_bGetQuotation := True\<rparr>)]))
      else Abort Undefined)"

text \<open>The clock is read twice: for the trading time, and for the minute.\<close>

definition OnTimer :: "systemtime \<Rightarrow> systemtime \<Rightarrow> unit dio" where
  "OnTimer st1 st2 d =
     (if IsTraderTime st1 then
        (if preMin d \<noteq> wMinute st2 then
           (let d1 = d\<lparr>preMin := wMinute st2\<rparr>
            in case trigger_all [0..<TREADNUM] (pquo d1) of
                 Ret qs \<Rightarrow> (Ret (), d1\<lparr>pquo := qs\<rparr>)
               | Throw e \<Rightarrow> (Throw e, d1)
               | Abort f \<Rightarrow> (Abort f, d1))
         else (Ret (), d))
      else (Ret (), d))"

end
