(* ===== verification/DialogCorrect.thy ===== *)
theory DialogCorrect
  imports Dialog
begin

text \<open>
  What the window guarantees: the trading hours, the division of the watched securities among the
  workers, and what a strike of the timer does. How the timer and the workers run beside each other is in
  \<open>Floor\<close>.
\<close>

section \<open>Trading hours\<close>

definition second_of_day :: "systemtime \<Rightarrow> nat" where
  "second_of_day st = wHour st * 3600 + wMinute st * 60 + wSecond st"

lemma less_second_of_day:
  assumes "i < 60" "s < 60" "i' < 60" "s' < 60"
  shows "CTime d (h, i, s) < CTime d (h', i', s') \<longleftrightarrow> h * 3600 + i * 60 + s < h' * 3600 + i' * 60 + (s' :: nat)"
  unfolding less_same_day using assms by (auto; linarith)

text \<open>
  Property C35. The trading hours, to the second: Monday to Friday, from 9:25:02 to 11:30:29 and from
  13:00:02 to 15:00:00.
\<close>

theorem IsTraderTime_hours:
  assumes "wMinute st < 60" "wSecond st < 60"
  shows "IsTraderTime st \<longleftrightarrow> wDayOfWeek st \<in> {1..5} \<and>
    (second_of_day st \<in> {9 * 3600 + 25 * 60 + 2..11 * 3600 + 30 * 60 + 29} \<or>
     second_of_day st \<in> {13 * 3600 + 2..15 * 3600})"
proof -
  note less = less_second_of_day [of _ _ "wMinute st" "wSecond st" "(wYear st, wMonth st, wDay st)" _ "wHour st"]
    less_second_of_day [of "wMinute st" "wSecond st" _ _ "(wYear st, wMonth st, wDay st)" "wHour st"]
  show ?thesis
    using assms by (auto simp: IsTraderTime_def Let_def less second_of_day_def)
qed

definition monday :: "nat \<Rightarrow> nat \<Rightarrow> nat \<Rightarrow> systemtime" where
  "monday h i s = \<lparr>wYear = 2016, wMonth = 3, wDay = 21, wDayOfWeek = 1, wHour = h, wMinute = i, wSecond = s\<rparr>"

theorem IsTraderTime_hours_witness: "IsTraderTime (monday 9 25 2) \<and> \<not> IsTraderTime (monday 9 25 1)"
  using IsTraderTime_hours [of "monday 9 25 2"] IsTraderTime_hours [of "monday 9 25 1"]
  by (simp add: monday_def second_of_day_def)

section \<open>Dealing out the securities\<close>

definition stock_of :: "string list \<Rightarrow> stockcode" where
  "stock_of rec = \<lparr>code = take 6 (rec ! 0), market = take 1 (rec ! 2)\<rparr>"

lemma load_rows_spec:
  assumes "list_all (\<lambda>r. 3 \<le> length r) recs" "n + length recs \<le> length arr"
  shows "load_rows recs n arr = Ret (take n arr @ map stock_of recs @ drop (n + length recs) arr, n + length recs)"
  using assms
proof (induction recs arbitrary: n arr)
  case (Cons r recs)
  then have n: "n < length arr" "3 \<le> length r" by auto
  have "take (Suc n) (arr[n := stock_of r]) = take n arr @ [stock_of r]"
    using n(1) by (simp add: take_Suc_conv_app_nth)
  moreover have "drop (Suc (n + length recs)) (arr[n := stock_of r]) = drop (Suc (n + length recs)) arr" by simp
  moreover have "load_rows recs (Suc n) (arr[n := stock_of r]) =
      Ret (take (Suc n) (arr[n := stock_of r]) @ map stock_of recs @ drop (Suc n + length recs) (arr[n := stock_of r]),
           Suc n + length recs)"
    using Cons.prems by (intro Cons.IH) auto
  ultimately show ?case using n by (simp add: stock_of_def)
qed simp

text \<open>The securities of a worker.\<close>

definition stocks_of :: "quotation \<Rightarrow> stockcode list" where
  "stocks_of q = take (m_iStockNum q) (m_stockcode q)"

text \<open>A Redis server that accepts every new worker.\<close>

definition redis_up :: "names \<Rightarrow> boost \<Rightarrow> (nat \<Rightarrow> spawn) \<Rightarrow> bool" where
  "redis_up N B env \<longleftrightarrow>
     (\<forall>i. \<exists>c. base_client N B ''14.25.93.208'' 6379 0 ''myPassword''
        \<lparr>connections = [], sys = thread_os (env i)\<rparr> = (Ret (), c))"


lemma start_thread_spec:
  assumes "redis_up N B env" "from + n \<le> length stocks" "n \<le> MAXSTOCK"
  shows "\<exists>q. start_thread N B env stocks i from n = Ret q \<and> stocks_of q = take n (drop from stocks) \<and> m_dwID q = i \<and>
    m_iStockNum q = n \<and> length (m_stockcode q) = MAXSTOCK"
proof -
  from assms(1) obtain c where "base_client N B ''14.25.93.208'' 6379 0 ''myPassword''
      \<lparr>connections = [], sys = thread_os (env i)\<rparr> = (Ret (), c)" by (auto simp: redis_up_def)
  then show ?thesis
    using assms(2,3) by (simp add: start_thread_def CQuotation_def stocks_of_def)
qed

lemma start_all_spec:
  assumes "\<forall>i\<in>set is. \<exists>q. f i = Ret q \<and> Q i q"
  shows "\<exists>qs. start_all f is = Ret qs \<and> list_all2 Q is qs"
  using assms by (induction "is") fastforce+

lemma list_all2_map: "list_all2 (\<lambda>i q. g q = f i) is qs \<Longrightarrow> map g qs = map f is"
  by (induction rule: list_all2_induct) auto

lemma concat_pieces: "concat (map (\<lambda>i. take p (drop (i * p) xs)) [0..<n]) = take (n * p) xs"
proof (induction n)
  case (Suc n)
  then show ?case using take_add [of "n * p" p xs] by (simp add: add.commute [of p])
qed simp

text \<open>
  A worker as it is made: its number, and a share of \<open>n\<close> securities in its array. The flag and the slot are
  whatever the memory held.
\<close>

definition fresh_worker :: "nat \<Rightarrow> quotation \<Rightarrow> bool" where
  "fresh_worker i q \<longleftrightarrow> m_dwID q = i \<and> length (m_stockcode q) = MAXSTOCK \<and> m_iStockNum q \<le> MAXSTOCK"

lemma share_bounds:
  assumes "m \<le> MAXWATCH"
  shows "m div TREADNUM \<le> 150" "m - 19 * (m div TREADNUM) \<le> 169" "19 * (m div TREADNUM) \<le> m"
    "0 < m \<Longrightarrow> 19 * (m div TREADNUM) < m"
  using assms unfolding MAXWATCH_def TREADNUM_def by auto

text \<open>The first 19 workers.\<close>

lemma start_front:
  assumes "redis_up N B env" "length stocks = MAXWATCH" "m \<le> MAXWATCH"
  shows "\<exists>qs. start_all (\<lambda>i. start_thread N B env stocks i (i * (m div TREADNUM)) (m div TREADNUM)) [0..<19] = Ret qs \<and>
    length qs = 19 \<and> map stocks_of qs = map (\<lambda>i. take (m div TREADNUM) (drop (i * (m div TREADNUM)) stocks)) [0..<19] \<and>
    list_all2 fresh_worker [0..<19] qs \<and> (\<forall>q\<in>set qs. m_iStockNum q = m div TREADNUM)"
proof -
  let ?p = "m div TREADNUM"
  let ?f = "\<lambda>i. start_thread N B env stocks i (i * ?p) ?p"
  let ?Q = "\<lambda>i q. stocks_of q = take ?p (drop (i * ?p) stocks) \<and> fresh_worker i q \<and> m_iStockNum q = ?p"
  note b = share_bounds [OF assms(3)]
  have fits: "i * ?p + ?p \<le> length stocks" if "i < 19" for i
  proof -
    have "i * ?p + ?p = Suc i * ?p" by simp
    also have "\<dots> \<le> 19 * ?p" using that by (intro mult_le_mono1) simp
    also have "\<dots> \<le> length stocks" using b(3) assms(2,3) by simp
    finally show ?thesis .
  qed
  have "\<exists>q. ?f i = Ret q \<and> ?Q i q" if "i < 19" for i
    using start_thread_spec [OF assms(1) fits [OF that], of i] b(1) by (auto simp: fresh_worker_def MAXSTOCK_def)
  then have "\<forall>i\<in>set [0..<19]. \<exists>q. ?f i = Ret q \<and> ?Q i q" by simp
  from start_all_spec [OF this] obtain qs where
    qs: "start_all ?f [0..<19] = Ret qs" "list_all2 ?Q [0..<19] qs" by blast
  have "list_all2 (\<lambda>i q. stocks_of q = take ?p (drop (i * ?p) stocks)) [0..<19] qs" "list_all2 fresh_worker [0..<19] qs"
    by (rule list_all2_mono [OF qs(2)], simp)+
  moreover have "\<forall>q\<in>set qs. m_iStockNum q = ?p" using qs(2) by (auto simp: list_all2_conv_all_nth in_set_conv_nth)
  ultimately show ?thesis using qs list_all2_map list_all2_lengthD [OF qs(2)] by fastforce
qed

lemma start_threads_spec:
  assumes "redis_up N B env" "length stocks = MAXWATCH" "m \<le> MAXWATCH"
  shows "\<exists>qs. start_threads N B env stocks m = Ret (map Some qs @ (if m = 0 then [None] else [])) \<and>
    length qs = (if m = 0 then 19 else TREADNUM) \<and> concat (map stocks_of qs) = take m stocks \<and>
    list_all2 fresh_worker [0..<length qs] qs \<and> (\<forall>i<19. m_iStockNum (qs ! i) = m div TREADNUM)"
proof -
  let ?p = "m div TREADNUM"
  note b = share_bounds [OF assms(3)]
  from start_front [OF assms] obtain qs where
    qs: "start_all (\<lambda>i. start_thread N B env stocks i (i * ?p) ?p) [0..<19] = Ret qs" "length qs = 19"
      "map stocks_of qs = map (\<lambda>i. take ?p (drop (i * ?p) stocks)) [0..<19]" "list_all2 fresh_worker [0..<19] qs"
      "\<forall>q\<in>set qs. m_iStockNum q = ?p" by blast
  show ?thesis
  proof (cases "m = 0")
    case True
    with qs show ?thesis
      by (intro exI [of _ qs]) (auto simp: start_threads_def TREADNUM_def Let_def concat_pieces [of 0, simplified])
  next
    case False
    have "19 * ?p + (m - 19 * ?p) \<le> length stocks" "m - 19 * ?p \<le> MAXSTOCK"
      using b assms(2,3) by (simp_all add: MAXSTOCK_def)
    from start_thread_spec [OF assms(1) this, of 19] obtain q where
      q: "start_thread N B env stocks 19 (19 * ?p) (m - 19 * ?p) = Ret q" "fresh_worker 19 q"
        "stocks_of q = take (m - 19 * ?p) (drop (19 * ?p) stocks)"
      using b(2) by (auto simp: fresh_worker_def MAXSTOCK_def)
    have "start_threads N B env stocks m = Ret (map Some (qs @ [q]))"
      using qs(1) q(1) b(4) False by (simp add: start_threads_def TREADNUM_def Let_def)
    moreover have "concat (map stocks_of (qs @ [q])) = take m stocks"
      using qs(3) q(3) b(3) concat_pieces [of ?p stocks 19] take_add [of "19 * ?p" "m - 19 * ?p" stocks] by simp
    moreover have "list_all2 fresh_worker [0..<20] (qs @ [q])"
    proof -
      have "[0..<20] = [0..<19] @ [19]" by (simp add: upt_rec)
      then show ?thesis using qs(4) q(2) by (simp add: list_all2_appendI)
    qed
    ultimately show ?thesis
      using qs(2,5) False by (intro exI [of _ "qs @ [q]"]) (simp add: TREADNUM_def nth_append)
  qed
qed

lemma OnInitDialog_spec:
  assumes "redis_up N B env" "list_all (\<lambda>r. 3 \<le> length r) recs" "length recs \<le> MAXWATCH"
    "TDXHQ_Init P servers 0 0 (board d) = (Ret c, b)"
  shows "\<exists>qs d'. OnInitDialog N B P env (Rows recs) st servers d = (Ret True, d') \<and>
    pquo d' = map Some qs @ (if recs = [] then [None] else []) \<and> length (pquo d') = TREADNUM \<and>
    concat (map stocks_of qs) = map stock_of recs \<and> list_all2 fresh_worker [0..<length qs] qs \<and>
    (\<forall>i<19. m_iStockNum (qs ! i) = length recs div TREADNUM) \<and>
    m_istock d' = length recs \<and> board d' = b \<and> timer d' \<and> preMin d' = wMinute st"
proof -
  let ?arr = "map stock_of recs @ drop (length recs) (replicate MAXWATCH null_stock)"
  have load: "load_rows recs 0 (replicate MAXWATCH null_stock) = Ret (?arr, length recs)"
    using load_rows_spec [OF assms(2), of 0 "replicate MAXWATCH null_stock"] assms(3) by simp
  from start_threads_spec [OF assms(1), of ?arr "length recs"] assms(3) obtain qs where
    "start_threads N B env ?arr (length recs) = Ret (map Some qs @ (if length recs = 0 then [None] else []))"
    "length qs = (if length recs = 0 then 19 else TREADNUM)" "concat (map stocks_of qs) = map stock_of recs"
    "list_all2 fresh_worker [0..<length qs] qs" "\<forall>i<19. m_iStockNum (qs ! i) = length recs div TREADNUM" by auto
  with load assms(4) show ?thesis by (intro exI [of _ qs]) (simp add: OnInitDialog_def Let_def TREADNUM_def)
qed


definition demo_env :: "nat \<Rightarrow> spawn" where
  "demo_env i = \<lparr>raw_memory = demo_worker, thread_os = welcoming_os\<rparr>"

lemma demo_up: "redis_up demo_names std_boost demo_env"
proof -
  have "connections \<lparr>connections = [], sys = welcoming_os\<rparr> = []" "(0::int) < 5" "''myPassword'' \<noteq> []" by simp_all
  from base_client_run [OF welcoming_os(1,2) this(2) welcoming_os(3) this(1,3) welcoming_os(4)] show ?thesis
    unfolding redis_up_def demo_env_def by fastforce
qed

definition demo_dialog :: dialog where
  "demo_dialog =
     \<lparr>m_istock = 0, watched = [], pquo = [], preMin = 0, timer = False, alerts = [], board = fresh_tdx [7] [True]\<rparr>"

definition demo_rows :: "string list list" where
  "demo_rows = [[''600000'', ''bank'', ''1''], [''000001'', ''house'', ''0'']]"

lemma demo_start:
  "TDXHQ_Init init_platform (Some three_lines) 0 0 (board demo_dialog) = (Ret TDXHQ_ERROR_OK, ready_tdx [7] [True])"
  "list_all (\<lambda>r. 3 \<le> length r) demo_rows" "demo_rows \<noteq> []" "length demo_rows \<le> MAXWATCH"
  using init_three_lines [of "[7]" "[True]"] by (simp_all add: demo_dialog_def demo_rows_def MAXWATCH_def)


section \<open>A strike of the timer\<close>

definition flagged :: "quotation list \<Rightarrow> quotation list" where
  "flagged qs = map (\<lambda>q. q\<lparr>g_bGetQuotation := True\<rparr>) qs"

lemma trigger_all_from:
  "k + n = length qs \<Longrightarrow> trigger_all [k..<length qs] (map Some (flagged (take k qs) @ drop k qs)) = Ret (map Some (flagged qs))"
proof (induction n arbitrary: k)
  case (Suc n)
  then have k: "k < length qs" by simp
  have len: "length (flagged (take k qs)) = k" using k by (simp add: flagged_def)
  have here: "drop k qs = qs ! k # drop (Suc k) qs" using k by (simp add: Cons_nth_drop_Suc)
  have next': "flagged (take (Suc k) qs) = flagged (take k qs) @ [(qs ! k)\<lparr>g_bGetQuotation := True\<rparr>]"
    using k by (simp add: flagged_def take_Suc_conv_app_nth)
  have "trigger_all [Suc k..<length qs] (map Some (flagged (take (Suc k) qs) @ drop (Suc k) qs)) = Ret (map Some (flagged qs))"
    using Suc.prems by (intro Suc.IH) simp
  then show ?case using k len by (simp add: upt_conv_Cons here next' nth_append list_update_append)
qed simp

lemma trigger_all_map: "length qs = TREADNUM \<Longrightarrow> trigger_all [0..<TREADNUM] (map Some qs) = Ret (map Some (flagged qs))"
  using trigger_all_from [of 0 "length qs" qs] by (simp add: flagged_def)

lemma trigger_all_unset:
  "j \<in> set is \<Longrightarrow> j < length qs \<Longrightarrow> qs ! j = None \<Longrightarrow> trigger_all is qs = Abort Undefined"
proof (induction "is" arbitrary: qs)
  case (Cons i "is")
  then show ?case by (cases "i = j") (auto simp: nth_list_update split: option.splits)
qed simp

lemma OnTimer_map:
  assumes "pquo d = map Some qs" "length qs = TREADNUM"
  shows "OnTimer st1 st2 d =
    (Ret (), if IsTraderTime st1 \<and> preMin d \<noteq> wMinute st2
      then d\<lparr>preMin := wMinute st2, pquo := map Some (flagged qs)\<rparr> else d)"
  using assms by (simp add: OnTimer_def trigger_all_map Let_def)

text \<open>
  With an empty list of securities the last worker is never created, and the first trigger
  in the trading hours goes through its pointer, which was never set.
\<close>

theorem OnTimer_without_securities:
  assumes "redis_up N B env" "TDXHQ_Init P servers 0 0 (board d) = (Ret c, b)"
    "IsTraderTime st1" "wMinute st2 \<noteq> wMinute st"
  shows "\<exists>d'. OnInitDialog N B P env (Rows []) st servers d = (Ret True, d') \<and> pquo d' ! 19 = None \<and>
    fst (OnTimer st1 st2 d') = Abort Undefined"
proof -
  from OnInitDialog_spec [OF assms(1) _ _ assms(2), of "[]" st] obtain qs d' where
    d': "OnInitDialog N B P env (Rows []) st servers d = (Ret True, d')" "pquo d' = map Some qs @ [None]"
      "length (pquo d') = TREADNUM" "preMin d' = wMinute st" by auto
  then have last: "pquo d' ! 19 = None" "19 < length (pquo d')" by (auto simp: TREADNUM_def nth_append)
  then have "trigger_all [0..<TREADNUM] (pquo d') = Abort Undefined"
    by (intro trigger_all_unset) (auto simp: TREADNUM_def)
  with d' last assms(3,4) show ?thesis by (simp add: OnTimer_def Let_def)
qed

theorem OnTimer_without_securities_witness:
  "\<exists>d'. OnInitDialog demo_names std_boost init_platform demo_env (Rows []) (monday 9 0 0) (Some three_lines) demo_dialog =
       (Ret True, d') \<and> pquo d' ! 19 = None \<and> fst (OnTimer (monday 9 26 0) (monday 9 26 0) d') = Abort Undefined"
proof (rule OnTimer_without_securities [OF demo_up demo_start(1)])
  show "IsTraderTime (monday 9 26 0)" by (simp add: IsTraderTime_def monday_def less_same_day)
  show "wMinute (monday 9 26 0) \<noteq> wMinute (monday 9 0 0)" by (simp add: monday_def)
qed

end
