(* ===== verification/Window.thy ===== *)
theory Window
  imports DialogCorrect "HOL-Library.Signed_Division"
begin

unbundle bit_operations_syntax

text \<open>
  The rest of the main window, src/HQTEST/HQTESTDlg.cpp: the tray icon, the menu, painting and the window
  procedure with the message map that leads to the handlers, and the application object of
  src/HQTEST/HQTEST.cpp that creates the window. Everything the program does not handle goes to the
  default processing of the framework, the parameter \<open>framework\<close>. A hidden window is reachable through
  its icon only: shown here is when that icon is there.
\<close>

section \<open>Messages\<close>

type_synonym dword = "32 word"

abbreviation WM_SIZE :: dword where "WM_SIZE \<equiv> 0x5"
abbreviation WM_PAINT :: dword where "WM_PAINT \<equiv> 0xF"
abbreviation WM_CLOSE :: dword where "WM_CLOSE \<equiv> 0x10"
abbreviation WM_ICONERASEBKGND :: dword where "WM_ICONERASEBKGND \<equiv> 0x27"
abbreviation WM_QUERYDRAGICON :: dword where "WM_QUERYDRAGICON \<equiv> 0x37"
abbreviation WM_COMMAND :: dword where "WM_COMMAND \<equiv> 0x111"
abbreviation WM_SYSCOMMAND :: dword where "WM_SYSCOMMAND \<equiv> 0x112"
abbreviation WM_TIMER :: dword where "WM_TIMER \<equiv> 0x113"
abbreviation WM_LBUTTONDOWN :: dword where "WM_LBUTTONDOWN \<equiv> 0x201"
abbreviation WM_RBUTTONDOWN :: dword where "WM_RBUTTONDOWN \<equiv> 0x204"

definition WM_NC :: dword where
  "WM_NC = 0x400 + 1001"

abbreviation SC_MINIMIZE :: dword where "SC_MINIMIZE \<equiv> 0xF020"
abbreviation SC_CLOSE :: dword where "SC_CLOSE \<equiv> 0xF060"
abbreviation IDCANCEL :: dword where "IDCANCEL \<equiv> 2"

definition IDM_ABOUTBOX :: dword where
  "IDM_ABOUTBOX = 0x10"

definition IDC_BUTTON1 :: dword where
  "IDC_BUTTON1 = 1000"

section \<open>The window\<close>

record notify_icon =
  hIcon :: dword
  hWnd :: dword
  szTip :: string
  uCallbackMessage :: dword
  uFlags :: dword

datatype menu_item = Separator | Item dword string

text \<open>
  The window of the dialog \<open>program\<close>: whether it is still open, or about to be closed by an \<^verbatim>\<open>IDCANCEL\<close>
  that is on its way; whether it is shown and minimised; its client area; the system menu, the icon in
  the tray, the list box, and what has been shown and drawn.
\<close>

record window =
  program :: dialog
  is_open :: bool
  closing :: bool
  shown :: bool
  iconic :: bool
  client_rect :: "int \<times> int"
  sysmenu :: "menu_item list option"
  tray :: "notify_icon option"
  NotifyIcon :: notify_icon
  m_hWnd :: dword
  m_hIcon :: dword
  icons :: "dword \<times> dword"
  m_lstbox_msg :: "string list"
  about_boxes :: nat
  drawn :: "(int \<times> int \<times> dword) list"

type_synonym 'a winio = "(window, 'a) io"

text \<open>
  The framework and the system: the default processing of a message, the resources, the size of icons,
  the device context for painting, and whether the shell takes a new tray icon.
\<close>

record framework =
  Default :: "dword \<Rightarrow> dword \<Rightarrow> dword \<Rightarrow> dword winio"
  LoadIcon_main :: dword
  about_text :: string
  SM_CXICON :: int
  SM_CYICON :: int
  paint_dc :: dword
  shell_takes :: bool

definition upd :: "(window \<Rightarrow> window) \<Rightarrow> unit winio" where
  "upd f = (\<lambda>w. (Ret (), f w))"

definition on_program :: "'a dio \<Rightarrow> 'a winio" where
  "on_program m w = (case m (program w) of (r, d) \<Rightarrow> (r, w\<lparr>program := d\<rparr>))"

definition hide :: "window \<Rightarrow> window" where
  "hide w = w\<lparr>shown := False\<rparr>"

text \<open>\<^verbatim>\<open>SW_SHOWNORMAL\<close> also restores a minimised window.\<close>

definition show_normal :: "window \<Rightarrow> window" where
  "show_normal w = w\<lparr>shown := True, iconic := False\<rparr>"

section \<open>Handlers\<close>

definition CHQTESTDlg :: "framework \<Rightarrow> window \<Rightarrow> window" where
  "CHQTESTDlg F w = w\<lparr>m_hIcon := LoadIcon_main F\<rparr>"

definition add_about :: "framework \<Rightarrow> window \<Rightarrow> window" where
  "add_about F w =
     (case sysmenu w of
        None \<Rightarrow> w
      | Some m \<Rightarrow>
          if about_text F \<noteq> [] then w\<lparr>sysmenu := Some (m @ [Separator, Item IDM_ABOUTBOX (about_text F)])\<rparr> else w)"

definition add_icon :: "framework \<Rightarrow> window \<Rightarrow> window" where
  "add_icon F w =
     (let n = \<lparr>hIcon = LoadIcon_main F, hWnd = m_hWnd w, szTip = ''NotifyIcon Test'', uCallbackMessage = WM_NC, uFlags = 7\<rparr>
      in w\<lparr>NotifyIcon := n, tray := (if shell_takes F then Some n else tray w)\<rparr>)"

text \<open>The whole of \<^verbatim>\<open>OnInitDialog\<close>: the window first, then the part that fills the program, \<open>Dialog.OnInitDialog\<close>.\<close>

definition OnInitDialog_window :: "framework \<Rightarrow> bool dio \<Rightarrow> bool winio" where
  "OnInitDialog_window F fill =
     sq (asserting (IDM_ABOUTBOX AND 0xFFF0 = IDM_ABOUTBOX))
     (sq (asserting (IDM_ABOUTBOX < 0xF000))
     (sq (upd (add_about F))
     (sq (upd (\<lambda>w. w\<lparr>icons := (m_hIcon w, m_hIcon w)\<rparr>))
     (sq (upd (add_icon F)) (on_program fill)))))"

definition OnSysCommand :: "framework \<Rightarrow> dword \<Rightarrow> dword \<Rightarrow> unit winio" where
  "OnSysCommand F nID lParam =
     (if nID AND 0xFFF0 = IDM_ABOUTBOX then upd (\<lambda>w. w\<lparr>about_boxes := about_boxes w + 1\<rparr>)
      else sq (Default F WM_SYSCOMMAND nID lParam) (ret ()))"

text \<open>A minimised window paints its icon in the middle; C divides towards 0.\<close>

definition OnPaint :: "framework \<Rightarrow> dword \<Rightarrow> dword \<Rightarrow> unit winio" where
  "OnPaint F wParam lParam w =
     (if iconic w then
        sq (Default F WM_ICONERASEBKGND (paint_dc F) 0) (upd (\<lambda>w. case client_rect w of (wd, ht) \<Rightarrow>
          w\<lparr>drawn := drawn w @ [((wd - SM_CXICON F + 1) sdiv 2, (ht - SM_CYICON F + 1) sdiv 2, m_hIcon w)]\<rparr>)) w
      else sq (Default F WM_PAINT wParam lParam) (ret ()) w)"

definition OnQueryDragIcon :: "dword winio" where
  "OnQueryDragIcon w = (Ret (m_hIcon w), w)"

definition OnBnClickedButton1 :: "unit winio" where
  "OnBnClickedButton1 = for_each (\<lambda>i. upd (\<lambda>w. w\<lparr>m_lstbox_msg := m_lstbox_msg w @ [''sssss'']\<rparr>)) [0..<100]"

definition OnNotifyIcon :: "dword \<Rightarrow> dword \<Rightarrow> dword winio" where
  "OnNotifyIcon wParam IParam =
     sq (if IParam = WM_LBUTTONDOWN \<or> IParam = WM_RBUTTONDOWN then upd show_normal else ret ()) (ret 0)"

definition OnSize :: "framework \<Rightarrow> dword \<Rightarrow> dword \<Rightarrow> unit winio" where
  "OnSize F wParam lParam = sq (Default F WM_SIZE wParam lParam) (ret ())"

definition OnClose :: "framework \<Rightarrow> dword \<Rightarrow> dword \<Rightarrow> unit winio" where
  "OnClose F wParam lParam = sq (Default F WM_CLOSE wParam lParam) (ret ())"

definition OnTimer_window :: "framework \<Rightarrow> systemtime \<times> systemtime \<Rightarrow> dword \<Rightarrow> dword \<Rightarrow> unit winio" where
  "OnTimer_window F clock wParam lParam =
     sq (on_program (OnTimer (fst clock) (snd clock))) (sq (Default F WM_TIMER wParam lParam) (ret ()))"

text \<open>The message map: the handler of a message, or the default processing.\<close>

definition message_map :: "framework \<Rightarrow> systemtime \<times> systemtime \<Rightarrow> dword \<Rightarrow> dword \<Rightarrow> dword \<Rightarrow> dword winio" where
  "message_map F clock message wParam lParam =
     (if message = WM_SYSCOMMAND then sq (OnSysCommand F wParam lParam) (ret 0)
      else if message = WM_PAINT then sq (OnPaint F wParam lParam) (ret 0)
      else if message = WM_QUERYDRAGICON then OnQueryDragIcon
      else if message = WM_COMMAND \<and> wParam = IDC_BUTTON1 then sq OnBnClickedButton1 (ret 0)
      else if message = WM_SIZE then sq (OnSize F wParam lParam) (ret 0)
      else if message = WM_NC then OnNotifyIcon wParam lParam
      else if message = WM_CLOSE then sq (OnClose F wParam lParam) (ret 0)
      else if message = WM_TIMER then sq (OnTimer_window F clock wParam lParam) (ret 0)
      else Default F message wParam lParam)"

text \<open>The window procedure looks at minimising and closing itself.\<close>

definition WindowProc :: "framework \<Rightarrow> systemtime \<times> systemtime \<Rightarrow> dword \<Rightarrow> dword \<Rightarrow> dword \<Rightarrow> dword winio" where
  "WindowProc F clock message wParam lParam =
     (if message = WM_SYSCOMMAND then
        (if wParam = SC_MINIMIZE then sq (upd hide) (ret 0)
         else sq (if wParam = SC_CLOSE then upd (\<lambda>w. w\<lparr>tray := None\<rparr>) else ret ())
                (message_map F clock message wParam lParam))
      else message_map F clock message wParam lParam)"

section \<open>The application\<close>

text \<open>A message as it arrives, with the two readings of the clock that a timer message would make.\<close>

type_synonym message = "(systemtime \<times> systemtime) \<times> dword \<times> dword \<times> dword"

text \<open>The messages are handled one after the other until the dialog ends.\<close>

fun pump :: "framework \<Rightarrow> message list \<Rightarrow> unit winio" where
  "pump F [] w = (Ret (), w)"
| "pump F ((clock, m, wp, lp) # ms) w =
     (if is_open w then sq (WindowProc F clock m wp lp) (pump F ms) w else (Ret (), w))"

datatype start = Sockets_missing | Dialog_ran window

text \<open>\<^verbatim>\<open>InitInstance\<close> always returns FALSE: without sockets at once, otherwise when the dialog has ended.\<close>

definition CHQTESTApp_InitInstance :: "framework \<Rightarrow> bool \<Rightarrow> bool dio \<Rightarrow> message list \<Rightarrow> window \<Rightarrow> bool res \<times> start" where
  "CHQTESTApp_InitInstance F sockets fill ms dlg =
     (if \<not> sockets then (Ret False, Sockets_missing)
      else case sq (OnInitDialog_window F fill) (pump F ms) (CHQTESTDlg F dlg) of
             (Ret _, w) \<Rightarrow> (Ret False, Dialog_ran w)
           | (Throw e, w) \<Rightarrow> (Throw e, Dialog_ran w)
           | (Abort f, w) \<Rightarrow> (Abort f, Dialog_ran w))"

section \<open>The icon in the tray\<close>

text \<open>
  What the default processing does, apart from the messages it sends, which are messages of their own:
  it leaves the program and the tray alone, a close command puts an \<^verbatim>\<open>IDCANCEL\<close> on its way, and that
  command ends the dialog.
\<close>

definition framework_ok :: "framework \<Rightarrow> bool" where
  "framework_ok F \<longleftrightarrow>
     (\<forall>m wp lp w. \<exists>r w'. Default F m wp lp w = (Ret r, w') \<and> program w' = program w \<and> tray w' = tray w \<and>
        NotifyIcon w' = NotifyIcon w \<and> (closing w \<longrightarrow> closing w') \<and>
        (m = WM_SYSCOMMAND \<and> wp AND 0xFFF0 = SC_CLOSE \<longrightarrow> closing w') \<and> (m = WM_COMMAND \<and> wp = IDCANCEL \<longrightarrow> \<not> is_open w'))"

lemma framework_okE:
  assumes "framework_ok F"
  obtains r w' where "Default F m wp lp w = (Ret r, w')" "program w' = program w" "tray w' = tray w"
    "NotifyIcon w' = NotifyIcon w" "closing w \<Longrightarrow> closing w'"
    "m = WM_SYSCOMMAND \<Longrightarrow> wp AND 0xFFF0 = SC_CLOSE \<Longrightarrow> closing w'" "m = WM_COMMAND \<Longrightarrow> wp = IDCANCEL \<Longrightarrow> \<not> is_open w'"
proof -
  from assms have "\<exists>r w'. Default F m wp lp w = (Ret r, w') \<and> program w' = program w \<and> tray w' = tray w \<and>
      NotifyIcon w' = NotifyIcon w \<and> (closing w \<longrightarrow> closing w') \<and>
      (m = WM_SYSCOMMAND \<and> wp AND 0xFFF0 = SC_CLOSE \<longrightarrow> closing w') \<and> (m = WM_COMMAND \<and> wp = IDCANCEL \<longrightarrow> \<not> is_open w')"
    unfolding framework_ok_def by (elim allE)
  with that show ?thesis by blast
qed

text \<open>No handler touches the icon, and what is closing stays so.\<close>

definition calm :: "window \<Rightarrow> window \<Rightarrow> bool" where
  "calm w0 w \<longleftrightarrow> tray w = tray w0 \<and> NotifyIcon w = NotifyIcon w0 \<and> (closing w0 \<longrightarrow> closing w)"

lemma calm_refl [simp]: "calm w w"
  by (simp add: calm_def)

lemma keeps_Default:
  assumes "framework_ok F"
  shows "keeps (calm w0) (Default F m wp lp)"
proof
  fix w assume "calm w0 w"
  moreover from assms obtain r w' where "Default F m wp lp w = (Ret r, w')" "tray w' = tray w" "NotifyIcon w' = NotifyIcon w"
    "closing w \<Longrightarrow> closing w'" by (rule framework_okE [of F m wp lp w]) blast
  ultimately show "calm w0 (snd (Default F m wp lp w))" by (simp add: calm_def)
qed

lemma keeps_upd: "(\<And>w. P w \<Longrightarrow> P (f w)) \<Longrightarrow> keeps P (upd f)"
  by (auto simp: keeps_def upd_def)

lemma keeps_on_program: "keeps (calm w0) (on_program m)"
  by (auto simp: keeps_def on_program_def calm_def split: prod.splits)

lemma keeps_OnPaint: "framework_ok F \<Longrightarrow> keeps (calm w0) (OnPaint F wp lp)"
proof (rule keepsI)
  fix w assume F: "framework_ok F" and w: "calm w0 w"
  have "keeps (calm w0) (sq (Default F WM_ICONERASEBKGND (paint_dc F) 0) (upd (\<lambda>w. case client_rect w of (wd, ht) \<Rightarrow>
      w\<lparr>drawn := drawn w @ [((wd - SM_CXICON F + 1) sdiv 2, (ht - SM_CYICON F + 1) sdiv 2, m_hIcon w)]\<rparr>)))"
    by (intro keeps_sq keeps_Default [OF F] keeps_upd) (auto simp: calm_def split: prod.splits)
  moreover have "keeps (calm w0) (sq (Default F WM_PAINT wp lp) (ret ()))" by (intro keeps_sq keeps_Default [OF F] keeps_ret)
  ultimately show "calm w0 (snd (OnPaint F wp lp w))" using w by (simp add: OnPaint_def keeps_def)
qed

lemma keeps_message_map: "framework_ok F \<Longrightarrow> keeps (calm w0) (message_map F clock m wp lp)"
  unfolding message_map_def OnSysCommand_def OnQueryDragIcon_def OnBnClickedButton1_def OnNotifyIcon_def OnSize_def OnClose_def
    OnTimer_window_def
  by (auto intro!: keeps_sq keeps_for_each keeps_upd keeps_Default keeps_on_program keeps_OnPaint simp: show_normal_def calm_def)

lemma message_map_close:
  assumes "framework_ok F" "message_map F clock WM_SYSCOMMAND wp lp w = (r, w')" "wp AND 0xFFF0 = SC_CLOSE"
  shows "closing w'"
proof -
  from assms(1) obtain r1 w1 where "Default F WM_SYSCOMMAND wp lp w = (Ret r1, w1)" "closing w1"
    by (rule framework_okE [of F WM_SYSCOMMAND wp lp w]) (use assms(3) in blast)
  with assms(2,3) show ?thesis by (simp add: message_map_def OnSysCommand_def IDM_ABOUTBOX_def)
qed

text \<open>The states of the window, from its creation on, over all sequences of messages.\<close>

inductive desktop :: "framework \<Rightarrow> bool dio \<Rightarrow> window \<Rightarrow> bool" for F fill where
  created: "\<not> closing w0 \<Longrightarrow> OnInitDialog_window F fill (CHQTESTDlg F w0) = (Ret b, w) \<Longrightarrow> desktop F fill w"
| handled: "desktop F fill w \<Longrightarrow> is_open w \<Longrightarrow> WindowProc F clock m wp lp w = (Ret r, w') \<Longrightarrow> desktop F fill w'"

text \<open>A run of the application stays in these states, and ends with FALSE.\<close>

lemma pump_desktop: "desktop F fill w \<Longrightarrow> pump F ms w = (Ret (), w') \<Longrightarrow> desktop F fill w'"
proof (induction F ms w rule: pump.induct)
  case (2 F clock m wp lp ms w)
  show ?case
  proof (cases "is_open w")
    case True
    with "2.prems"(2) obtain r w1 where w1: "WindowProc F clock m wp lp w = (Ret r, w1)" "pump F ms w1 = (Ret (), w')"
      by (auto simp: sq_def elim: bnd_RetE)
    from "2.IH" [OF True desktop.handled [OF "2.prems"(1) True w1(1)] w1(2)] show ?thesis .
  qed (use 2 in simp)
qed simp

lemma InitInstance_desktop:
  assumes "CHQTESTApp_InitInstance F sockets fill ms dlg = (Ret b, Dialog_ran w)" "\<not> closing dlg"
  shows "\<not> b \<and> desktop F fill w"
proof -
  from assms(1) have run: "sq (OnInitDialog_window F fill) (pump F ms) (CHQTESTDlg F dlg) = (Ret (), w)" "\<not> b"
    by (auto simp: CHQTESTApp_InitInstance_def split: if_splits prod.splits res.splits)
  then obtain b' w1 where "OnInitDialog_window F fill (CHQTESTDlg F dlg) = (Ret b', w1)" "pump F ms w1 = (Ret (), w)"
    by (auto simp: sq_def elim: bnd_RetE)
  with run(2) desktop.created [OF assms(2)] show ?thesis by (blast intro: pump_desktop)
qed

text \<open>The icon of a minimised window is painted in the middle: the margins differ by at most one.\<close>

lemma OnPaint_centres:
  assumes "framework_ok F" "iconic w" "SM_CXICON F \<le> wd" "SM_CYICON F \<le> ht"
    "client_rect (snd (Default F WM_ICONERASEBKGND (paint_dc F) 0 w)) = (wd, ht)"
  shows "\<exists>x y i w1. OnPaint F wp lp w = (Ret (), w1\<lparr>drawn := drawn w1 @ [(x, y, i)]\<rparr>) \<and> 0 \<le> x \<and> 0 \<le> y \<and>
    \<bar>wd - SM_CXICON F - 2 * x\<bar> \<le> 1 \<and> \<bar>ht - SM_CYICON F - 2 * y\<bar> \<le> 1"
proof -
  from assms(1) obtain r w1 where "Default F WM_ICONERASEBKGND (paint_dc F) 0 w = (Ret r, w1)"
    by (rule framework_okE [of F WM_ICONERASEBKGND "paint_dc F" 0 w]) blast
  moreover have half: "0 \<le> (b - a + 1) sdiv 2 \<and> \<bar>b - a - 2 * ((b - a + 1) sdiv 2)\<bar> \<le> 1" if "a \<le> b" for a b :: int
    using that by (simp add: signed_divide_int_def sgn_mult)
  ultimately show ?thesis using assms(2,5) half [OF assms(3)] half [OF assms(4)]
    by (auto simp: OnPaint_def upd_def)
qed

definition has_icon :: "window \<Rightarrow> bool" where
  "has_icon w \<longleftrightarrow> closing w \<or> (tray w = Some (NotifyIcon w) \<and> uCallbackMessage (NotifyIcon w) = WM_NC)"

lemma calm_has_icon: "calm w0 w \<Longrightarrow> has_icon w0 \<Longrightarrow> has_icon w"
  by (auto simp: calm_def has_icon_def)

lemma WindowProc_has_icon:
  assumes "framework_ok F" "WindowProc F clock m wp lp w = (r, w')" "has_icon w"
  shows "has_icon w'"
proof (cases "m = WM_SYSCOMMAND \<and> (wp = SC_MINIMIZE \<or> wp = SC_CLOSE)")
  case True
  then show ?thesis
    using assms message_map_close [OF assms(1), of clock SC_CLOSE lp]
    by (auto simp: WindowProc_def hide_def upd_def has_icon_def sq_def bnd_def)
next
  case False
  then have "message_map F clock m wp lp w = (r, w')" using assms(2) by (auto simp: WindowProc_def sq_def split: if_splits)
  with keepsD [OF keeps_message_map [OF assms(1), of w clock m wp lp], of w] assms(3) show ?thesis by (auto intro: calm_has_icon)
qed

lemma desktop_has_icon:
  assumes "desktop F fill w" "framework_ok F" "shell_takes F"
  shows "has_icon w"
  using assms(1)
proof induction
  case (created w0 b w)
  then show ?case using assms(3)
    by (auto simp: OnInitDialog_window_def CHQTESTDlg_def upd_def add_about_def add_icon_def on_program_def has_icon_def Let_def
        sq_def bnd_def split: prod.splits res.splits option.splits if_splits)
next
  case (handled w clock m wp lp r w')
  then show ?case by (blast intro: WindowProc_has_icon [OF assms(2)])
qed

text \<open>
  Property C10. When the shell accepts the icon at the start (its answer is ignored), a hidden window
  comes back: in every state the window can get into, whatever messages
  it was sent, as long as it is open and not about to close its icon is in the tray, and a click on
  the icon, with either button, sends the message that shows the window again and restores it; the
  program behind it is not touched.
\<close>

theorem hidden_window_comes_back:
  assumes "framework_ok F" "shell_takes F" "desktop F fill w" "\<not> closing w" "lp = WM_LBUTTONDOWN \<or> lp = WM_RBUTTONDOWN"
  shows "\<exists>icon w'. tray w = Some icon \<and> WindowProc F clock (uCallbackMessage icon) wp lp w = (Ret 0, w') \<and>
    shown w' \<and> \<not> iconic w' \<and> program w' = program w"
  using desktop_has_icon [OF assms(3,1,2)] assms(4,5)
  by (auto simp: has_icon_def WindowProc_def message_map_def OnNotifyIcon_def WM_NC_def upd_def show_normal_def sq_def bnd_def)

text \<open>
  Property C38. The icon that stays: the low four bits of a system command are for the system, which
  closes the window for all sixteen variants of \<^verbatim>\<open>SC_CLOSE\<close>; the window procedure compares without a
  mask and removes the icon for one of them only. Any other close command ends the dialog and leaves the
  icon in the tray.
\<close>

theorem icon_left_behind:
  assumes "framework_ok F" "tray w = Some icon" "is_open w" "wp AND 0xFFF0 = SC_CLOSE"
  shows "\<exists>w'. pump F [(c1, WM_SYSCOMMAND, wp, lp), (c2, WM_COMMAND, IDCANCEL, lp')] w = (Ret (), w') \<and> \<not> is_open w' \<and>
    tray w' = (if wp = SC_CLOSE then None else Some icon)"
proof -
  let ?w = "if wp = SC_CLOSE then w\<lparr>tray := None\<rparr> else w"
  from assms(1) obtain r1 w1 where
    w1: "Default F WM_SYSCOMMAND wp lp ?w = (Ret r1, w1)" "tray w1 = tray ?w"
    by (rule framework_okE [of F WM_SYSCOMMAND wp lp ?w]) blast
  from assms(1) obtain r2 w2 where w2: "Default F WM_COMMAND IDCANCEL lp' w1 = (Ret r2, w2)" "tray w2 = tray w1" "\<not> is_open w2"
    by (rule framework_okE [of F WM_COMMAND IDCANCEL lp' w1]) blast
  have "wp \<noteq> SC_MINIMIZE" using assms(4) by auto
  with w1 assms(3,4) have first: "WindowProc F c1 WM_SYSCOMMAND wp lp w = (Ret 0, w1)"
    by (auto simp: WindowProc_def message_map_def OnSysCommand_def IDM_ABOUTBOX_def upd_def split: if_splits)
  have "WindowProc F c2 WM_COMMAND IDCANCEL lp' w1 = (Ret r2, w2)"
    using w2(1) by (simp add: WindowProc_def message_map_def IDC_BUTTON1_def WM_NC_def)
  with first w1(2) w2(2,3) assms(2,3) show ?thesis by (cases "is_open w1") auto
qed

section \<open>A framework that keeps the contract\<close>

definition plain_default :: "dword \<Rightarrow> dword \<Rightarrow> dword \<Rightarrow> dword winio" where
  "plain_default m wp lp w =
     (Ret 0, if m = WM_SYSCOMMAND \<and> wp AND 0xFFF0 = SC_CLOSE then w\<lparr>closing := True\<rparr>
             else if m = WM_COMMAND \<and> wp = IDCANCEL then w\<lparr>is_open := False\<rparr> else w)"

definition plain_framework :: framework where
  "plain_framework =
     \<lparr>Default = plain_default, LoadIcon_main = 128, about_text = ''About'', SM_CXICON = 32, SM_CYICON = 32, paint_dc = 1,
      shell_takes = True\<rparr>"

lemma plain_framework_ok: "framework_ok plain_framework" "shell_takes plain_framework"
  by (auto simp: framework_ok_def plain_framework_def plain_default_def)

definition no_icon :: notify_icon where
  "no_icon = \<lparr>hIcon = 0, hWnd = 0, szTip = [], uCallbackMessage = 0, uFlags = 0\<rparr>"

definition new_window :: window where
  "new_window =
     \<lparr>program = demo_dialog, is_open = True, closing = False, shown = True, iconic = False, client_rect = (300, 200),
      sysmenu = Some [], tray = None, NotifyIcon = no_icon, m_hWnd = 77, m_hIcon = 0, icons = (0, 0), m_lstbox_msg = [],
      about_boxes = 0, drawn = []\<rparr>"

abbreviation no_database :: "bool dio" where
  "no_database \<equiv> OnInitDialog demo_names std_boost init_platform demo_env InitFails (monday 9 0 0) (Some three_lines)"

definition started :: window where
  "started = snd (OnInitDialog_window plain_framework no_database (CHQTESTDlg plain_framework new_window))"

lemmas window_evaluates = OnInitDialog_window_def CHQTESTDlg_def upd_def add_about_def add_icon_def on_program_def OnInitDialog_def
  plain_framework_def new_window_def IDM_ABOUTBOX_def Let_def

lemma started_desktop: "desktop plain_framework no_database started" "\<not> closing started" "is_open started" "shown started"
  "tray started = Some (NotifyIcon started)"
proof -
  have "OnInitDialog_window plain_framework no_database (CHQTESTDlg plain_framework new_window) = (Ret False, started)"
    by (simp add: started_def window_evaluates)
  moreover have "\<not> closing new_window" by (simp add: new_window_def)
  ultimately show "desktop plain_framework no_database started" by (blast intro: desktop.created)
qed (simp_all add: started_def window_evaluates)

text \<open>The window is minimised, gets a message it does not know, and is clicked back.\<close>

theorem hidden_window_comes_back_witness:
  "\<exists>icon w'. tray (hide started) = Some icon \<and> \<not> shown (hide started) \<and>
     WindowProc plain_framework (monday 9 0 0, monday 9 0 0) (uCallbackMessage icon) 0 WM_LBUTTONDOWN (hide started) = (Ret 0, w') \<and> shown w'"
proof -
  have "WindowProc plain_framework (monday 9 0 0, monday 9 0 0) WM_SYSCOMMAND SC_MINIMIZE 0 started = (Ret 0, hide started)"
    by (simp add: WindowProc_def upd_def)
  then have "desktop plain_framework no_database (hide started)" by (rule desktop.handled [OF started_desktop(1,3)])
  moreover have "\<not> closing (hide started)" "\<not> shown (hide started)" using started_desktop(2) by (simp_all add: hide_def)
  ultimately show ?thesis
    using hidden_window_comes_back [OF plain_framework_ok, of no_database "hide started" WM_LBUTTONDOWN "(monday 9 0 0, monday 9 0 0)" 0]
    by blast
qed

text \<open>A double click on the menu of the title bar closes with \<^verbatim>\<open>SC_CLOSE | 3\<close>.\<close>

theorem icon_left_behind_witness:
  "\<exists>w'. pump plain_framework [((monday 9 0 0, monday 9 0 0), WM_SYSCOMMAND, 0xF063, 0), ((monday 9 0 0, monday 9 0 0), WM_COMMAND, IDCANCEL, 0)]
       started = (Ret (), w') \<and> \<not> is_open w' \<and> tray w' = Some (NotifyIcon started)"
  using icon_left_behind [OF plain_framework_ok(1) started_desktop(5,3), of "0xF063" "(monday 9 0 0, monday 9 0 0)" 0 "(monday 9 0 0, monday 9 0 0)" 0]
  by simp

end
