(* ===== verification/Floor.thy ===== *)
theory Floor
  imports DialogCorrect
begin

text \<open>
  The timer of the window and the 20 worker threads beside each other. A state is the window with its workers,
  where each worker is in its code, and the calls to SQLite so far; the steps are strikes of the timer and
  steps of single workers (\<open>Run_step\<close>), in any order. Shown: an invariant of all reachable states, and
  what becomes of a trigger that comes while a worker is in its round. A step of a worker that does not return, throws
  or is undefined ends the program and has no successor here. Requests are sent without the
  mutex of the DLL, but touch only the worker's own socket, so that one security is one step.
\<close>

section \<open>Requests leave the table of connections alone\<close>

definition same_table :: "tdx \<Rightarrow> tdx \<Rightarrow> bool" where
  "same_table a b \<longleftrightarrow> skHQ b = skHQ a \<and> nConnectID b = nConnectID a \<and> nIP b = nIP a \<and> nCurentIP b = nCurentIP a \<and>
     pmtx b = pmtx a \<and> IPS b = IPS a"

lemma same_table_inv: "same_table a b \<Longrightarrow> tdx_inv a \<Longrightarrow> tdx_inv b"
  by (simp add: same_table_def tdx_inv_def)

lemma keeps_calls [intro, simp]:
  "keeps (same_table a) (with_bb m b)" "keeps (same_table a) (call_send k bs)" "keeps (same_table a) (call_recv k n)"
  by (auto simp: keeps_def same_table_def with_bb_def call_send_def call_recv_def split: res.splits prod.splits send_result.splits recv_result.splits)

lemma keeps_recv_body [intro, simp]: "keeps (same_table a) (recv_body k n d b)"
proof
  fix s assume "same_table a s"
  then show "same_table a (snd (recv_body k n d b s))"
  proof (induction k n d b s rule: recv_body.induct)
    case (1 k n d b s)
    obtain r s1 where c: "call_recv k n s = (r, s1)" by (cases "call_recv k n s")
    have s1: "same_table a s1" using keepsD [OF keeps_calls(3) "1.prems", of k n] c by simp
    show ?case
    proof (cases "\<exists>i bs. r = Ret (i, bs)")
      case False
      with c s1 show ?thesis by (subst recv_body.simps) (auto split: res.splits)
    next
      case True
      then obtain i bs where r: "call_recv k n s = (Ret (i, bs), s1)" using c by blast
      let ?d = "bs @ drop (length bs) d"
      obtain q b1 where q: "bb_append ?d (to_u32 i) b = (q, b1)" by (cases "bb_append ?d (to_u32 i) b")
      show ?thesis
      proof (cases "q = Ret () \<and> i \<noteq> 0 \<and> bb_size b1 \<noteq> n")
        case True
        with "1.IH" [OF r [symmetric] refl refl refl q [symmetric], of "()"] r q s1 show ?thesis
          by (subst recv_body.simps) (simp add: Let_def)
      next
        case False
        with r q s1 show ?thesis by (subst recv_body.simps) (auto simp: Let_def split: res.splits)
      qed
    qed
  qed
qed

lemma keeps_boxes [intro, simp]: "keeps (same_table a) (\<lambda>s. (r, s\<lparr>boxes := f s\<rparr>))"
  by (auto simp: keeps_def same_table_def)

lemma keeps_read_reply [intro, simp]: "keeps (same_table a) (read_reply P k Category h Count szResult)"
  unfolding read_reply_def by (auto simp: Let_def case_prod_unfold intro!: keeps_bnd)

lemma keeps_GetSecurityBars [intro, simp]:
  "keeps (same_table a) (TDXHQ_GetSecurityBars P cid Category Market Zqdm Start Count szResult)"
proof -
  have cases: "keeps (same_table a) (\<lambda>s. if C s then (Abort Undefined, s) else if D s then (Ret x, s) else m s s)"
    if "\<And>s. keeps (same_table a) (m s)" for C D x and m :: "tdx \<Rightarrow> (int \<times> nat \<times> string) tio"
    using that by (auto simp: keeps_def)
  show ?thesis
    unfolding TDXHQ_GetSecurityBars_def Let_def case_prod_unfold
    by (rule keeps_bnd [OF keeps_calls(1)], rule cases) (auto intro!: keeps_bnd)
qed

section \<open>A step of a worker\<close>

text \<open>While it deals with a security a worker changes nothing of itself but its Redis client.\<close>

definition undisturbed :: "quotation \<Rightarrow> tdx \<Rightarrow> station \<Rightarrow> bool" where
  "undisturbed q d s \<longleftrightarrow> worker s = q\<lparr>redis_client := redis_client (worker s)\<rparr> \<and> same_table d (dll s)"

lemma undisturbed_start [simp]: "undisturbed (worker s) (dll s) s"
  by (simp add: undisturbed_def same_table_def)

lemma keeps_on_dll [intro]: "keeps (same_table d) m \<Longrightarrow> keeps (undisturbed q d) (on_dll m)"
  by (auto simp: keeps_def undisturbed_def on_dll_def split: prod.splits)

lemma keeps_on_redis [intro, simp]: "keeps (undisturbed q d) (on_redis m)"
proof
  fix s assume "undisturbed q d s"
  moreover obtain r c where "m (redis_client (worker s)) = (r, c)" by fastforce
  ultimately show "undisturbed q d (snd (on_redis m s))" by (cases q, cases "worker s") (auto simp: undisturbed_def on_redis_def)
qed

lemma keeps_call_sql [intro, simp]: "keeps (undisturbed q d) (call_sql c)"
  by (auto simp: keeps_def undisturbed_def call_sql_def)

lemma keeps_save_rows [intro, simp]: "keeps (undisturbed q d) (save_rows P fuel stmt txt iRow)"
  by (induction fuel arbitrary: iRow) (auto simp: Let_def)

lemma keeps_fetch_table [intro, simp]: "keeps (undisturbed q d) (fetch_table P fuel Category mk stock count stmt)"
proof
  fix s assume s: "undisturbed q d s"
  have "keeps (undisturbed q d) (bnd (on_dll (TDXHQ_GetSecurityBars P (conID (worker s)) Category mk stock 0 count
      (replicate RESULTSIZE (CHR 0x00))))
    (\<lambda>(result, n, szResult). bnd (lift_res (c_str szResult)) (\<lambda>txt. save_rows P fuel stmt txt 1)))"
    by (auto intro!: keeps_bnd split: prod.splits)
  from keepsD [OF this s] show "undisturbed q d (snd (fetch_table P fuel Category mk stock count stmt s))"
    by (simp add: fetch_table_def)
qed

lemma process_stock_undisturbed:
  assumes "process_stock cfg P B fuel st s = (r, s')"
  shows "undisturbed (worker s) (dll s) s'"
proof -
  have "keeps (undisturbed (worker s) (dll s)) (process_stock cfg P B fuel st)"
    unfolding process_stock_def Let_def case_prod_unfold by (intro keeps_sq keeps_on_redis keeps_call_sql keeps_fetch_table)
  from keepsD [OF this undisturbed_start] assms show ?thesis by simp
qed

lemma undisturbed_fields:
  assumes "undisturbed q d s"
  shows "conID (worker s) = conID q" "g_bGetQuotation (worker s) = g_bGetQuotation q" "m_iStockNum (worker s) = m_iStockNum q"
    "m_stockcode (worker s) = m_stockcode q" "m_dwID (worker s) = m_dwID q" "skHQ (dll s) = skHQ d"
proof -
  from assms have "worker s = q\<lparr>redis_client := redis_client (worker s)\<rparr>" "same_table d (dll s)" by (auto simp: undisturbed_def)
  then show "conID (worker s) = conID q" "g_bGetQuotation (worker s) = g_bGetQuotation q" "m_iStockNum (worker s) = m_iStockNum q"
    "m_stockcode (worker s) = m_stockcode q" "m_dwID (worker s) = m_dwID q" "skHQ (dll s) = skHQ d"
    by (metis quotation.select_convs quotation.surjective quotation.update_convs(6), simp add: same_table_def)+
qed

text \<open>
  An attempt to connect that returns: it keeps the invariant of the table and every slot that is taken, and
  the slot it gives was free before, unless the table was full.
\<close>

definition keeps_slots :: "tdx \<Rightarrow> tdx \<Rightarrow> bool" where
  "keeps_slots d d' \<longleftrightarrow> (\<forall>j<CONNECTNUM. skHQ d ! j \<noteq> INVALID_SOCKET \<longrightarrow> skHQ d' ! j = skHQ d ! j)"

definition slot_ok :: "tdx \<Rightarrow> int \<Rightarrow> bool" where
  "slot_ok d k \<longleftrightarrow> k < 0 \<or> k < int CONNECTNUM \<and> skHQ d ! nat k \<noteq> INVALID_SOCKET"

lemma slot_ok_kept: "slot_ok d k \<Longrightarrow> keeps_slots d d' \<Longrightarrow> slot_ok d' k"
  by (auto simp: slot_ok_def keeps_slots_def nat_less_iff)

lemma TDXHQ_Connect_server:
  assumes "tdx_inv d" "TDXHQ_Connect d = (Ret c, d')"
  shows "server_of d < 100"
proof -
  have inv: "pmtx d" "length (skHQ d) = CONNECTNUM" "length (IPS d) = 100" "nIP d \<le> 100" using assms(1) by (auto simp: tdx_inv_def)
  have "nConnectID (choose_slot d) < length (skHQ (choose_slot d))" using slot_of_less [OF assms(1)] inv by simp
  from open_slot_spec [OF this] obtain e where e: "open_slot (choose_slot d) = (Ret (), e)" "nIP e = nIP d"
      "nCurentIP e = nCurentIP d" "IPS e = IPS d" by auto
  have "nCurentIP (next_server e) = server_of d" using next_server_index [of e] e inv by (simp add: server_of_def)
  with assms(2) e inv show ?thesis by (simp add: TDXHQ_Connect_def connect_server_def split: if_splits)
qed

lemma TDXHQ_Connect_slots:
  assumes "tdx_inv d" "TDXHQ_Connect d = (Ret c, d')"
  shows "tdx_inv d'" "keeps_slots d d'" "slot_ok d' c"
    "c < 0 \<or> skHQ d ! nat c = INVALID_SOCKET \<or> INVALID_SOCKET \<notin> set (skHQ d)"
proof -
  from TDXHQ_Connect_spec [OF assms(1) TDXHQ_Connect_server [OF assms]] assms(2) have
    spec: "tdx_inv d'" "c = (if connect_ok d \<noteq> [] \<and> hd (connect_ok d) \<and> skHQ d' ! slot_of d \<noteq> INVALID_SOCKET
         then int (slot_of d) else TDXHQ_ERROR_CONT)" "\<forall>j<CONNECTNUM. j \<noteq> slot_of d \<longrightarrow> skHQ d' ! j = skHQ d ! j"
      "skHQ d ! slot_of d \<noteq> INVALID_SOCKET \<longrightarrow> skHQ d' = skHQ d" by auto
  then show "tdx_inv d'" "keeps_slots d d'" by (auto simp: keeps_slots_def)
  have "TDXHQ_ERROR_CONT < 0" by (simp add: TDXHQ_ERROR_CONT_def)
  then show "slot_ok d' c" using spec(2) slot_of_less [OF assms(1)] by (auto simp: slot_ok_def)
  have "INVALID_SOCKET \<in> set (skHQ d) \<Longrightarrow> skHQ d ! slot_of d = INVALID_SOCKET"
    using free_slot_None [of "skHQ d"] by (auto simp: slot_of_def split: option.splits dest: free_slot_Some)
  then show "c < 0 \<or> skHQ d ! nat c = INVALID_SOCKET \<or> INVALID_SOCKET \<notin> set (skHQ d)"
    using spec(2) \<open>TDXHQ_ERROR_CONT < 0\<close> by auto
qed

text \<open>What holds of a worker at each place of its code.\<close>

definition worker_ok :: "tdx \<Rightarrow> spot \<Rightarrow> quotation \<Rightarrow> bool" where
  "worker_ok d sp q \<longleftrightarrow> length (m_stockcode q) = MAXSTOCK \<and> m_iStockNum q \<le> MAXSTOCK \<and>
     (case sp of
        Starting \<Rightarrow> True
      | Top \<Rightarrow> slot_ok d (conID q)
      | Connecting \<Rightarrow> slot_ok d (conID q) \<and> g_bGetQuotation q
      | Fetching i \<Rightarrow> slot_ok d (conID q) \<and> 0 \<le> conID q \<and> g_bGetQuotation q \<and> i \<le> m_iStockNum q
      | Ended \<Rightarrow> slot_ok d (conID q))"

definition same_share :: "quotation \<Rightarrow> quotation \<Rightarrow> bool" where
  "same_share q q' \<longleftrightarrow> m_dwID q' = m_dwID q \<and> m_iStockNum q' = m_iStockNum q \<and> m_stockcode q' = m_stockcode q"

definition step_result :: "tdx \<Rightarrow> quotation \<Rightarrow> spot \<Rightarrow> spot \<Rightarrow> station \<Rightarrow> bool" where
  "step_result d q sp sp' s' \<longleftrightarrow> tdx_inv (dll s') \<and> keeps_slots d (dll s') \<and> worker_ok (dll s') sp' (worker s') \<and> sp' \<noteq> Starting \<and>
     same_share q (worker s') \<and>
     (conID (worker s') < 0 \<or> sp \<noteq> Starting \<and> conID (worker s') = conID q \<or> skHQ d ! nat (conID (worker s')) = INVALID_SOCKET \<or>
      INVALID_SOCKET \<notin> set (skHQ d))"

lemma Run_step_ok:
  assumes "tdx_inv d" "worker_ok d sp q" "Run_step cfg P B fuel quit sp \<lparr>worker = q, dll = d, sql = x\<rparr> = (Ret sp', s')"
  shows "step_result d q sp sp' s'"
proof (cases "(\<exists>i. sp = Fetching i \<and> i < m_iStockNum q) \<or> (sp = Connecting \<and> conID q < 0)")
  case False
  with assms show ?thesis
    by (auto simp: Run_step_def step_result_def worker_ok_def same_share_def keeps_slots_def InitInstance_def slot_ok_def
        split: spot.splits if_splits)
next
  case True
  then show ?thesis
  proof (elim disjE exE conjE)
    fix i assume i: "sp = Fetching i" "i < m_iStockNum q"
    with assms(2,3) obtain t where t: "process_stock cfg P B fuel (m_stockcode q ! i) \<lparr>worker = q, dll = d, sql = x\<rparr> = (Ret (), t)"
        "s' = t" "sp' = Fetching (i + 1)"
      by (auto simp: Run_step_def worker_ok_def sq_def elim!: bnd_RetE)
    from process_stock_undisturbed [OF t(1)] have u: "undisturbed q d s'" using t(2) by simp
    then have "tdx_inv (dll s')" using assms(1) same_table_inv by (auto simp: undisturbed_def)
    then show ?thesis using assms(2) i t(3) undisturbed_fields [OF u]
      by (auto simp: step_result_def worker_ok_def same_share_def keeps_slots_def slot_ok_def)
  next
    assume c: "sp = Connecting" "conID q < 0"
    with assms(3) obtain k d' where k: "TDXHQ_Connect d = (Ret k, d')" "s' = \<lparr>worker = q\<lparr>conID := k\<rparr>, dll = d', sql = x\<rparr>" "sp' = Connecting"
      by (auto simp: Run_step_def on_dll_def elim!: bnd_RetE split: prod.splits)
    with TDXHQ_Connect_slots [OF assms(1) k(1)] assms(2) c show ?thesis
      by (auto simp: step_result_def worker_ok_def same_share_def)
  qed
qed

section \<open>The timer and the workers together\<close>

record floor =
  win :: dialog
  spots :: "spot list"
  executed :: "sql_call list"

text \<open>The events: a strike of the timer, with its two readings of the clock, and a step of a worker.\<close>

datatype event = Strike systemtime systemtime | Work nat bool

definition after_work :: "nat \<Rightarrow> spot \<Rightarrow> station \<Rightarrow> floor \<Rightarrow> floor" where
  "after_work i sp s f = f\<lparr>win := (win f)\<lparr>pquo := (pquo (win f))[i := Some (worker s)], board := dll s\<rparr>,
     spots := (spots f)[i := sp], executed := sql s\<rparr>"

inductive floor_step :: "config \<Rightarrow> platform \<Rightarrow> boost \<Rightarrow> event \<Rightarrow> floor \<Rightarrow> floor \<Rightarrow> bool" for cfg P B where
  strike: "OnTimer st1 st2 (win f) = (Ret (), d') \<Longrightarrow> floor_step cfg P B (Strike st1 st2) f (f\<lparr>win := d'\<rparr>)"
| work: "i < length (spots f) \<Longrightarrow> pquo (win f) ! i = Some q \<Longrightarrow>
     Run_step cfg P B fuel quit (spots f ! i) \<lparr>worker = q, dll = board (win f), sql = executed f\<rparr> = (Ret sp, s) \<Longrightarrow>
     floor_step cfg P B (Work i quit) f (after_work i sp s f)"

inductive_cases strikeE: "floor_step cfg P B (Strike st1 st2) f f'"
inductive_cases workE: "floor_step cfg P B (Work i quit) f f'"

inductive floor_run :: "config \<Rightarrow> platform \<Rightarrow> boost \<Rightarrow> event list \<Rightarrow> floor \<Rightarrow> floor \<Rightarrow> bool" for cfg P B where
  stop: "floor_run cfg P B [] f f"
| more: "floor_step cfg P B e f f' \<Longrightarrow> floor_run cfg P B es f' f'' \<Longrightarrow> floor_run cfg P B (e # es) f f''"

text \<open>No two workers that have started have the same slot, as long as the table has a free one.\<close>

definition own_slots :: "tdx \<Rightarrow> spot list \<Rightarrow> quotation list \<Rightarrow> bool" where
  "own_slots d sps qs \<longleftrightarrow> INVALID_SOCKET \<notin> set (skHQ d) \<or>
     (\<forall>i<TREADNUM. \<forall>j<TREADNUM. i \<noteq> j \<and> sps ! i \<noteq> Starting \<and> sps ! j \<noteq> Starting \<and> 0 \<le> conID (qs ! i) \<longrightarrow>
        conID (qs ! i) \<noteq> conID (qs ! j))"

text \<open>
  The invariant: 20 workers that between them hold the watched securities once each and in order; the table
  of the DLL in order; each worker as it must be where it is in its code; and every connected worker on a slot of its own.
\<close>

definition workers_ok :: "stockcode list \<Rightarrow> tdx \<Rightarrow> spot list \<Rightarrow> quotation list \<Rightarrow> bool" where
  "workers_ok stocks d sps qs \<longleftrightarrow> length sps = TREADNUM \<and> length qs = TREADNUM \<and> concat (map stocks_of qs) = stocks \<and> tdx_inv d \<and>
     (\<forall>i<TREADNUM. m_dwID (qs ! i) = i \<and> worker_ok d (sps ! i) (qs ! i)) \<and> own_slots d sps qs"

definition floor_inv :: "stockcode list \<Rightarrow> floor \<Rightarrow> bool" where
  "floor_inv stocks f \<longleftrightarrow> (\<exists>qs. pquo (win f) = map Some qs \<and> workers_ok stocks (board (win f)) (spots f) qs)"

lemma flagged_nth [simp]: "i < length qs \<Longrightarrow> flagged qs ! i = (qs ! i)\<lparr>g_bGetQuotation := True\<rparr>" "length (flagged qs) = length qs"
  by (simp_all add: flagged_def)

lemma workers_ok_trigger: "workers_ok stocks d sps qs \<Longrightarrow> workers_ok stocks d sps (flagged qs)"
proof -
  have "map stocks_of (flagged qs) = map stocks_of qs" by (simp add: flagged_def stocks_of_def comp_def)
  then show "workers_ok stocks d sps qs \<Longrightarrow> ?thesis"
    by (auto simp: workers_ok_def own_slots_def worker_ok_def split: spot.splits)
qed

lemma worker_ok_kept: "worker_ok d sp q \<Longrightarrow> keeps_slots d d' \<Longrightarrow> worker_ok d' sp q"
  by (auto simp: worker_ok_def intro: slot_ok_kept split: spot.splits)

lemma worker_ok_slot: "worker_ok d sp q \<Longrightarrow> sp \<noteq> Starting \<Longrightarrow> slot_ok d (conID q)"
  by (cases sp) (auto simp: worker_ok_def)

lemma full_kept:
  assumes "tdx_inv d" "tdx_inv d'" "keeps_slots d d'" "INVALID_SOCKET \<notin> set (skHQ d)"
  shows "INVALID_SOCKET \<notin> set (skHQ d')"
  using assms by (auto simp: keeps_slots_def tdx_inv_def in_set_conv_nth)

lemma own_slots_step:
  assumes "workers_ok stocks d sps qs" "i < TREADNUM" "step_result d (qs ! i) (sps ! i) sp' s'"
  shows "own_slots (dll s') (sps[i := sp']) (qs[i := worker s'])"
proof (cases "INVALID_SOCKET \<in> set (skHQ d)")
  case False
  with assms full_kept [of d "dll s'"] show ?thesis by (auto simp: own_slots_def workers_ok_def step_result_def)
next
  case True
  have new: "conID (worker s') < 0 \<or> sps ! i \<noteq> Starting \<and> conID (worker s') = conID (qs ! i) \<or>
      skHQ d ! nat (conID (worker s')) = INVALID_SOCKET" using assms(3) True by (auto simp: step_result_def)
  have old: "conID (qs ! a) \<noteq> conID (qs ! b)"
    if "a < TREADNUM" "b < TREADNUM" "a \<noteq> b" "sps ! a \<noteq> Starting" "sps ! b \<noteq> Starting" "0 \<le> conID (qs ! a)" for a b
    using assms(1) True that by (auto simp: workers_ok_def own_slots_def)
  have taken: "0 \<le> conID (qs ! j) \<Longrightarrow> skHQ d ! nat (conID (qs ! j)) \<noteq> INVALID_SOCKET" if "j < TREADNUM" "sps ! j \<noteq> Starting" for j
    using assms(1) that worker_ok_slot [of d "sps ! j" "qs ! j"] by (auto simp: workers_ok_def slot_ok_def)
  have other: "conID (worker s') \<noteq> conID (qs ! j)" if "j < TREADNUM" "j \<noteq> i" "sps ! j \<noteq> Starting" "0 \<le> conID (worker s')" for j
    using new old [of i j] taken [of j] assms(2) that by auto
  have "length sps = TREADNUM" "length qs = TREADNUM" using assms(1) by (auto simp: workers_ok_def)
  then show ?thesis
    using old other assms(2) by (fastforce simp: own_slots_def nth_list_update)
qed

lemma workers_ok_step:
  assumes "workers_ok stocks d sps qs" "i < TREADNUM" "step_result d (qs ! i) (sps ! i) sp' s'"
  shows "workers_ok stocks (dll s') (sps[i := sp']) (qs[i := worker s'])"
proof -
  have len: "length sps = TREADNUM" "length qs = TREADNUM" using assms(1) by (auto simp: workers_ok_def)
  have res: "tdx_inv (dll s')" "keeps_slots d (dll s')" "worker_ok (dll s') sp' (worker s')" "same_share (qs ! i) (worker s')"
    using assms(3) by (auto simp: step_result_def)
  then have "stocks_of (worker s') = stocks_of (qs ! i)" by (simp add: same_share_def stocks_of_def)
  then have "map stocks_of (qs[i := worker s']) = map stocks_of qs"
    using assms(2) len by (simp add: map_update list_update_same_conv)
  moreover have "m_dwID (qs[i := worker s'] ! j) = j \<and> worker_ok (dll s') (sps[i := sp'] ! j) (qs[i := worker s'] ! j)"
    if "j < TREADNUM" for j
    using assms(1) res that len worker_ok_kept [OF _ res(2)] by (cases "j = i") (auto simp: workers_ok_def same_share_def)
  ultimately show ?thesis using own_slots_step [OF assms] assms(1) res(1) len by (simp add: workers_ok_def)
qed

lemma floor_step_inv: "floor_step cfg P B e f f' \<Longrightarrow> floor_inv stocks f \<Longrightarrow> floor_inv stocks f'"
proof (induction rule: floor_step.induct)
  case (strike st1 st2 f d')
  then obtain qs where qs: "pquo (win f) = map Some qs" "workers_ok stocks (board (win f)) (spots f) qs" by (auto simp: floor_inv_def)
  then have "length qs = TREADNUM" by (simp add: workers_ok_def)
  from strike(1) OnTimer_map [OF qs(1) this, of st1 st2] workers_ok_trigger [OF qs(2)] qs show ?case
    by (auto simp: floor_inv_def split: if_splits)
next
  case (work i f q fuel quit sp s)
  then obtain qs where qs: "pquo (win f) = map Some qs" "workers_ok stocks (board (win f)) (spots f) qs" by (auto simp: floor_inv_def)
  have i: "i < TREADNUM" "qs ! i = q" using work qs by (auto simp: workers_ok_def)
  have "step_result (board (win f)) (qs ! i) (spots f ! i) sp s"
    using qs(2) i work(3) by (intro Run_step_ok) (auto simp: workers_ok_def)
  from workers_ok_step [OF qs(2) i(1) this] qs(1) show ?case
    by (auto simp: floor_inv_def after_work_def map_update [symmetric])
qed

lemma floor_run_inv: "floor_run cfg P B es f f' \<Longrightarrow> floor_inv stocks f \<Longrightarrow> floor_inv stocks f'"
  by (induction rule: floor_run.induct) (auto intro: floor_step_inv)

text \<open>The floor as the start of the window leaves it.\<close>

definition open_floor :: "dialog \<Rightarrow> floor" where
  "open_floor d = \<lparr>win = d, spots = replicate TREADNUM Starting, executed = []\<rparr>"

lemma open_floor_inv:
  assumes "pquo d = map Some qs" "length qs = TREADNUM" "list_all2 fresh_worker [0..<length qs] qs" "concat (map stocks_of qs) = stocks"
    "tdx_inv (board d)"
  shows "floor_inv stocks (open_floor d)"
  using assms by (auto simp: floor_inv_def workers_ok_def own_slots_def worker_ok_def open_floor_def list_all2_conv_all_nth fresh_worker_def)

lemma started_floor_inv:
  assumes "redis_up N B env" "list_all (\<lambda>r. 3 \<le> length r) recs" "recs \<noteq> []" "length recs \<le> MAXWATCH"
    "TDXHQ_Init P (Some lines) 0 0 (board d) = (Ret c, b)" "length (IPS (board d)) = 100"
    "OnInitDialog N B P env (Rows recs) st (Some lines) d = (Ret True, d')"
  shows "floor_inv (map stock_of recs) (open_floor d')"
proof -
  from OnInitDialog_spec [OF assms(1,2,4,5), of st] assms(3,7) obtain qs where
    qs: "pquo d' = map Some qs" "length (pquo d') = TREADNUM" "concat (map stocks_of qs) = map stock_of recs"
      "list_all2 fresh_worker [0..<length qs] qs" "board d' = b" by auto
  then show ?thesis using TDXHQ_Init_inv [OF assms(5,6)] by (intro open_floor_inv [of d' qs]) auto
qed

text \<open>
  Property C11. After a start with 1 to 3000 securities, in every state the timer and the workers can reach, in any
  interleaving of strikes and single steps: the 20 workers still hold every watched security exactly once
  and in order; a worker in a round has its flag set and is at a place of its own array; one that fetches
  is on a slot of the table that has a socket; no two workers share a slot unless all 1000 slots have been used up
  (every failed attempt uses one up); the table of the DLL keeps its invariant; and the timer can strike, for all its pointers are set.
\<close>

theorem floor_invariant:
  assumes "redis_up N B env" "list_all (\<lambda>r. 3 \<le> length r) recs" "recs \<noteq> []" "length recs \<le> MAXWATCH"
    "TDXHQ_Init P (Some lines) 0 0 (board d) = (Ret c, b)" "length (IPS (board d)) = 100"
    "OnInitDialog N B P env (Rows recs) st (Some lines) d = (Ret True, d')"
    "floor_run cfg P' B' es (open_floor d') f"
  shows "\<exists>qs. pquo (win f) = map Some qs \<and> workers_ok (map stock_of recs) (board (win f)) (spots f) qs \<and>
    (\<forall>st1 st2. \<exists>d''. OnTimer st1 st2 (win f) = (Ret (), d''))"
proof -
  from floor_run_inv [OF assms(8) started_floor_inv [OF assms(1-7)]] obtain qs where
    "pquo (win f) = map Some qs" "workers_ok (map stock_of recs) (board (win f)) (spots f) qs" by (auto simp: floor_inv_def)
  then show ?thesis using OnTimer_map by (auto simp: workers_ok_def)
qed

text \<open>For concrete runs: a step of a worker whose outcome is known.\<close>

lemma work_runs:
  assumes "i < length (spots f)" "i < length (pquo (win f))" "pquo (win f) ! i = Some q"
    "Run_step cfg P B fuel quit (spots f ! i) \<lparr>worker = q, dll = board (win f), sql = executed f\<rparr> = (Ret sp, s)"
  shows "\<exists>f'. floor_step cfg P B (Work i quit) f f' \<and> spots f' ! i = sp \<and> pquo (win f') ! i = Some (worker s) \<and> board (win f') = dll s \<and>
    preMin (win f') = preMin (win f) \<and> length (spots f') = length (spots f) \<and> length (pquo (win f')) = length (pquo (win f))"
  using floor_step.work [OF assms(1,3,4)] assms(1,2) by (intro exI [of _ "after_work i sp s f"]) (simp add: after_work_def)

lemma floor_run_snoc: "floor_run cfg P B es f f' \<Longrightarrow> floor_step cfg P B e f' f'' \<Longrightarrow> floor_run cfg P B (es @ [e]) f f''"
  by (induction rule: floor_run.induct) (auto intro: floor_run.intros)

lemma strike_runs:
  assumes "floor_inv stocks f" "IsTraderTime st1" "preMin (win f) \<noteq> wMinute st2" "i < TREADNUM" "pquo (win f) ! i = Some q"
  shows "\<exists>f'. floor_step cfg P B (Strike st1 st2) f f' \<and> spots f' = spots f \<and> board (win f') = board (win f) \<and>
    pquo (win f') ! i = Some (q\<lparr>g_bGetQuotation := True\<rparr>) \<and> length (pquo (win f')) = TREADNUM \<and> length (spots f) = TREADNUM"
proof -
  from assms(1) obtain qs where qs: "pquo (win f) = map Some qs" "length qs = TREADNUM" "length (spots f) = TREADNUM"
    by (auto simp: floor_inv_def workers_ok_def)
  from floor_step.strike [of st1 st2 f] OnTimer_map [OF qs(1,2), of st1 st2] assms qs show ?thesis
    by (intro exI [of _ "f\<lparr>win := (win f)\<lparr>preMin := wMinute st2, pquo := map Some (flagged qs)\<rparr>\<rparr>"]) auto
qed

lemma demo_connect: "\<exists>d. TDXHQ_Connect (ready_tdx [7] [True]) = (Ret 0, d)"
  using TDXHQ_Connect_consumes [OF ready_tdx_inv, of "[7]" "[True]" 0 7 "[]" True "[]"]
  by (auto simp: ready_tdx_fields free_slot_replicate seven_valid)

definition demo_events :: "event list" where
  "demo_events = [Work 0 False, Strike (monday 9 26 0) (monday 9 26 0), Work 0 False, Work 0 False, Work 0 False]"

lemma demo_trading: "IsTraderTime (monday 9 26 0)" "wMinute (monday 9 26 0) = 26"
  by (simp_all add: IsTraderTime_def monday_def less_same_day)

lemma demo_floor_run:
  assumes inv: "floor_inv stocks (open_floor d)" and board: "board d = ready_tdx [7] [True]" and preMin: "preMin d = 0"
  shows "\<exists>f. floor_run cfg P B demo_events (open_floor d) f \<and> spots f ! 0 = Fetching 0 \<and> conID (the (pquo (win f) ! 0)) = 0"
proof -
  have n: "0 < TREADNUM" by (simp add: TREADNUM_def)
  let ?f0 = "open_floor d" and ?at = "\<lambda>q f. \<lparr>worker = q, dll = board (win f), sql = executed f\<rparr>" and ?t = "monday 9 26 0"
  from inv obtain qs where qs: "pquo d = map Some qs" "length qs = TREADNUM" by (auto simp: floor_inv_def workers_ok_def open_floor_def)
  let ?q = "InitInstance (qs ! 0)" and ?len = "\<lambda>f. length (pquo (win f)) = TREADNUM \<and> length (spots f) = TREADNUM"
  have f0: "0 < length (spots ?f0)" "0 < length (pquo (win ?f0))" "pquo (win ?f0) ! 0 = Some (qs ! 0)"
    "Run_step cfg P B 0 False (spots ?f0 ! 0) (?at (qs ! 0) ?f0) = (Ret Top, ?at ?q ?f0)" "?len ?f0"
    using qs n by (simp_all add: open_floor_def Run_step_def)
  from work_runs [OF f0(1-4)] f0(5) preMin obtain f1 where
    f1: "floor_step cfg P B (Work 0 False) ?f0 f1" "spots f1 ! 0 = Top" "pquo (win f1) ! 0 = Some ?q" "board (win f1) = board d"
      "preMin (win f1) \<noteq> wMinute ?t" by (auto simp: open_floor_def demo_trading(2))
  from strike_runs [OF floor_step_inv [OF f1(1) inv] demo_trading(1) f1(5) n f1(3), of cfg P B] f1(2,4) obtain f2 where
    f2: "floor_step cfg P B (Strike ?t ?t) f1 f2" "spots f2 ! 0 = Top" "board (win f2) = board d"
      "pquo (win f2) ! 0 = Some (?q\<lparr>g_bGetQuotation := True\<rparr>)" "?len f2" by auto
  let ?q' = "?q\<lparr>g_bGetQuotation := True\<rparr>"
  have "Run_step cfg P B 0 False (spots f2 ! 0) (?at ?q' f2) = (Ret Connecting, ?at ?q' f2)" by (simp add: Run_step_def f2(2))
  from work_runs [OF _ _ f2(4) this] f2(3,5) n obtain f3 where
    f3: "floor_step cfg P B (Work 0 False) f2 f3" "spots f3 ! 0 = Connecting" "board (win f3) = board d"
      "pquo (win f3) ! 0 = Some ?q'" "?len f3" by auto
  from demo_connect obtain d' where "TDXHQ_Connect (board d) = (Ret 0, d')" using board by auto
  then have "Run_step cfg P B 0 False (spots f3 ! 0) (?at ?q' f3) =
      (Ret Connecting, \<lparr>worker = ?q'\<lparr>conID := 0\<rparr>, dll = d', sql = executed f3\<rparr>)"
    by (simp add: Run_step_def f3(2,3) on_dll_def InitInstance_def)
  from work_runs [OF _ _ f3(4) this] f3(5) n obtain f4 where
    f4: "floor_step cfg P B (Work 0 False) f3 f4" "spots f4 ! 0 = Connecting" "pquo (win f4) ! 0 = Some (?q'\<lparr>conID := 0\<rparr>)" "?len f4" by auto
  have "Run_step cfg P B 0 False (spots f4 ! 0) (?at (?q'\<lparr>conID := 0\<rparr>) f4) = (Ret (Fetching 0), ?at (?q'\<lparr>conID := 0\<rparr>) f4)"
    by (simp add: Run_step_def f4(2))
  from work_runs [OF _ _ f4(3) this] f4(4) n obtain f5 where
    "floor_step cfg P B (Work 0 False) f4 f5" "spots f5 ! 0 = Fetching 0" "conID (the (pquo (win f5) ! 0)) = 0" by auto
  with f1(1) f2(1) f3(1) f4(1) show ?thesis unfolding demo_events_def by (blast intro: floor_run.intros)
qed

definition demo_config :: config where
  "demo_config = CConfig \<lparr>GetModuleFileNameA = [], GetPrivateProfileString = (\<lambda>_ _ d _. d), GetPrivateProfileInt = (\<lambda>_ _ d _. d)\<rparr>"

theorem floor_invariant_witness:
  "\<exists>d' f qs. OnInitDialog demo_names std_boost init_platform demo_env (Rows demo_rows) (monday 9 0 0) (Some three_lines) demo_dialog =
       (Ret True, d') \<and> floor_run demo_config demo_platform std_boost demo_events (open_floor d') f \<and> spots f ! 0 = Fetching 0 \<and>
     pquo (win f) = map Some qs \<and> conID (qs ! 0) = 0 \<and> workers_ok (map stock_of demo_rows) (board (win f)) (spots f) qs"
proof -
  from OnInitDialog_spec [OF demo_up demo_start(2,4,1), of "monday 9 0 0"] obtain d' where
    d: "OnInitDialog demo_names std_boost init_platform demo_env (Rows demo_rows) (monday 9 0 0) (Some three_lines) demo_dialog = (Ret True, d')"
      "board d' = ready_tdx [7] [True]" "preMin d' = 0" by (auto simp: monday_def)
  have ips: "length (IPS (board demo_dialog)) = 100" by (simp add: demo_dialog_def fresh_tdx_def)
  from demo_floor_run [OF started_floor_inv [OF demo_up demo_start(2-4,1) ips d(1)] d(2,3)] obtain f where
    f: "floor_run demo_config demo_platform std_boost demo_events (open_floor d') f" "spots f ! 0 = Fetching 0" "conID (the (pquo (win f) ! 0)) = 0"
    by blast
  from floor_invariant [OF demo_up demo_start(2-4,1) ips d(1) f(1)] obtain qs where
    qs: "pquo (win f) = map Some qs" "workers_ok (map stock_of demo_rows) (board (win f)) (spots f) qs" by blast
  then have "conID (qs ! 0) = 0" using f(3) by (simp add: workers_ok_def TREADNUM_def)
  with d(1) f(1,2) qs show ?thesis by blast
qed

section \<open>Triggers during a round\<close>

definition in_round :: "spot \<Rightarrow> bool" where
  "in_round sp = (case sp of Connecting \<Rightarrow> True | Fetching _ \<Rightarrow> True | _ \<Rightarrow> False)"

definition flag_of :: "nat \<Rightarrow> floor \<Rightarrow> bool" where
  "flag_of i f = (case pquo (win f) ! i of None \<Rightarrow> False | Some q \<Rightarrow> g_bGetQuotation q)"

definition settled :: "nat \<Rightarrow> floor \<Rightarrow> bool" where
  "settled i f \<longleftrightarrow> (spots f ! i = Top \<or> spots f ! i = Ended) \<and> \<not> flag_of i f"

text \<open>An event that is not a strike in another minute.\<close>

definition within_minute :: "nat \<Rightarrow> event \<Rightarrow> bool" where
  "within_minute m e = (case e of Strike st1 st2 \<Rightarrow> wMinute st2 = m | Work _ _ \<Rightarrow> True)"

lemma Run_step_round:
  assumes "Run_step cfg P B fuel quit sp s = (Ret sp', s')" "in_round sp"
  shows "in_round sp' \<or> sp' = Top \<and> \<not> g_bGetQuotation (worker s')"
  using assms by (auto simp: Run_step_def in_round_def sq_def elim!: bnd_RetE split: spot.splits if_splits)

lemma Run_step_idle:
  assumes "Run_step cfg P B fuel quit sp s = (Ret sp', s')" "sp = Top \<or> sp = Ended" "\<not> g_bGetQuotation (worker s)"
  shows "(sp' = Top \<or> sp' = Ended) \<and> s' = s"
  using assms by (auto simp: Run_step_def split: if_splits)

lemma quiet_step:
  assumes "floor_step cfg P B e f f'" "within_minute (preMin (win f)) e" "length (pquo (win f)) = length (spots f)"
  shows "preMin (win f') = preMin (win f)" "length (pquo (win f')) = length (spots f')" "length (spots f') = length (spots f)"
    "in_round (spots f ! i) \<Longrightarrow> in_round (spots f' ! i) \<or> settled i f'" "settled i f \<Longrightarrow> settled i f'"
proof -
  have "preMin (win f') = preMin (win f) \<and> length (pquo (win f')) = length (spots f') \<and> length (spots f') = length (spots f) \<and>
    (in_round (spots f ! i) \<longrightarrow> in_round (spots f' ! i) \<or> settled i f') \<and> (settled i f \<longrightarrow> settled i f')"
    using assms
  proof (cases rule: floor_step.cases)
    case (strike st1 st2 d')
    with assms(2) have "d' = win f" by (auto simp: within_minute_def OnTimer_def split: if_splits)
    with strike assms(3) show ?thesis by (auto simp: settled_def flag_of_def)
  next
    case (work j q fuel quit sp s)
    show ?thesis
    proof (cases "j = i")
      case True
      with work assms(3) Run_step_round [OF work(5)] Run_step_idle [OF work(5)] show ?thesis
        by (auto simp: after_work_def settled_def flag_of_def)
    next
      case False
      with work assms(3) show ?thesis by (simp add: after_work_def settled_def flag_of_def)
    qed
  qed
  then show "preMin (win f') = preMin (win f)" "length (pquo (win f')) = length (spots f')" "length (spots f') = length (spots f)"
    "in_round (spots f ! i) \<Longrightarrow> in_round (spots f' ! i) \<or> settled i f'" "settled i f \<Longrightarrow> settled i f'" by auto
qed

lemma quiet_run:
  assumes "floor_run cfg P B es f f'" "list_all (within_minute (preMin (win f))) es" "length (pquo (win f)) = length (spots f)"
  shows "preMin (win f') = preMin (win f) \<and> length (pquo (win f')) = length (spots f') \<and>
    (in_round (spots f ! i) \<longrightarrow> in_round (spots f' ! i) \<or> settled i f') \<and> (settled i f \<longrightarrow> settled i f')"
  using assms
proof (induction rule: floor_run.induct)
  case (more e f f' es f'')
  have e: "within_minute (preMin (win f)) e" using more.prems(1) by simp
  note step = quiet_step [OF more.hyps(1) e more.prems(2)]
  have "list_all (within_minute (preMin (win f'))) es" using more.prems(1) step(1) by simp
  from more.IH [OF this step(2)] step show ?case by auto
qed simp

text \<open>
  Property C36. A trigger that comes while a worker is in its round is lost for that worker: the strike sets
  its flag, but the end of the round clears it, and from then on the worker stays idle, in
  every interleaving with the other workers and with further strikes, until a strike in another minute.
\<close>

theorem trigger_lost_in_round:
  assumes "floor_inv stocks f" "i < TREADNUM" "in_round (spots f ! i)" "IsTraderTime st1" "preMin (win f) \<noteq> wMinute st2"
    "floor_step cfg P B (Strike st1 st2) f f1" "floor_run cfg P B es f1 f2" "spots f2 ! i = Top" "floor_run cfg P B es' f2 f3"
    "list_all (within_minute (wMinute st2)) (es @ es')"
  shows "flag_of i f1 \<and> \<not> flag_of i f2 \<and> (spots f3 ! i = Top \<or> spots f3 ! i = Ended) \<and> \<not> flag_of i f3"
proof -
  from assms(1) obtain qs where qs: "pquo (win f) = map Some qs" "length qs = TREADNUM" "length (spots f) = TREADNUM"
    by (auto simp: floor_inv_def workers_ok_def)
  from assms(6) obtain d where "OnTimer st1 st2 (win f) = (Ret (), d)" "f1 = f\<lparr>win := d\<rparr>" by (rule strikeE) auto
  with OnTimer_map [OF qs(1,2), of st1 st2] assms(4,5) have
    f1: "f1 = f\<lparr>win := (win f)\<lparr>preMin := wMinute st2, pquo := map Some (flagged qs)\<rparr>\<rparr>" by simp
  have one: "list_all (within_minute (preMin (win f1))) es" "length (pquo (win f1)) = length (spots f1)" "in_round (spots f1 ! i)"
    using f1 qs assms(3,10) by simp_all
  from quiet_run [OF assms(7) one(1,2), of i] one(3) assms(8) have
    two: "preMin (win f2) = preMin (win f1)" "length (pquo (win f2)) = length (spots f2)" "settled i f2" by (auto simp: in_round_def)
  have "list_all (within_minute (preMin (win f2))) es'" using two(1) f1 assms(10) by simp
  from quiet_run [OF assms(9) this two(2), of i] two(3) have "settled i f3" by simp
  moreover have "flag_of i f1" using f1 qs assms(2) by (simp add: flag_of_def)
  ultimately show ?thesis using two(3) by (simp add: settled_def)
qed

definition busy_floor :: floor where
  "busy_floor =
     \<lparr>win = demo_dialog\<lparr>pquo := map (\<lambda>i. Some (demo_worker\<lparr>m_dwID := i, conID := int i\<rparr>)) [0..<TREADNUM],
        board := (ready_tdx [] [])\<lparr>skHQ := replicate CONNECTNUM 7\<rparr>\<rparr>,
      spots = replicate TREADNUM (Fetching 0), executed = []\<rparr>"

lemma busy_floor_inv: "floor_inv [] busy_floor"
proof -
  let ?qs = "map (\<lambda>i. demo_worker\<lparr>m_dwID := i, conID := int i\<rparr>) [0..<TREADNUM]"
  have "tdx_inv ((ready_tdx [] [])\<lparr>skHQ := replicate CONNECTNUM 7\<rparr>)" using ready_tdx_inv [of "[]" "[]"] by (simp add: tdx_inv_def)
  then have "workers_ok [] (board (win busy_floor)) (spots busy_floor) ?qs"
    by (simp add: workers_ok_def own_slots_def worker_ok_def slot_ok_def busy_floor_def demo_worker_def stocks_of_def seven_valid
        TREADNUM_def CONNECTNUM_def)
  then show ?thesis unfolding floor_inv_def by (intro exI [of _ ?qs]) (simp add: busy_floor_def)
qed

theorem trigger_lost_in_round_witness:
  "\<exists>f1 f2 f3. floor_step demo_config demo_platform std_boost (Strike (monday 9 26 0) (monday 9 26 0)) busy_floor f1 \<and>
     floor_run demo_config demo_platform std_boost [Work 3 False] f1 f2 \<and>
     floor_run demo_config demo_platform std_boost [Work 3 False] f2 f3 \<and> flag_of 3 f1 \<and> \<not> flag_of 3 f2 \<and> spots f3 ! 3 = Top"
proof -
  let ?t = "monday 9 26 0" and ?q = "demo_worker\<lparr>m_dwID := 3, conID := 3\<rparr>"
  have n: "3 < TREADNUM" by (simp add: TREADNUM_def)
  have pre: "preMin (win busy_floor) \<noteq> wMinute ?t" "pquo (win busy_floor) ! 3 = Some ?q" "spots busy_floor ! 3 = Fetching 0"
    "in_round (spots busy_floor ! 3)" using n by (simp_all add: busy_floor_def demo_dialog_def demo_trading(2) in_round_def)
  from strike_runs [OF busy_floor_inv demo_trading(1) pre(1) n pre(2), of demo_config demo_platform std_boost] pre(3) obtain f1 where
    f1: "floor_step demo_config demo_platform std_boost (Strike ?t ?t) busy_floor f1" "spots f1 ! 3 = Fetching 0"
      "pquo (win f1) ! 3 = Some (?q\<lparr>g_bGetQuotation := True\<rparr>)" "3 < length (pquo (win f1))" "3 < length (spots f1)" using n by auto
  have "Run_step demo_config demo_platform std_boost 0 False (spots f1 ! 3)
      \<lparr>worker = ?q\<lparr>g_bGetQuotation := True\<rparr>, dll = board (win f1), sql = executed f1\<rparr> =
      (Ret Top, \<lparr>worker = ?q\<lparr>g_bGetQuotation := False\<rparr>, dll = board (win f1), sql = executed f1\<rparr>)"
    by (simp add: Run_step_def f1(2) demo_worker_def)
  from work_runs [OF f1(5,4,3) this] f1(4,5) obtain f2 where
    f2: "floor_step demo_config demo_platform std_boost (Work 3 False) f1 f2" "spots f2 ! 3 = Top"
      "pquo (win f2) ! 3 = Some (?q\<lparr>g_bGetQuotation := False\<rparr>)" "3 < length (pquo (win f2))" "3 < length (spots f2)" by auto
  have "Run_step demo_config demo_platform std_boost 0 False (spots f2 ! 3)
      \<lparr>worker = ?q\<lparr>g_bGetQuotation := False\<rparr>, dll = board (win f2), sql = executed f2\<rparr> =
      (Ret Top, \<lparr>worker = ?q\<lparr>g_bGetQuotation := False\<rparr>, dll = board (win f2), sql = executed f2\<rparr>)"
    by (simp add: Run_step_def f2(2))
  from work_runs [OF f2(5,4,3) this] obtain f3 where
    f3: "floor_step demo_config demo_platform std_boost (Work 3 False) f2 f3" "spots f3 ! 3 = Top" by auto
  have runs: "floor_run demo_config demo_platform std_boost [Work 3 False] f1 f2" "floor_run demo_config demo_platform std_boost [Work 3 False] f2 f3"
    using f2(1) f3(1) by (auto intro: floor_run.intros)
  have "list_all (within_minute (wMinute ?t)) ([Work 3 False] @ [Work 3 False])" by (simp add: within_minute_def)
  from trigger_lost_in_round [OF busy_floor_inv n pre(4) demo_trading(1) pre(1) f1(1) runs(1) f2(2) runs(2) this] f1(1) runs f3(2)
  show ?thesis by blast
qed

section \<open>A round that is not disturbed\<close>







end
