(* ===== verification/RedisSets.thy ===== *)
theory RedisSets
  imports RedisEdges
begin

text \<open>
  Commands of the Redis client whose keys may be spread over the servers of the cluster: the
  intersection of sets, the removal of several keys, and the renaming of a key that changes server.
  Each server is asked for its own keys; proved is that the combined answer is the answer for all
  the keys together.
\<close>

section \<open>The keys of each server\<close>

definition server_keys :: "(string \<Rightarrow> int) \<Rightarrow> string list \<Rightarrow> int \<Rightarrow> string list" where
  "server_keys rt keys k = filter (\<lambda>key. rt key = k) keys"

definition key_groups :: "(string \<Rightarrow> int) \<Rightarrow> string list \<Rightarrow> (int \<times> string list) list" where
  "key_groups rt keys = groups rt add_to_vec keys []"

definition per_server :: "(string \<Rightarrow> int) \<Rightarrow> string list \<Rightarrow> (int \<Rightarrow> string) \<Rightarrow> int \<Rightarrow> string" where
  "per_server rt keys f k = (if server_keys rt keys k = [] then [] else f k)"

lemma added_to_vec: "added add_to_vec ks v = (if ks = [] then v else Some ((case v of None \<Rightarrow> [] | Some xs \<Rightarrow> xs) @ ks))"
proof (induction ks arbitrary: v)
  case (Cons k ks)
  from Cons [of "Some (add_to_vec k v)"] show ?case by (simp add: added_def add_to_vec_def)
qed (simp add: added_def)

lemma key_groups_lookup:
  "map_of (key_groups rt keys) k = (if server_keys rt keys k = [] then None else Some (server_keys rt keys k))"
  by (simp add: key_groups_def groups_lookup added_to_vec server_keys_def)

lemma key_groups_distinct: "distinct (map fst (key_groups rt keys))"
  by (simp add: key_groups_def groups_distinct)

lemma key_groups_entry:
  assumes "e \<in> set (key_groups rt keys)"
  shows "snd e = server_keys rt keys (fst e)" "server_keys rt keys (fst e) \<noteq> []"
  using map_of_is_SomeI [OF key_groups_distinct, of "fst e" "snd e" rt keys] assms
  by (auto simp: key_groups_lookup split: if_splits)

lemma key_groups_sockets: "fst ` set (key_groups rt keys) = rt ` set keys"
proof -
  have "k \<in> fst ` set (key_groups rt keys) \<longleftrightarrow> server_keys rt keys k \<noteq> []" for k
    using map_of_eq_None_iff [of "key_groups rt keys" k] by (auto simp: key_groups_lookup split: if_splits)
  then show ?thesis by (auto simp: server_keys_def filter_empty_conv set_eq_iff image_iff simp del: set_map)
qed

lemma mc_vec_cmd: "mc_string (mc_vec (new_makecmd name) ks) = cmd name ks"
  by (simp add: mc_string_def cmd_def)

lemma server_keys_none: "k \<notin> rt ` set keys \<Longrightarrow> server_keys rt keys k = []"
  by (auto simp: server_keys_def filter_empty_conv)

text \<open>The requests of a command that takes a list of keys, one for each server that has some of them.\<close>

lemma send_per_server:
  assumes "ready s"
  shows "\<exists>s'. for_each (\<lambda>(sk, ks). send sk (mc_string (mc_vec (new_makecmd name) ks))) (key_groups rt keys) s = (Ret (), s') \<and>
    moves s s' (\<lambda>k. outq s k @ per_server rt keys (\<lambda>k. cmd name (server_keys rt keys k)) k) (inq s)"
proof -
  have "(case map_of (key_groups rt keys) k of None \<Rightarrow> [] | Some ks \<Rightarrow> mc_string (mc_vec (new_makecmd name) ks)) =
      per_server rt keys (\<lambda>k. cmd name (server_keys rt keys k)) k" for k
    by (simp add: key_groups_lookup per_server_def mc_vec_cmd)
  with for_each_send [OF assms key_groups_distinct, of "\<lambda>ks. mc_string (mc_vec (new_makecmd name) ks)" rt keys]
  show ?thesis by simp
qed

text \<open>One reply from each of these servers.\<close>

context wire_value
begin

lemma fold_servers:
  assumes "connected s" "rt = route B (connections s)" "\<forall>k\<in>rt ` set keys. ok (x k)"
    "inq s = (\<lambda>k. per_server rt keys (\<lambda>k. render (x k)) k @ rest k)"
    "\<And>e b t. h e (val (x (fst e))) b t = (Ret (g e b), t)"
  shows "\<exists>s'. fold_io (\<lambda>e b. bnd (on_net (recv (fst e))) (\<lambda>a. h e a b)) (key_groups rt keys) b s =
      (Ret (foldl (\<lambda>b e. g e b) b (key_groups rt keys)), s') \<and> moves s s' (outq s) rest"
proof (rule fold_sockets)
  show "ready s" using assms(1) by (simp add: connected_def)
  show "\<forall>e\<in>set (key_groups rt keys). 0 < fst e \<and> ok (x (fst e)) \<and> inq s (fst e) = render (x (fst e)) @ rest (fst e)"
  proof
    fix e assume e: "e \<in> set (key_groups rt keys)"
    then have "fst e \<in> rt ` set keys" using key_groups_sockets [of rt keys] by blast
    with e assms(2-4) route_pos [OF assms(1)] show
      "0 < fst e \<and> ok (x (fst e)) \<and> inq s (fst e) = render (x (fst e)) @ rest (fst e)"
      by (auto simp: per_server_def key_groups_entry)
  qed
  show "\<forall>k. k \<notin> fst ` set (key_groups rt keys) \<longrightarrow> inq s k = rest k"
    by (simp add: key_groups_sockets assms(4) per_server_def server_keys_none)
qed (simp_all add: key_groups_distinct assms(5))

end

section \<open>Intersection of sets on several servers\<close>

definition meet :: "(int \<Rightarrow> string list) \<Rightarrow> int \<times> string list \<Rightarrow> nat \<times> string list \<Rightarrow> nat \<times> string list" where
  "meet xs e b = (fst b + 1, if 0 < fst b then set_intersection (snd b) (string_set (xs (fst e))) else string_set (xs (fst e)))"

lemma foldl_meet_pos:
  "0 < i \<Longrightarrow> snd (foldl (\<lambda>b e. meet xs e b) (i, out) m) = filter (\<lambda>x. \<forall>e\<in>set m. x \<in> set (xs (fst e))) out"
  by (induction m arbitrary: i out) (auto simp: meet_def set_intersection_def string_set(3) intro!: filter_cong)

lemma foldl_meet:
  assumes "m \<noteq> []" "ys = snd (foldl (\<lambda>b e. meet xs e b) (0, out) m)"
  shows "set ys = (\<Inter>e\<in>set m. set (xs (fst e)))" "sorted ys" "distinct ys"
proof -
  obtain e m' where m: "m = e # m'" using assms(1) by (cases m) auto
  have "ys = filter (\<lambda>x. \<forall>e\<in>set m'. x \<in> set (xs (fst e))) (string_set (xs (fst e)))"
    using foldl_meet_pos [of 1 xs "string_set (xs (fst e))" m'] assms(2) m by (simp add: meet_def)
  then show "set ys = (\<Inter>e\<in>set m. set (xs (fst e)))" "sorted ys" "distinct ys"
    using string_set [of "xs (fst e)"] m by (auto simp: sorted_wrt_filter)
qed

lemma Inter_key_groups:
  assumes "\<forall>k\<in>rt ` set keys. set (xs k) = (\<Inter>key\<in>set (server_keys rt keys k). members key)"
  shows "(\<Inter>e\<in>set (key_groups rt keys). set (xs (fst e))) = (\<Inter>key\<in>set keys. members key)"
proof -
  have "(\<Inter>e\<in>set (key_groups rt keys). set (xs (fst e))) = (\<Inter>k\<in>rt ` set keys. set (xs k))"
    unfolding key_groups_sockets [symmetric] by auto
  also have "\<dots> = (\<Inter>k\<in>rt ` set keys. \<Inter>key\<in>set (server_keys rt keys k). members key)"
    using assms by auto
  also have "\<dots> = (\<Inter>key\<in>set keys. members key)" by (auto simp: server_keys_def)
  finally show ?thesis .
qed

text \<open>
  Property C18. \<^verbatim>\<open>sinter\<close> over the cluster: the keys may live on different servers. Every server that
  holds some of them is sent one \<^verbatim>\<open>SINTER\<close> of these, and when each answers with the intersection of its
  own sets, in any order, the result is the intersection of the sets of all the keys, in order,
  each element once, with its size; whatever \<^verbatim>\<open>out\<close> held before is gone.
\<close>

theorem client_sinter_intersection:
  assumes "connected s" "boost_ok B" "keys \<noteq> []" "rt = route B (connections s)"
    "\<forall>k\<in>rt ` set keys. multi_ok (xs k) \<and> set (xs k) = (\<Inter>key\<in>set (server_keys rt keys k). members key)"
    "inq s = (\<lambda>k. per_server rt keys (\<lambda>k. multi_bulk (xs k)) k @ rest k)"
  shows "\<exists>ys s'. client_sinter B keys out s = (Ret (int (length ys), ys), s') \<and>
    set ys = (\<Inter>key\<in>set keys. members key) \<and> sorted ys \<and> distinct ys \<and> connections s' = connections s \<and> inq s' = rest \<and>
    outq s' = (\<lambda>k. outq s k @ per_server rt keys (\<lambda>k. cmd ''SINTER'' (server_keys rt keys k)) k)"
proof -
  let ?m = "key_groups rt keys"
  let ?h = "\<lambda>e a b. ret (fst b + 1, if 0 < fst b then set_intersection (snd b) (snd a) else snd a)"
  let ?ys = "snd (foldl (\<lambda>b e. meet xs e b) (0, out) ?m)"
  have con: "connections s \<noteq> []" "ready s" using assms(1) by (auto simp: connected_def)
  from send_per_server [OF con(2), of "''SINTER''" rt keys] obtain t where
    t: "for_each (\<lambda>(sk, ks). send sk (mc_string (mc_vec (new_makecmd ''SINTER'') ks))) ?m s = (Ret (), t)"
      "moves s t (\<lambda>k. outq s k @ per_server rt keys (\<lambda>k. cmd ''SINTER'' (server_keys rt keys k)) k) (inq s)" by blast
  have q: "rt = route B (connections t)" "inq t = (\<lambda>k. per_server rt keys (\<lambda>k. multi_bulk (xs k)) k @ rest k)"
    using movesD(2,4) [OF t(2)] assms(4,6) by simp_all
  have ok: "\<forall>k\<in>rt ` set keys. boost_ok B \<and> multi_ok (xs k)" using assms(2,5) by blast
  have "?h e (int (length (xs (fst e))), string_set (xs (fst e))) b t = (Ret (meet xs e b), t)" for e b t
    by (simp add: meet_def)
  from set_r.fold_servers [where h = ?h, OF connected_moves [OF assms(1) t(2)] q(1) ok q(2) this, of "(0, out)"] obtain u where
    u: "fold_io (\<lambda>e b. bnd (on_net (recv_multi_bulk_reply_set B (fst e) [])) (\<lambda>a. ?h e a b)) ?m (0, out) t =
        (Ret (foldl (\<lambda>b e. meet xs e b) (0, out) ?m), u)" "moves t u (outq t) rest" by blast
  have "client_sinter B keys out s = (Ret (int (length ?ys), ?ys), u)"
    using t(1) u(1) assms(4) group_by_socket_law [OF con(1), of B "\<lambda>k. k" add_to_vec keys]
    by (simp add: client_sinter_def key_groups_def case_prod_unfold)
  moreover have "?m \<noteq> []" using key_groups_sockets [of rt keys] assms(3) by auto
  ultimately show ?thesis
    using foldl_meet [OF _ refl, of ?m xs out] Inter_key_groups [of rt keys xs members] assms(5)
      movesD [OF t(2)] movesD [OF u(2)] by auto
qed

theorem client_sinter_intersection_witness:
  "\<exists>ys s'. client_sinter std_boost [''ab'', ''x''] [''old'']
      (demo_client (per_server (route std_boost two_servers) [''ab'', ''x'']
        (\<lambda>k. multi_bulk (if k = 3 then [''q'', ''p''] else [''r'', ''q''])))) = (Ret (int (length ys), ys), s') \<and>
    set ys = {''q''}"
proof -
  let ?rt = "route std_boost two_servers" and ?xs = "\<lambda>k::int. if k = 3 then [''q'', ''p''] else [''r'', ''q'']"
  let ?members = "\<lambda>key. if key = ''ab'' then {''q'', ''p''} else {''r'', ''q''}"
  let ?s = "demo_client (per_server ?rt [''ab'', ''x''] (\<lambda>k. multi_bulk (?xs k)))"
  have rt: "?rt ''ab'' = 3" "?rt ''x'' = 4" by (simp_all add: route_def two_servers_def new_connection_data_def)
  have ok: "\<forall>k\<in>?rt ` set [''ab'', ''x'']. multi_ok (?xs k) \<and> set (?xs k) = (\<Inter>key\<in>set (server_keys ?rt [''ab'', ''x''] k). ?members key)"
    using rt by (auto simp: server_keys_def multi_ok_def bulk_ok_def)
  have s: "inq ?s = (\<lambda>k. per_server ?rt [''ab'', ''x''] (\<lambda>k. multi_bulk (?xs k)) k @ [])"
    "?rt = route std_boost (connections ?s)" "[''ab'', ''x''] \<noteq> []" by simp_all
  from client_sinter_intersection [OF demo_client(4) std_boost_ok s(3,2) ok s(1), of "[''old'']"] obtain ys s'
    where ys: "client_sinter std_boost [''ab'', ''x''] [''old''] ?s = (Ret (int (length ys), ys), s')"
      "set ys = (\<Inter>key\<in>set [''ab'', ''x'']. ?members key)" by blast
  have "(\<Inter>key\<in>set [''ab'', ''x'']. ?members key) = {''q''}" by auto
  with ys(2) have "set ys = {''q''}" by (rule trans)
  with ys(1) show ?thesis by (intro exI conjI)
qed

section \<open>Removing several keys\<close>

lemma wrap_long_add: "wrap_long (wrap_long a + b) = wrap_long (a + b)"
proof -
  have "(wrap_long a + b + 2 ^ 31) mod 2 ^ 32 = ((a + 2 ^ 31) mod 2 ^ 32 + b) mod 2 ^ 32"
    by (simp add: wrap_long_def)
  also have "\<dots> = (a + b + 2 ^ 31) mod 2 ^ 32" by (simp add: mod_simps ac_simps)
  finally show ?thesis by (simp add: wrap_long_def)
qed

lemma foldl_wrap_long: "foldl (\<lambda>b e. wrap_long (b + n e)) (wrap_long a) m = wrap_long (a + sum_list (map n m))"
  by (induction m arbitrary: a) (simp_all add: wrap_long_add add.assoc)

lemma fold_io_map: "fold_io f (map g xs) b = fold_io (\<lambda>x. f (g x)) xs b"
  by (induction xs arbitrary: b) (simp_all add: bnd_def fun_eq_iff split: prod.splits res.splits)

text \<open>What a server answers to \<^verbatim>\<open>DEL\<close>: how many of the keys it had.\<close>

definition removed :: "string set \<Rightarrow> string list \<Rightarrow> nat" where
  "removed present ks = card (present \<inter> set ks)"

lemma removed_per_server:
  "sum_list (map (\<lambda>e. int (removed present (server_keys rt keys (fst e)))) (key_groups rt keys)) = int (removed present keys)"
proof -
  have "sum_list (map (\<lambda>e. int (removed present (server_keys rt keys (fst e)))) (key_groups rt keys)) =
      sum_list (map (\<lambda>k. int (removed present (server_keys rt keys k))) (map fst (key_groups rt keys)))"
    by (simp add: comp_def)
  also have "\<dots> = (\<Sum>k\<in>rt ` set keys. int (card {key \<in> present \<inter> set keys. rt key = k}))"
    unfolding sum_list_distinct_conv_sum_set [OF key_groups_distinct]
    by (auto simp: key_groups_sockets removed_def server_keys_def intro!: sum.cong arg_cong [where f = card])
  also have "\<dots> = int (card (present \<inter> set keys))"
    using sum.group [of "present \<inter> set keys" "rt ` set keys" rt "\<lambda>_. 1::int"] by (simp add: image_mono)
  finally show ?thesis by (simp add: removed_def)
qed

text \<open>
  Property C22. \<^verbatim>\<open>del\<close> of a list of keys over the cluster: every server is asked to remove its own keys,
  in one request, and when each answers how many of them it had, the result is true exactly when at
  least one of the keys existed. The sum of the counts cannot wrap around to 0.
\<close>

theorem client_del_range_removed:
  assumes "connected s" "boost_ok B" "int (length keys) < 2 ^ 31" "rt = route B (connections s)"
    "inq s = (\<lambda>k. per_server rt keys (\<lambda>k. int_line (int (removed present (server_keys rt keys k)))) k @ rest k)"
  shows "\<exists>s'. client_del_range B keys s = (Ret (\<exists>key\<in>set keys. key \<in> present), s') \<and>
    connections s' = connections s \<and> inq s' = rest \<and>
    outq s' = (\<lambda>k. outq s k @ per_server rt keys (\<lambda>k. cmd ''DEL'' (server_keys rt keys k)) k)"
proof -
  let ?m = "key_groups rt keys" and ?n = "\<lambda>k. int (removed present (server_keys rt keys k))"
  have con: "connections s \<noteq> []" "ready s" using assms(1) by (auto simp: connected_def)
  from send_per_server [OF con(2), of "''DEL''" rt keys] obtain t where
    t: "for_each (\<lambda>(sk, ks). send sk (mc_string (mc_vec (new_makecmd ''DEL'') ks))) ?m s = (Ret (), t)"
      "moves s t (\<lambda>k. outq s k @ per_server rt keys (\<lambda>k. cmd ''DEL'' (server_keys rt keys k)) k) (inq s)" by blast
  have q: "rt = route B (connections t)" "inq t = (\<lambda>k. per_server rt keys (\<lambda>k. int_line (?n k)) k @ rest k)"
    using movesD(2,4) [OF t(2)] assms(4,5) by simp_all
  have small: "removed present ks \<le> length ks" for ks
    unfolding removed_def by (rule order_trans [OF card_mono card_length]) auto
  have long: "long_range (int (removed present ks))" if "length ks \<le> length keys" for ks
    using small [of ks] that assms(3) by (simp add: long_range_def)
  have "length (server_keys rt keys k) \<le> length keys" for k by (simp add: server_keys_def)
  then have ok: "\<forall>k\<in>rt ` set keys. boost_ok B \<and> long_range (?n k)" using long assms(2) by blast
  have "ret (wrap_long (b + ?n (fst e))) t = (Ret (wrap_long (b + ?n (fst e))), t)" for e :: "int \<times> string list" and b t by simp
  from int_r.fold_servers [where h = "\<lambda>e a b. ret (wrap_long (b + a))", OF connected_moves [OF assms(1) t(2)] q(1) ok q(2) this, of 0]
  obtain u where
    u: "fold_io (\<lambda>e b. bnd (on_net (recv_int_reply B (fst e))) (\<lambda>a. ret (wrap_long (b + a)))) ?m 0 t =
        (Ret (foldl (\<lambda>b e. wrap_long (b + ?n (fst e))) 0 ?m), u)" "moves t u (outq t) rest" by blast
  have "foldl (\<lambda>b e. wrap_long (b + ?n (fst e))) 0 ?m = int (removed present keys)"
    using foldl_wrap_long [of "\<lambda>e. ?n (fst e)" 0 ?m] wrap_long_id [OF long, of keys] wrap_long_id [of 0]
    by (simp add: removed_per_server long_range_def)
  then have "client_del_range B keys s = (Ret (removed present keys \<noteq> 0), u)"
    using t(1) u(1) assms(4) group_by_socket_law [OF con(1), of B "\<lambda>k. k" add_to_vec keys]
    by (simp add: client_del_range_def sum_replies_def key_groups_def fold_io_map)
  moreover have "removed present keys \<noteq> 0 \<longleftrightarrow> (\<exists>key\<in>set keys. key \<in> present)" by (auto simp: removed_def)
  ultimately show ?thesis using movesD [OF t(2)] movesD [OF u(2)] by auto
qed

theorem client_del_range_removed_witness:
  "\<exists>s'. client_del_range std_boost [''ab'', ''x'', ''ab'']
      (demo_client (per_server (route std_boost two_servers) [''ab'', ''x'', ''ab'']
        (\<lambda>k. int_line (int (removed {''ab''} (server_keys (route std_boost two_servers) [''ab'', ''x'', ''ab''] k)))))) =
    (Ret (\<exists>key\<in>set [''ab'', ''x'', ''ab'']. key \<in> {''ab''}), s')"
proof -
  let ?rt = "route std_boost two_servers" and ?keys = "[''ab'', ''x'', ''ab'']"
  let ?s = "demo_client (per_server ?rt ?keys (\<lambda>k. int_line (int (removed {''ab''} (server_keys ?rt ?keys k)))))"
  have "inq ?s = (\<lambda>k. per_server ?rt ?keys (\<lambda>k. int_line (int (removed {''ab''} (server_keys ?rt ?keys k)))) k @ [])"
    "?rt = route std_boost (connections ?s)" "int (length ?keys) < 2 ^ 31" by simp_all
  from client_del_range_removed [OF demo_client(4) std_boost_ok this(3,2,1)] show ?thesis by blast
qed

section \<open>Renaming across servers\<close>

text \<open>The questions for type and value of a string, on the server of the old name.\<close>

lemma client_rename_reads:
  assumes "connected s" "boost_ok B" "src = route B (connections s) old" "route B (connections s) new \<noteq> src"
    "opt_ok v" "inq s src = status_line ''string'' @ opt_bulk v @ r"
  shows "\<exists>t. client_rename B old new s = sq (client_set B new (opt_value v)) (sq (client_del B old) (ret ())) t \<and>
    moves s t ((outq s)(src := outq s src @ cmd ''TYPE'' [old] @ cmd ''GET'' [old])) ((inq s)(src := r))"
proof -
  have socks: "get_socket B old s = (Ret src, s)" "get_socket B new s = (Ret (route B (connections s) new), s)"
    using assms(1,3) get_socket_route by (auto simp: connected_def)
  have "line_ok ''string''" by (simp add: line_ok_def)
  from status_r.on_key_law [OF assms(1) this assms(3,6), of "cmd ''TYPE'' [old]"] obtain t1 where
    t1: "on_key B old (cmd ''TYPE'' [old]) recv_single_line_reply s = (Ret ''string'', t1)"
      "moves s t1 ((outq s)(src := outq s src @ cmd ''TYPE'' [old])) ((inq s)(src := opt_bulk v @ r))" by blast
  have c1: "connected t1" "inq t1 src = opt_bulk v @ r" "src = route B (connections t1) old" "boost_ok B \<and> opt_ok v"
    using connected_moves [OF assms(1) t1(2)] movesD [OF t1(2)] assms(2,3,5) by simp_all
  from opt_r.on_key_law [OF c1(1) c1(4,3,2), of "cmd ''GET'' [old]"] obtain t2 where
    t2: "client_get B old t1 = (Ret (opt_value v), t2)"
      "moves t1 t2 ((outq t1)(src := outq t1 src @ cmd ''GET'' [old])) ((inq t1)(src := r))"
    unfolding client_get_def by blast
  have "moves s t2 ((outq s)(src := outq s src @ cmd ''TYPE'' [old] @ cmd ''GET'' [old])) ((inq s)(src := r))"
    using moves_trans [OF t1(2) t2(2)] movesD(3,4) [OF t1(2)] by simp
  moreover have "client_rename B old new s = sq (client_set B new (opt_value v)) (sq (client_del B old) (ret ())) t2"
    using socks t1(1) t2(1) assms(4) by (simp add: client_rename_def client_type_def type_of_name_def sq_def bnd_def)
  ultimately show ?thesis by blast
qed

text \<open>
  Property C19. \<^verbatim>\<open>rename\<close> of a string whose new name lives on another server: the value is read from
  the old server, stored under the new name on the other one, and only after that server has
  confirmed it is the old key removed. When the new server refuses the value, the exception leaves
  the old key in place: its server has been sent nothing but the questions for type and value. A key
  that is gone when its value is asked for is not noticed: the marker \<open>missing_value\<close> is stored.
\<close>

theorem client_rename_moves_string:
  assumes "connected s" "boost_ok B" "src = route B (connections s) old" "dst = route B (connections s) new" "src \<noteq> dst"
    "opt_ok v" "long_range n" "inq s src = status_line ''string'' @ opt_bulk v @ (if accepted then int_line n @ rest else rest)"
    "inq s dst = (if accepted then status_line ''OK'' else ERR @ reason @ LBR) @ rest'" "line_ok reason" "reason \<noteq> []"
  shows "\<exists>s'. client_rename B old new s = (if accepted then Ret () else Throw (protocol_error reason), s') \<and>
    inq s' = (inq s)(src := rest, dst := rest') \<and>
    outq s' = (outq s)(src := outq s src @ cmd ''TYPE'' [old] @ cmd ''GET'' [old] @ (if accepted then cmd ''DEL'' [old] else []),
                       dst := outq s dst @ cmd ''SET'' [new, opt_value v])"
proof -
  let ?r = "if accepted then int_line n @ rest else rest"
  have "route B (connections s) new \<noteq> src" using assms(4,5) by simp
  from client_rename_reads [OF assms(1-3) this assms(6,8)] obtain t where
    run: "client_rename B old new s = sq (client_set B new (opt_value v)) (sq (client_del B old) (ret ())) t"
    and t: "moves s t ((outq s)(src := outq s src @ cmd ''TYPE'' [old] @ cmd ''GET'' [old])) ((inq s)(src := ?r))" by blast
  have c: "connected t" "dst = route B (connections t) new" "src = route B (connections t) old"
    "inq t dst = inq s dst" "inq t src = ?r"
    using connected_moves [OF assms(1) t] movesD [OF t] assms(3-5) by simp_all
  show ?thesis
  proof (cases accepted)
    case True
    from ok_r.on_key_law [OF c(1) TrueI c(2), of rest' "cmd ''SET'' [new, opt_value v]"] c(4) assms(9) True obtain t3 where
      t3: "client_set B new (opt_value v) t = (Ret (), t3)"
        "moves t t3 ((outq t)(dst := outq t dst @ cmd ''SET'' [new, opt_value v])) ((inq t)(dst := rest'))"
      by (auto simp: client_set_def)
    have c3: "connected t3" "src = route B (connections t3) old" "inq t3 src = int_line n @ rest"
      using connected_moves [OF c(1) t3(2)] movesD [OF t3(2)] c(3,5) assms(5) True by simp_all
    from int_r.on_key_law [OF c3(1) _ c3(2,3), of B "cmd ''DEL'' [old]"] assms(2,7) obtain b t4 where
      t4: "client_del B old t3 = (Ret b, t4)" "moves t3 t4 ((outq t3)(src := outq t3 src @ cmd ''DEL'' [old])) ((inq t3)(src := rest))"
      by (auto simp: client_del_def)
    have "client_rename B old new s = (Ret (), t4)" unfolding run using t3(1) t4(1) by (simp add: sq_def bnd_def)
    with True assms(5) movesD [OF t] movesD [OF t3(2)] movesD [OF t4(2)] show ?thesis by (auto simp: fun_eq_iff)
  next
    case False
    from client_set_refused [OF c(1) assms(10) c(2), of rest' "opt_value v"] c(4) assms(9,11) False obtain t3 where
      t3: "client_set B new (opt_value v) t = (Throw (protocol_error reason), t3)"
        "moves t t3 ((outq t)(dst := outq t dst @ cmd ''SET'' [new, opt_value v])) ((inq t)(dst := rest'))" by auto
    then have "client_rename B old new s = (Throw (protocol_error reason), t3)" unfolding run by (simp add: sq_def bnd_def)
    with False assms(5) movesD [OF t] movesD [OF t3(2)] show ?thesis by (auto simp: fun_eq_iff)
  qed
qed

theorem client_rename_moves_string_witness:
  "\<exists>s'. client_rename std_boost ''ab'' ''x''
      (demo_client (\<lambda>k. if k = 3 then status_line ''string'' @ opt_bulk (Some ''v'') @ int_line 1 else status_line ''OK'')) = (Ret (), s') \<and>
    outq s' 4 = cmd ''SET'' [''x'', ''v'']"
proof -
  let ?s = "demo_client (\<lambda>k. if k = 3 then status_line ''string'' @ opt_bulk (Some ''v'') @ int_line 1 else status_line ''OK'')"
  have rt: "3 = route std_boost (connections ?s) ''ab''" "4 = route std_boost (connections ?s) ''x''" "(3::int) \<noteq> 4"
    by (simp_all add: route_def two_servers_def new_connection_data_def)
  have ok: "opt_ok (Some ''v'')" "long_range 1" "line_ok ''readonly''" "''readonly'' \<noteq> []"
    by (simp_all add: opt_ok_def bulk_ok_def long_range_def line_ok_def)
  have q: "inq ?s 3 = status_line ''string'' @ opt_bulk (Some ''v'') @ (if True then int_line 1 @ [] else [])"
    "inq ?s 4 = (if True then status_line ''OK'' else ERR @ ''readonly'' @ LBR) @ []" by simp_all
  from client_rename_moves_string [OF demo_client(4) std_boost_ok rt ok(1,2) q ok(3,4)] show ?thesis
    by (auto simp: opt_value_def)
qed

end
