(* ===== verification/ClusterOps.thy ===== *)
theory ClusterOps
  imports RedisCorrect
begin

text \<open>
  A client of a cluster, seen by its callers: every call concerns one key, sends one request to the
  server of that key and makes its result of the reply. What the calls mean is specified on the
  entry of the key alone. Proved here, once for all sets of calls: against servers that answer as
  specified, any sequence of calls by any number of clients on any number of servers gives what the
  specification gives on one map, exceptions included, and the servers end up holding that map between
  them. The calls of a history are in the order in which the servers serve them, so clients that run
  beside each other are covered: each interleaving of their calls is a history.
\<close>

section \<open>Calls and servers\<close>

text \<open>
  A set of calls: the key and the words of the request, the code that runs, the specification on the
  entry of the key, the texts the server may answer with, when its behaviour is documented, and when
  moreover the client can take the answer.
\<close>

record ('op, 'v, 'a) api =
  api_key :: "'op \<Rightarrow> string"
  api_words :: "'op \<Rightarrow> string list"
  api_run :: "boost \<Rightarrow> 'op \<Rightarrow> 'a rio"
  api_spec :: "'op \<Rightarrow> 'v option \<Rightarrow> 'a res \<times> 'v option"
  api_reply :: "'op \<Rightarrow> 'v option \<Rightarrow> string \<Rightarrow> bool"
  api_valid :: "'op \<Rightarrow> 'v option \<Rightarrow> bool"
  api_ok :: "'op \<Rightarrow> 'v option \<Rightarrow> bool"

definition api_request :: "('op, 'v, 'a) api \<Rightarrow> 'op \<Rightarrow> string" where
  "api_request A p = cmd (hd (api_words A p)) (tl (api_words A p))"

text \<open>A caller that makes one call after the other and notes every result, exceptions too.\<close>

fun attempts :: "('op \<Rightarrow> 'a rio) \<Rightarrow> 'op list \<Rightarrow> redis \<Rightarrow> 'a res list \<times> redis" where
  "attempts run [] s = ([], s)"
| "attempts run (p # ps) s = (case run p s of (r, s') \<Rightarrow> case attempts run ps s' of (rs, s'') \<Rightarrow> (r # rs, s''))"

text \<open>The specification of a sequence of calls: one map.\<close>

definition api_step :: "('op, 'v, 'a) api \<Rightarrow> 'op \<Rightarrow> (string \<rightharpoonup> 'v) \<Rightarrow> string \<rightharpoonup> 'v" where
  "api_step A p m = m(api_key A p := snd (api_spec A p (m (api_key A p))))"

fun spec_results :: "('op, 'v, 'a) api \<Rightarrow> 'op list \<Rightarrow> (string \<rightharpoonup> 'v) \<Rightarrow> 'a res list" where
  "spec_results A [] m = []"
| "spec_results A (p # ps) m = fst (api_spec A p (m (api_key A p))) # spec_results A ps (api_step A p m)"

fun spec_map :: "('op, 'v, 'a) api \<Rightarrow> 'op list \<Rightarrow> (string \<rightharpoonup> 'v) \<Rightarrow> string \<rightharpoonup> 'v" where
  "spec_map A [] m = m"
| "spec_map A (p # ps) m = spec_map A ps (api_step A p m)"

fun calls_ok :: "('op, 'v, 'a) api \<Rightarrow> 'op list \<Rightarrow> (string \<rightharpoonup> 'v) \<Rightarrow> bool" where
  "calls_ok A [] m \<longleftrightarrow> True"
| "calls_ok A (p # ps) m \<longleftrightarrow> api_ok A p (m (api_key A p)) \<and> calls_ok A ps (api_step A p m)"

text \<open>
  A server with states and answers of its own, whose state \<open>holds\<close> a map: it answers every request
  whose behaviour is documented with one of the texts for it and then holds what the specification says.
\<close>

definition serves :: "('op, 'v, 'a) api \<Rightarrow> ('st \<Rightarrow> string list \<Rightarrow> string \<times> 'st) \<Rightarrow> ('st \<Rightarrow> string \<rightharpoonup> 'v) \<Rightarrow> bool" where
  "serves A answer holds \<longleftrightarrow>
     (\<forall>st p. api_valid A p (holds st (api_key A p)) \<longrightarrow>
        api_reply A p (holds st (api_key A p)) (fst (answer st (api_words A p))) \<and>
        holds (snd (answer st (api_words A p))) = api_step A p (holds st))"

text \<open>What the servers answer, and the states they are in afterwards, when each call goes to the server of its key.\<close>

definition server_step :: "('op, 'v, 'a) api \<Rightarrow> ('st \<Rightarrow> string list \<Rightarrow> string \<times> 'st) \<Rightarrow> (string \<Rightarrow> 'n) \<Rightarrow> 'op \<Rightarrow>
    ('n \<Rightarrow> 'st) \<Rightarrow> 'n \<Rightarrow> 'st" where
  "server_step A answer rt p sts =
     (let k = rt (api_key A p) in sts(k := snd (answer (sts k) (api_words A p))))"

fun answers_of :: "('op, 'v, 'a) api \<Rightarrow> ('st \<Rightarrow> string list \<Rightarrow> string \<times> 'st) \<Rightarrow> (string \<Rightarrow> int) \<Rightarrow> 'op list \<Rightarrow>
    (int \<Rightarrow> 'st) \<Rightarrow> int \<Rightarrow> string" where
  "answers_of A answer rt [] sts g = []"
| "answers_of A answer rt (p # ps) sts g =
     (if g = rt (api_key A p) then fst (answer (sts g) (api_words A p)) else []) @
     answers_of A answer rt ps (server_step A answer rt p sts) g"

fun states_after :: "('op, 'v, 'a) api \<Rightarrow> ('st \<Rightarrow> string list \<Rightarrow> string \<times> 'st) \<Rightarrow> (string \<Rightarrow> 'n) \<Rightarrow> 'op list \<Rightarrow>
    ('n \<Rightarrow> 'st) \<Rightarrow> 'n \<Rightarrow> 'st" where
  "states_after A answer rt [] sts = sts"
| "states_after A answer rt (p # ps) sts = states_after A answer rt ps (server_step A answer rt p sts)"

definition cluster_map :: "('st \<Rightarrow> string \<rightharpoonup> 'v) \<Rightarrow> (string \<Rightarrow> 'n) \<Rightarrow> ('n \<Rightarrow> 'st) \<Rightarrow> string \<rightharpoonup> 'v" where
  "cluster_map holds rt sts = (\<lambda>key. holds (sts (rt key)) key)"

definition sent_to :: "('op, 'v, 'a) api \<Rightarrow> (string \<Rightarrow> int) \<Rightarrow> 'op list \<Rightarrow> int \<Rightarrow> string" where
  "sent_to A rt ps k = concat (map (api_request A) (filter (\<lambda>p. rt (api_key A p) = k) ps))"

text \<open>
  Clients that share the servers. A history is the calls with their clients, in the order in which they
  are served; \<open>srv\<close> tells the server of a key, the same for all clients, \<open>rt c\<close> the socket that client
  \<open>c\<close> uses for the key. A client receives the answers to its own calls.
\<close>

fun shared_attempts :: "('op \<Rightarrow> 'a rio) \<Rightarrow> ('c \<times> 'op) list \<Rightarrow> ('c \<Rightarrow> redis) \<Rightarrow> 'a res list \<times> ('c \<Rightarrow> redis)" where
  "shared_attempts run [] cl = ([], cl)"
| "shared_attempts run ((c, p) # h) cl =
     (case run p (cl c) of (r, s') \<Rightarrow> case shared_attempts run h (cl(c := s')) of (rs, cl') \<Rightarrow> (r # rs, cl'))"

fun shared_answers :: "('op, 'v, 'a) api \<Rightarrow> ('st \<Rightarrow> string list \<Rightarrow> string \<times> 'st) \<Rightarrow> (string \<Rightarrow> 'n) \<Rightarrow> ('c \<Rightarrow> string \<Rightarrow> int) \<Rightarrow>
    ('c \<times> 'op) list \<Rightarrow> ('n \<Rightarrow> 'st) \<Rightarrow> 'c \<Rightarrow> int \<Rightarrow> string" where
  "shared_answers A answer srv rt [] sts c k = []"
| "shared_answers A answer srv rt ((d, p) # h) sts c k =
     (if d = c \<and> k = rt c (api_key A p) then fst (answer (sts (srv (api_key A p))) (api_words A p)) else []) @
     shared_answers A answer srv rt h (server_step A answer srv p sts) c k"

definition clients_ready :: "('op, 'v, 'a) api \<Rightarrow> ('st \<Rightarrow> string list \<Rightarrow> string \<times> 'st) \<Rightarrow> ('st \<Rightarrow> string \<rightharpoonup> 'v) \<Rightarrow> boost \<Rightarrow>
    (string \<Rightarrow> 'n) \<Rightarrow> ('c \<times> 'op) list \<Rightarrow> ('n \<Rightarrow> 'st) \<Rightarrow> ('c \<Rightarrow> int \<Rightarrow> string) \<Rightarrow> ('c \<Rightarrow> redis) \<Rightarrow> bool" where
  "clients_ready A answer holds B srv h sts rest cl \<longleftrightarrow>
     serves A answer holds \<and> boost_ok B \<and>
     (\<forall>c. connected (cl c) \<and>
        inq (cl c) = (\<lambda>k. shared_answers A answer srv (\<lambda>c. route B (connections (cl c))) h sts c k @ rest c k))"

definition sent_by :: "'c \<Rightarrow> ('c \<times> 'op) list \<Rightarrow> 'op list" where
  "sent_by c h = map snd (filter (\<lambda>e. fst e = c) h)"

text \<open>One request to the server of its key is one step of the map of the cluster.\<close>

lemma cluster_step:
  assumes "serves A answer holds" "api_valid A p (cluster_map holds rt sts (api_key A p))" "k = rt (api_key A p)"
  shows "api_reply A p (cluster_map holds rt sts (api_key A p)) (fst (answer (sts k) (api_words A p)))"
    "cluster_map holds rt (server_step A answer rt p sts) = api_step A p (cluster_map holds rt sts)"
proof -
  have here: "cluster_map holds rt sts (api_key A p) = holds (sts k) (api_key A p)"
    by (simp add: cluster_map_def assms(3))
  with assms(1,2) have "api_reply A p (holds (sts k) (api_key A p)) (fst (answer (sts k) (api_words A p)))"
    and new: "holds (snd (answer (sts k) (api_words A p))) = api_step A p (holds (sts k))"
    by (auto simp: serves_def)
  then show "api_reply A p (cluster_map holds rt sts (api_key A p)) (fst (answer (sts k) (api_words A p)))"
    by (simp add: here)
  show "cluster_map holds rt (server_step A answer rt p sts) = api_step A p (cluster_map holds rt sts)"
    using new here assms(3) by (auto simp: cluster_map_def server_step_def api_step_def Let_def fun_eq_iff)
qed

lemma answers_alone:
  "shared_answers A answer rt (\<lambda>_. rt) (map (Pair ()) ps) sts () k = answers_of A answer rt ps sts k"
  by (induction ps arbitrary: sts) auto

lemma attempts_alone:
  "shared_attempts run (map (Pair ()) ps) cl = (rs, cl') \<Longrightarrow> attempts run ps (cl ()) = (rs, cl' ())"
proof (induction ps arbitrary: cl rs)
  case (Cons p ps)
  obtain r s' where run: "run p (cl ()) = (r, s')" by fastforce
  with Cons.prems obtain rs' where "shared_attempts run (map (Pair ()) ps) (cl(() := s')) = (rs', cl')" "rs = r # rs'"
    by (auto split: prod.splits)
  with Cons.IH [OF this(1)] run show ?case by simp
qed simp

section \<open>The refinement\<close>

locale client_api =
  fixes A :: "('op, 'v, 'a) api"
  assumes ok_valid: "api_ok A p v \<Longrightarrow> api_valid A p v"
    and run_law: "connected s \<Longrightarrow> boost_ok B \<Longrightarrow> api_ok A p v \<Longrightarrow> api_reply A p v tx \<Longrightarrow>
    k = route B (connections s) (api_key A p) \<Longrightarrow> inq s k = tx @ rest \<Longrightarrow>
    \<exists>s'. api_run A B p s = (fst (api_spec A p v), s') \<and>
      moves s s' ((outq s)(k := outq s k @ api_request A p)) ((inq s)(k := rest))"
begin

text \<open>One call of one client.\<close>

lemma client_step:
  assumes "clients_ready A answer holds B srv ((c, p) # h) sts rest cl" "api_ok A p (cluster_map holds srv sts (api_key A p))"
    "k = route B (connections (cl c)) (api_key A p)"
  shows "\<exists>t. api_run A B p (cl c) = (fst (api_spec A p (cluster_map holds srv sts (api_key A p))), t) \<and>
    connections t = connections (cl c) \<and> outq t = (outq (cl c))(k := outq (cl c) k @ api_request A p) \<and>
    clients_ready A answer holds B srv h (server_step A answer srv p sts) rest (cl(c := t))"
proof -
  let ?st = "sts (srv (api_key A p))" and ?sts = "server_step A answer srv p sts" and ?rt = "\<lambda>c. route B (connections (cl c))"
  have sv: "serves A answer holds" "boost_ok B" and con: "connected (cl d)"
    and q: "inq (cl d) = (\<lambda>k. shared_answers A answer srv ?rt ((c, p) # h) sts d k @ rest d k)" for d
    using assms(1) by (auto simp: clients_ready_def)
  have "inq (cl c) k = fst (answer ?st (api_words A p)) @ shared_answers A answer srv ?rt h ?sts c k @ rest c k"
    using q [of c] assms(3) by simp
  from run_law [OF con sv(2) assms(2) cluster_step(1) [OF sv(1) ok_valid [OF assms(2)] refl] assms(3) this] obtain t where
    t: "api_run A B p (cl c) = (fst (api_spec A p (cluster_map holds srv sts (api_key A p))), t)"
      "moves (cl c) t ((outq (cl c))(k := outq (cl c) k @ api_request A p))
        ((inq (cl c))(k := shared_answers A answer srv ?rt h ?sts c k @ rest c k))" by blast
  have rt: "(\<lambda>d. route B (connections ((cl(c := t)) d))) = ?rt" using movesD(2) [OF t(2)] by auto
  have "inq ((cl(c := t)) d) = (\<lambda>k. shared_answers A answer srv ?rt h ?sts d k @ rest d k)" for d
    using q [of d] movesD(4) [OF t(2)] assms(3) by (auto simp: fun_eq_iff)
  with sv con connected_moves [OF con t(2)] have "clients_ready A answer holds B srv h ?sts rest (cl(c := t))"
    by (simp only: clients_ready_def rt) auto
  with t(1) movesD(2,3) [OF t(2)] show ?thesis by blast
qed

lemma clients_refine:
  assumes "clients_ready A answer holds B srv h sts rest cl" "calls_ok A (map snd h) (cluster_map holds srv sts)"
  shows "\<exists>cl'. shared_attempts (api_run A B) h cl = (spec_results A (map snd h) (cluster_map holds srv sts), cl') \<and>
    (\<forall>c. connections (cl' c) = connections (cl c) \<and> inq (cl' c) = rest c \<and>
       outq (cl' c) = (\<lambda>k. outq (cl c) k @ sent_to A (route B (connections (cl c))) (sent_by c h) k)) \<and>
    cluster_map holds srv (states_after A answer srv (map snd h) sts) = spec_map A (map snd h) (cluster_map holds srv sts)"
  using assms
proof (induction h arbitrary: cl sts)
  case Nil
  then show ?case by (auto simp: sent_to_def sent_by_def clients_ready_def fun_eq_iff)
next
  case (Cons e h)
  obtain c p where e: "e = (c, p)" by (cases e)
  let ?m = "cluster_map holds srv sts" and ?sts = "server_step A answer srv p sts"
  have ok: "api_ok A p (?m (api_key A p))" using Cons.prems(2) e by simp
  from client_step [OF Cons.prems(1) [unfolded e] ok refl] obtain t where
    t: "api_run A B p (cl c) = (fst (api_spec A p (?m (api_key A p))), t)" "connections t = connections (cl c)"
      "outq t = (outq (cl c))(route B (connections (cl c)) (api_key A p) :=
         outq (cl c) (route B (connections (cl c)) (api_key A p)) @ api_request A p)"
      "clients_ready A answer holds B srv h ?sts rest (cl(c := t))" by blast
  have step: "cluster_map holds srv ?sts = api_step A p ?m"
    using Cons.prems(1) by (intro cluster_step(2) [OF _ ok_valid [OF ok] refl]) (simp add: clients_ready_def)
  have "calls_ok A (map snd h) (cluster_map holds srv ?sts)" using Cons.prems(2) e step by simp
  from Cons.IH [OF t(4) this] obtain u where
    u: "shared_attempts (api_run A B) h (cl(c := t)) = (spec_results A (map snd h) (cluster_map holds srv ?sts), u)"
      "\<forall>d. connections (u d) = connections ((cl(c := t)) d) \<and> inq (u d) = rest d \<and>
         outq (u d) = (\<lambda>k. outq ((cl(c := t)) d) k @ sent_to A (route B (connections ((cl(c := t)) d))) (sent_by d h) k)"
      "cluster_map holds srv (states_after A answer srv (map snd h) ?sts) = spec_map A (map snd h) (cluster_map holds srv ?sts)"
    by blast
  have "connections (u d) = connections (cl d) \<and> inq (u d) = rest d \<and>
      outq (u d) = (\<lambda>k. outq (cl d) k @ sent_to A (route B (connections (cl d))) (sent_by d (e # h)) k)" for d
    using spec [OF u(2), of d] t(2,3) e by (auto simp: sent_to_def sent_by_def fun_eq_iff)
  with e t(1) u(1,3) step show ?case by simp
qed

text \<open>A single client.\<close>

lemma cluster_refines:
  assumes "serves A answer holds" "connected s" "boost_ok B" "rt = route B (connections s)"
    "calls_ok A ps (cluster_map holds rt sts)" "inq s = (\<lambda>k. answers_of A answer rt ps sts k @ rest k)"
  shows "\<exists>s'. attempts (api_run A B) ps s = (spec_results A ps (cluster_map holds rt sts), s') \<and>
    connections s' = connections s \<and> inq s' = rest \<and> outq s' = (\<lambda>k. outq s k @ sent_to A rt ps k) \<and>
    cluster_map holds rt (states_after A answer rt ps sts) = spec_map A ps (cluster_map holds rt sts)"
proof -
  let ?h = "map (Pair ()) ps"
  have "clients_ready A answer holds B rt ?h sts (\<lambda>_. rest) (\<lambda>_. s)"
    using assms by (simp add: clients_ready_def answers_alone)
  from clients_refine [OF this] assms(4,5) obtain cl' where
    "shared_attempts (api_run A B) ?h (\<lambda>_. s) = (spec_results A ps (cluster_map holds rt sts), cl')"
    "\<forall>c. connections (cl' c) = connections s \<and> inq (cl' c) = rest \<and> outq (cl' c) = (\<lambda>k. outq s k @ sent_to A rt ps k)"
    "cluster_map holds rt (states_after A answer rt ps sts) = spec_map A ps (cluster_map holds rt sts)"
    by (auto simp: sent_by_def comp_def filter_map)
  with attempts_alone [of "api_run A B" ps "\<lambda>_. s"] show ?thesis by blast
qed

end

lemma sent_by_apsnd: "sent_by c (map (apsnd f) h) = map f (sent_by c h)"
  by (simp add: sent_by_def filter_map comp_def)

section \<open>Calls made of calls\<close>

text \<open>A second set of calls that sends the same requests: a server for the first serves the second.\<close>

locale same_requests =
  fixes A :: "('op, 'v, 'a) api" and W :: "('m, 'v, 'b) api" and f :: "'m \<Rightarrow> 'op"
  assumes same_key: "api_key W m = api_key A (f m)"
    and same_words: "api_words W m = api_words A (f m)"
    and same_reply: "api_valid W m v \<Longrightarrow> api_reply W m v = api_reply A (f m) v"
    and same_effect: "api_valid W m v \<Longrightarrow> snd (api_spec W m v) = snd (api_spec A (f m) v)"
    and same_valid: "api_valid W m v \<Longrightarrow> api_valid A (f m) v"
begin

lemma serves_same: "serves A answer holds \<Longrightarrow> serves W answer holds"
  using same_valid same_reply same_effect by (simp add: serves_def same_key same_words api_step_def)

lemma server_step_same: "server_step W answer rt m sts = server_step A answer rt (f m) sts"
  by (simp add: server_step_def same_key same_words)

lemma answers_same: "shared_answers W answer srv rt h sts c k = shared_answers A answer srv rt (map (apsnd f) h) sts c k"
  by (induction h arbitrary: sts) (auto simp: same_key same_words server_step_same)

lemma ready_same: "clients_ready A answer holds B srv (map (apsnd f) h) sts rest cl \<Longrightarrow> clients_ready W answer holds B srv h sts rest cl"
  by (auto simp: clients_ready_def answers_same intro: serves_same)

lemma sent_same: "sent_to W rt ms = sent_to A rt (map f ms)"
proof -
  have "api_request W = api_request A \<circ> f" by (simp add: fun_eq_iff api_request_def same_words)
  then show ?thesis by (intro ext) (simp add: sent_to_def same_key filter_map comp_def)
qed

lemma states_same: "states_after W answer rt ms sts = states_after A answer rt (map f ms) sts"
  by (induction ms arbitrary: sts) (simp_all add: server_step_same)

end

text \<open>Calls that make their results of the results of the first set of calls.\<close>

locale wrapped_api = client_api A + same_requests A W f
  for A :: "('op, 'v, 'a) api" and W :: "('m, 'v, 'b) api" and f :: "'m \<Rightarrow> 'op" +
  fixes g :: "'m \<Rightarrow> 'a \<Rightarrow> 'b res"
  assumes wrapped_run: "api_run W B m = bnd (api_run A B (f m)) (\<lambda>x. lift_res (g m x))"
    and wrapped_result: "api_ok W m v \<Longrightarrow> fst (api_spec W m v) = rbnd (fst (api_spec A (f m) v)) (g m)"
    and wrapped_ok: "api_ok W m v \<Longrightarrow> api_ok A (f m) v \<and> api_valid W m v"

sublocale wrapped_api \<subseteq> wrapped: client_api W
proof
  fix m v assume "api_ok W m v"
  then show "api_valid W m v" by (simp add: wrapped_ok)
next
  fix s B m v tx k rest
  assume *: "connected s" "boost_ok B" "api_ok W m v" "api_reply W m v tx" "k = route B (connections s) (api_key W m)"
    "inq s k = tx @ rest"
  have ok: "api_ok A (f m) v" "api_valid W m v" using wrapped_ok [OF *(3)] by auto
  from run_law [OF *(1,2) ok(1) *(4) [unfolded same_reply [OF ok(2)]] _ *(6)] *(5) obtain s' where
    s': "api_run A B (f m) s = (fst (api_spec A (f m) v), s')"
      "moves s s' ((outq s)(k := outq s k @ api_request A (f m))) ((inq s)(k := rest))" by (auto simp: same_key)
  then have "api_run W B m s = (fst (api_spec W m v), s')"
    by (cases "fst (api_spec A (f m) v)") (auto simp: wrapped_run wrapped_result [OF *(3)])
  with s'(2) show "\<exists>s'. api_run W B m s = (fst (api_spec W m v), s') \<and>
      moves s s' ((outq s)(k := outq s k @ api_request W m)) ((inq s)(k := rest))"
    by (auto simp: api_request_def same_words)
qed

section \<open>Objects\<close>

text \<open>
  Objects with abstract states, one for each key: the results of a sequence of method calls, the
  states after it, and that every call is within the bounds.
\<close>

fun object_results :: "('m \<Rightarrow> string) \<Rightarrow> ('m \<Rightarrow> 'x \<Rightarrow> 'b res \<times> 'x) \<Rightarrow> 'm list \<Rightarrow> (string \<Rightarrow> 'x) \<Rightarrow> 'b res list" where
  "object_results key meth [] L = []"
| "object_results key meth (m # ms) L =
     fst (meth m (L (key m))) # object_results key meth ms (L(key m := snd (meth m (L (key m)))))"

fun object_states :: "('m \<Rightarrow> string) \<Rightarrow> ('m \<Rightarrow> 'x \<Rightarrow> 'b res \<times> 'x) \<Rightarrow> 'm list \<Rightarrow> (string \<Rightarrow> 'x) \<Rightarrow> string \<Rightarrow> 'x" where
  "object_states key meth [] L = L"
| "object_states key meth (m # ms) L = object_states key meth ms (L(key m := snd (meth m (L (key m)))))"

fun objects_ok :: "('m \<Rightarrow> string) \<Rightarrow> ('m \<Rightarrow> 'x \<Rightarrow> 'b res \<times> 'x) \<Rightarrow> ('m \<Rightarrow> 'x \<Rightarrow> bool) \<Rightarrow> 'm list \<Rightarrow> (string \<Rightarrow> 'x) \<Rightarrow> bool" where
  "objects_ok key meth good [] L \<longleftrightarrow> True"
| "objects_ok key meth good (m # ms) L \<longleftrightarrow>
     good m (L (key m)) \<and> objects_ok key meth good ms (L(key m := snd (meth m (L (key m)))))"

text \<open>Methods whose effect on the entry of the key is their effect on the abstract state.\<close>

locale object_api = client_api A for A :: "('m, 'v, 'b) api" +
  fixes conc :: "'x \<Rightarrow> 'v option" and meth :: "'m \<Rightarrow> 'x \<Rightarrow> 'b res \<times> 'x" and good :: "'m \<Rightarrow> 'x \<Rightarrow> bool"
  assumes meth_ok: "good m x \<Longrightarrow> api_ok A m (conc x)"
    and meth_spec: "good m x \<Longrightarrow> api_spec A m (conc x) = (fst (meth m x), conc (snd (meth m x)))"
begin

lemma objects_spec:
  assumes "objects_ok (api_key A) meth good ms L" "\<forall>m\<in>set ms. e (api_key A m) = conc (L (api_key A m))"
  shows "calls_ok A ms e \<and> spec_results A ms e = object_results (api_key A) meth ms L \<and>
    (\<forall>k. e k = conc (L k) \<longrightarrow> spec_map A ms e k = conc (object_states (api_key A) meth ms L k))"
  using assms
proof (induction ms arbitrary: e L)
  case (Cons m ms)
  let ?k = "api_key A m"
  have here: "e ?k = conc (L ?k)" "good m (L ?k)" using Cons.prems by auto
  note spec = meth_spec [OF here(2)]
  define L' where "L' = L(?k := snd (meth m (L ?k)))"
  have step: "api_step A m e k = conc (L' k)" if "e k = conc (L k)" for k
    using here(1) spec that by (auto simp: api_step_def L'_def)
  have "objects_ok (api_key A) meth good ms L'" "\<forall>m'\<in>set ms. api_step A m e (api_key A m') = conc (L' (api_key A m'))"
    using Cons.prems step by (auto simp: L'_def)
  from Cons.IH [OF this] here spec meth_ok [OF here(2)] step show ?case by (simp add: L'_def [symmetric])
qed simp

lemma objects_refine:
  assumes "clients_ready A answer holds B srv h sts rest cl" "objects_ok (api_key A) meth good (map snd h) L"
    "\<forall>m\<in>snd ` set h. cluster_map holds srv sts (api_key A m) = conc (L (api_key A m))"
  shows "\<exists>cl'. shared_attempts (api_run A B) h cl = (object_results (api_key A) meth (map snd h) L, cl') \<and>
    (\<forall>c. connections (cl' c) = connections (cl c) \<and> inq (cl' c) = rest c \<and>
       outq (cl' c) = (\<lambda>k. outq (cl c) k @ sent_to A (route B (connections (cl c))) (sent_by c h) k)) \<and>
    (\<forall>m\<in>snd ` set h. cluster_map holds srv (states_after A answer srv (map snd h) sts) (api_key A m) =
       conc (object_states (api_key A) meth (map snd h) L (api_key A m)))"
proof -
  have "\<forall>m\<in>set (map snd h). cluster_map holds srv sts (api_key A m) = conc (L (api_key A m))" using assms(3) by simp
  note spec = objects_spec [OF assms(2) this]
  from clients_refine [OF assms(1)] spec assms(3) show ?thesis by auto
qed

end

end
