(* ===== verification/RedisTypes.thy ===== *)
theory RedisTypes
  imports ClusterOps "HOL-Library.Multiset" "HOL-Library.Product_Lexorder"
begin

text \<open>
  The commands of one key, on strings, numbers, lists, sets and hashes, with the behaviour the Redis
  documentation gives them on the entry of that key, wrong types included, the calls of the client
  that send them, and what a caller gets of the answer. Together they are the set of calls \<open>redis_api\<close>.
\<close>

section \<open>Values and commands\<close>

text \<open>A set is kept as its elements in order, a hash as its fields; no empty list, set or hash is stored.\<close>

datatype redis_value =
    Text string
  | Items "string list"
  | Members "string list"
  | Fields "(string \<times> string) list"

datatype text_op = T_set string | T_get | T_setnx string | T_getset string | T_append string
  | T_incr | T_decr | T_incrby int | T_decrby int | T_exists | T_del | T_type

datatype list_op = L_rpush string | L_lpush string | L_llen | L_lrange int int | L_ltrim int int | L_lindex int
  | L_lset int string | L_lrem int string | L_lrem_exact int string | L_lpop | L_rpop | L_get_list

datatype set_op = S_sadd string | S_srem string | S_scard | S_sismember string | S_smembers

datatype hash_op = H_hset string string | H_hget string | H_hsetnx string string | H_hdel string | H_hexists string | H_hlen
  | H_hincrby string int | H_hmset "(string \<times> string) list" | H_hmget "string list"
  | H_hkeys | H_hvals | H_hgetall

text \<open>The blocking pops, with the seconds they wait.\<close>

datatype block_op = B_blpop int | B_brpop int

datatype redis_op = On_text string text_op | On_list string list_op | On_set string set_op | On_hash string hash_op
  | On_block string block_op

primrec op_key :: "redis_op \<Rightarrow> string" where
  "op_key (On_text k a) = k"
| "op_key (On_list k a) = k"
| "op_key (On_set k a) = k"
| "op_key (On_hash k a) = k"
| "op_key (On_block k a) = k"

primrec text_words :: "string \<Rightarrow> text_op \<Rightarrow> string list" where
  "text_words k (T_set v) = [''SET'', k, v]"
| "text_words k T_get = [''GET'', k]"
| "text_words k (T_setnx v) = [''SETNX'', k, v]"
| "text_words k (T_getset v) = [''GETSET'', k, v]"
| "text_words k (T_append v) = [''APPEND'', k, v]"
| "text_words k T_incr = [''INCR'', k]"
| "text_words k T_decr = [''DECR'', k]"
| "text_words k (T_incrby i) = [''INCRBY'', k, show_int i]"
| "text_words k (T_decrby i) = [''DECRBY'', k, show_int i]"
| "text_words k T_exists = [''EXISTS'', k]"
| "text_words k T_del = [''DEL'', k]"
| "text_words k T_type = [''TYPE'', k]"

primrec list_words :: "string \<Rightarrow> list_op \<Rightarrow> string list" where
  "list_words k (L_rpush v) = [''RPUSH'', k, v]"
| "list_words k (L_lpush v) = [''LPUSH'', k, v]"
| "list_words k L_llen = [''LLEN'', k]"
| "list_words k (L_lrange i j) = [''LRANGE'', k, show_int i, show_int j]"
| "list_words k (L_ltrim i j) = [''LTRIM'', k, show_int i, show_int j]"
| "list_words k (L_lindex i) = [''LINDEX'', k, show_int i]"
| "list_words k (L_lset i v) = [''LSET'', k, show_int i, v]"
| "list_words k (L_lrem n v) = [''LREM'', k, show_int n, v]"
| "list_words k (L_lrem_exact n v) = [''LREM'', k, show_int n, v]"
| "list_words k L_lpop = [''LPOP'', k]"
| "list_words k L_rpop = [''RPOP'', k]"
| "list_words k L_get_list = [''LRANGE'', k, show_int 0, show_int (- 1)]"

primrec set_words :: "string \<Rightarrow> set_op \<Rightarrow> string list" where
  "set_words k (S_sadd v) = [''SADD'', k, v]"
| "set_words k (S_srem v) = [''SREM'', k, v]"
| "set_words k S_scard = [''SCARD'', k]"
| "set_words k (S_sismember v) = [''SISMEMBER'', k, v]"
| "set_words k S_smembers = [''SMEMBERS'', k]"

primrec hash_words :: "string \<Rightarrow> hash_op \<Rightarrow> string list" where
  "hash_words k (H_hset f v) = [''HSET'', k, f, v]"
| "hash_words k (H_hget f) = [''HGET'', k, f]"
| "hash_words k (H_hsetnx f v) = [''HSETNX'', k, f, v]"
| "hash_words k (H_hdel f) = [''HDEL'', k, f]"
| "hash_words k (H_hexists f) = [''HEXISTS'', k, f]"
| "hash_words k H_hlen = [''HLEN'', k]"
| "hash_words k (H_hincrby f n) = [''HINCRBY'', k, f, show_int n]"
| "hash_words k (H_hmset fvs) = ''HMSET'' # k # concat (map (\<lambda>(f, x). [f, x]) fvs)"
| "hash_words k (H_hmget fs) = ''HMGET'' # k # fs"
| "hash_words k H_hkeys = [''HKEYS'', k]"
| "hash_words k H_hvals = [''HVALS'', k]"
| "hash_words k H_hgetall = [''HGETALL'', k]"

primrec block_words :: "string \<Rightarrow> block_op \<Rightarrow> string list" where
  "block_words k (B_blpop t) = [''BLPOP'', k, show_int t]"
| "block_words k (B_brpop t) = [''BRPOP'', k, show_int t]"

primrec op_words :: "redis_op \<Rightarrow> string list" where
  "op_words (On_text k a) = text_words k a"
| "op_words (On_list k a) = list_words k a"
| "op_words (On_set k a) = set_words k a"
| "op_words (On_hash k a) = hash_words k a"
| "op_words (On_block k a) = block_words k a"

section \<open>What the server does\<close>

datatype answer = Okay | Status string | Number int | Bulk "string option" | Multi "string list" | Set_of "string list"
  | Opts "string option list" | Bag "string list" | Pair_bag "(string \<times> string) list" | Timeout | Error string

definition wrong_type :: string where
  "wrong_type = ''ERR Operation against a key holding the wrong kind of value''"

text \<open>The entry as the type the command works on; a missing entry is an empty list, set or hash.\<close>

definition on_text :: "(string option \<Rightarrow> answer \<times> redis_value option) \<Rightarrow> redis_value option \<Rightarrow> answer \<times> redis_value option" where
  "on_text f v = (case v of None \<Rightarrow> f None | Some (Text t) \<Rightarrow> f (Some t) | _ \<Rightarrow> (Error wrong_type, v))"

definition on_items :: "(string list \<Rightarrow> answer \<times> redis_value option) \<Rightarrow> redis_value option \<Rightarrow> answer \<times> redis_value option" where
  "on_items f v = (case v of None \<Rightarrow> f [] | Some (Items xs) \<Rightarrow> f xs | _ \<Rightarrow> (Error wrong_type, v))"

definition on_members :: "(string list \<Rightarrow> answer \<times> redis_value option) \<Rightarrow> redis_value option \<Rightarrow> answer \<times> redis_value option" where
  "on_members f v = (case v of None \<Rightarrow> f [] | Some (Members xs) \<Rightarrow> f xs | _ \<Rightarrow> (Error wrong_type, v))"

definition on_fields ::
  "((string \<times> string) list \<Rightarrow> answer \<times> redis_value option) \<Rightarrow> redis_value option \<Rightarrow> answer \<times> redis_value option" where
  "on_fields f v = (case v of None \<Rightarrow> f [] | Some (Fields xs) \<Rightarrow> f xs | _ \<Rightarrow> (Error wrong_type, v))"

definition items :: "string list \<Rightarrow> redis_value option" where
  "items xs = (if xs = [] then None else Some (Items xs))"

definition members :: "string list \<Rightarrow> redis_value option" where
  "members xs = (if xs = [] then None else Some (Members xs))"

definition hash_fields :: "(string \<times> string) list \<Rightarrow> redis_value option" where
  "hash_fields xs = (if xs = [] then None else Some (Fields xs))"

definition flag :: "bool \<Rightarrow> answer" where
  "flag b = Number (if b then 1 else 0)"

text \<open>Indices count from the end when negative; a range is cut to the list and includes both its ends.\<close>

definition from_end :: "int \<Rightarrow> nat \<Rightarrow> int" where
  "from_end i n = (if i < 0 then i + int n else i)"

definition slice :: "int \<Rightarrow> int \<Rightarrow> 'a list \<Rightarrow> 'a list" where
  "slice i j xs =
     (let a = max 0 (from_end i (length xs)); b = from_end j (length xs)
      in take (nat (b - a + 1)) (drop (nat a) xs))"

definition index_of :: "int \<Rightarrow> nat \<Rightarrow> nat option" where
  "index_of i n = (let k = from_end i n in if 0 \<le> k \<and> k < int n then Some (nat k) else None)"

text \<open>The first \<open>n\<close> occurrences go.\<close>

fun remove_first :: "nat \<Rightarrow> 'a \<Rightarrow> 'a list \<Rightarrow> 'a list" where
  "remove_first 0 x ys = ys"
| "remove_first n x [] = []"
| "remove_first (Suc n) x (y # ys) = (if x = y then remove_first n x ys else y # remove_first (Suc n) x ys)"

definition lrem :: "int \<Rightarrow> 'a \<Rightarrow> 'a list \<Rightarrow> 'a list" where
  "lrem n x ys =
     (if n = 0 then removeAll x ys
      else if 0 < n then remove_first (nat n) x ys
      else rev (remove_first (nat (- n)) x (rev ys)))"

text \<open>The number a string holds, 0 for a missing one.\<close>

definition number_of :: "string option \<Rightarrow> int" where
  "number_of t = (case t of None \<Rightarrow> 0 | Some t \<Rightarrow> the (read_int t))"

definition count :: "int \<Rightarrow> answer \<times> redis_value option" where
  "count i = (Number i, Some (Text (show_int i)))"

definition type_name :: "redis_value option \<Rightarrow> string" where
  "type_name v =
     (case v of None \<Rightarrow> ''none'' | Some (Text _) \<Rightarrow> ''string'' | Some (Items _) \<Rightarrow> ''list'' | Some (Members _) \<Rightarrow> ''set''
      | Some (Fields _) \<Rightarrow> ''hash'')"

primrec text_does :: "text_op \<Rightarrow> redis_value option \<Rightarrow> answer \<times> redis_value option" where
  "text_does (T_set x) v = (Okay, Some (Text x))"
| "text_does T_get v = on_text (\<lambda>t. (Bulk t, v)) v"
| "text_does (T_setnx x) v = (flag (v = None), if v = None then Some (Text x) else v)"
| "text_does (T_getset x) v = on_text (\<lambda>t. (Bulk t, Some (Text x))) v"
| "text_does (T_append x) v =
     on_text (\<lambda>t. let t' = (case t of None \<Rightarrow> [] | Some t \<Rightarrow> t) @ x in (Number (int (length t')), Some (Text t'))) v"
| "text_does T_incr v = on_text (\<lambda>t. count (number_of t + 1)) v"
| "text_does T_decr v = on_text (\<lambda>t. count (number_of t - 1)) v"
| "text_does (T_incrby i) v = on_text (\<lambda>t. count (number_of t + i)) v"
| "text_does (T_decrby i) v = on_text (\<lambda>t. count (number_of t - i)) v"
| "text_does T_exists v = (flag (v \<noteq> None), v)"
| "text_does T_del v = (flag (v \<noteq> None), None)"
| "text_does T_type v = (Status (type_name v), v)"

primrec list_does :: "list_op \<Rightarrow> redis_value option \<Rightarrow> answer \<times> redis_value option" where
  "list_does (L_rpush x) v = on_items (\<lambda>xs. (Number (int (length xs) + 1), items (xs @ [x]))) v"
| "list_does (L_lpush x) v = on_items (\<lambda>xs. (Number (int (length xs) + 1), items (x # xs))) v"
| "list_does L_llen v = on_items (\<lambda>xs. (Number (int (length xs)), v)) v"
| "list_does (L_lrange i j) v = on_items (\<lambda>xs. (Multi (slice i j xs), v)) v"
| "list_does (L_ltrim i j) v = on_items (\<lambda>xs. (Okay, items (slice i j xs))) v"
| "list_does (L_lindex i) v = on_items (\<lambda>xs. (Bulk (map_option ((!) xs) (index_of i (length xs))), v)) v"
| "list_does (L_lset i x) v =
     on_items (\<lambda>xs. if xs = [] then (Error ''ERR no such key'', v)
        else case index_of i (length xs) of None \<Rightarrow> (Error ''ERR index out of range'', v) | Some k \<Rightarrow> (Okay, items (xs[k := x]))) v"
| "list_does (L_lrem n x) v = on_items (\<lambda>xs. (Number (int (length xs) - int (length (lrem n x xs))), items (lrem n x xs))) v"
| "list_does (L_lrem_exact n x) v = on_items (\<lambda>xs. (Number (int (length xs) - int (length (lrem n x xs))), items (lrem n x xs))) v"
| "list_does L_lpop v = on_items (\<lambda>xs. (Bulk (if xs = [] then None else Some (hd xs)), items (tl xs))) v"
| "list_does L_rpop v = on_items (\<lambda>xs. (Bulk (if xs = [] then None else Some (last xs)), items (butlast xs))) v"
| "list_does L_get_list v = on_items (\<lambda>xs. (Multi xs, v)) v"

primrec set_does :: "set_op \<Rightarrow> redis_value option \<Rightarrow> answer \<times> redis_value option" where
  "set_does (S_sadd x) v = on_members (\<lambda>xs. (flag (x \<notin> set xs), members (insort_insert x xs))) v"
| "set_does (S_srem x) v = on_members (\<lambda>xs. (flag (x \<in> set xs), members (removeAll x xs))) v"
| "set_does S_scard v = on_members (\<lambda>xs. (Number (int (length xs)), v)) v"
| "set_does (S_sismember x) v = on_members (\<lambda>xs. (flag (x \<in> set xs), v)) v"
| "set_does S_smembers v = on_members (\<lambda>xs. (Set_of xs, v)) v"

definition hash_upd :: "string \<Rightarrow> string \<Rightarrow> (string \<times> string) list \<Rightarrow> (string \<times> string) list" where
  "hash_upd f x fs = (f, x) # filter (\<lambda>(g, y). g \<noteq> f) fs"

primrec hash_does :: "hash_op \<Rightarrow> redis_value option \<Rightarrow> answer \<times> redis_value option" where
  "hash_does (H_hset f x) v = on_fields (\<lambda>fs. (flag (map_of fs f = None), hash_fields (hash_upd f x fs))) v"
| "hash_does (H_hget f) v = on_fields (\<lambda>fs. (Bulk (map_of fs f), v)) v"
| "hash_does (H_hsetnx f x) v =
     on_fields (\<lambda>fs. if map_of fs f = None then (flag True, hash_fields (hash_upd f x fs)) else (flag False, v)) v"
| "hash_does (H_hdel f) v =
     on_fields (\<lambda>fs. (flag (map_of fs f \<noteq> None), hash_fields (filter (\<lambda>(g, y). g \<noteq> f) fs))) v"
| "hash_does (H_hexists f) v = on_fields (\<lambda>fs. (flag (map_of fs f \<noteq> None), v)) v"
| "hash_does H_hlen v = on_fields (\<lambda>fs. (Number (int (length fs)), v)) v"
| "hash_does (H_hincrby f n) v =
     on_fields (\<lambda>fs. let i = number_of (map_of fs f) + n in (Number i, hash_fields (hash_upd f (show_int i) fs))) v"
| "hash_does (H_hmset fvs) v = on_fields (\<lambda>fs. (Okay, hash_fields (foldl (\<lambda>fs (f, x). hash_upd f x fs) fs fvs))) v"
| "hash_does (H_hmget gs) v = on_fields (\<lambda>fs. (Opts (map (map_of fs) gs), v)) v"
| "hash_does H_hkeys v = on_fields (\<lambda>fs. (Bag (map fst fs), v)) v"
| "hash_does H_hvals v = on_fields (\<lambda>fs. (Bag (map snd fs), v)) v"
| "hash_does H_hgetall v = on_fields (\<lambda>fs. (Pair_bag fs, v)) v"

text \<open>
  A blocking pop is served when there is an element, with the key it comes from, or answered with no
  list when its time is up; until then it is not in the history.
\<close>

primrec block_does :: "string \<Rightarrow> block_op \<Rightarrow> redis_value option \<Rightarrow> answer \<times> redis_value option" where
  "block_does k (B_blpop t) v = on_items (\<lambda>xs. if xs = [] then (Timeout, v) else (Multi [k, hd xs], items (tl xs))) v"
| "block_does k (B_brpop t) v = on_items (\<lambda>xs. if xs = [] then (Timeout, v) else (Multi [k, last xs], items (butlast xs))) v"

primrec does :: "redis_op \<Rightarrow> redis_value option \<Rightarrow> answer \<times> redis_value option" where
  "does (On_text k a) v = text_does a v"
| "does (On_list k a) v = list_does a v"
| "does (On_set k a) v = set_does a v"
| "does (On_hash k a) v = hash_does a v"
| "does (On_block k a) v = block_does k a v"

text \<open>The texts of an answer: the members of a set and the fields of a hash come in any order.\<close>

fun pairs_of :: "'a list \<Rightarrow> ('a \<times> 'a) list option" where
  "pairs_of [] = Some []"
| "pairs_of [x] = None"
| "pairs_of (x # y # zs) = map_option ((#) (x, y)) (pairs_of zs)"

definition unpair :: "('a \<times> 'a) list \<Rightarrow> 'a list" where
  "unpair fs = concat (map (\<lambda>(f, x). [f, x]) fs)"

primrec wire :: "answer \<Rightarrow> string \<Rightarrow> bool" where
  "wire Okay tx \<longleftrightarrow> tx = status_line ''OK''"
| "wire (Status s) tx \<longleftrightarrow> tx = status_line s"
| "wire (Number i) tx \<longleftrightarrow> tx = int_line i"
| "wire (Bulk v) tx \<longleftrightarrow> tx = opt_bulk v"
| "wire (Multi xs) tx \<longleftrightarrow> tx = multi_bulk xs"
| "wire (Set_of xs) tx \<longleftrightarrow>
     (case parse_request tx of
        None \<Rightarrow> False
      | Some (ys, r) \<Rightarrow> r = [] \<and> distinct ys \<and> set ys = set xs \<and> tx = multi_bulk ys)"
| "wire (Opts vs) tx \<longleftrightarrow> tx = opt_multi vs"
| "wire (Bag xs) tx \<longleftrightarrow>
     (case parse_request tx of
        None \<Rightarrow> False
      | Some (ys, r) \<Rightarrow> r = [] \<and> mset ys = mset xs \<and> tx = multi_bulk ys)"
| "wire (Pair_bag fs) tx \<longleftrightarrow>
     (case parse_request tx of
        None \<Rightarrow> False
      | Some (ys, r) \<Rightarrow> r = [] \<and> (case pairs_of ys of None \<Rightarrow> False | Some ps \<Rightarrow> mset ps = mset fs) \<and> tx = multi_bulk ys)"
| "wire Timeout tx \<longleftrightarrow> tx = nil_multi"
| "wire (Error l) tx \<longleftrightarrow> tx = error_line l"

primrec answer_ok :: "answer \<Rightarrow> bool" where
  "answer_ok Okay \<longleftrightarrow> True"
| "answer_ok (Status s) \<longleftrightarrow> line_ok s"
| "answer_ok (Number i) \<longleftrightarrow> long_range i"
| "answer_ok (Bulk v) \<longleftrightarrow> opt_ok v"
| "answer_ok (Multi xs) \<longleftrightarrow> multi_ok xs"
| "answer_ok (Set_of xs) \<longleftrightarrow> multi_ok xs \<and> sorted xs \<and> distinct xs"
| "answer_ok (Opts vs) \<longleftrightarrow> list_all opt_ok vs \<and> length vs \<le> 153391689"
| "answer_ok (Bag xs) \<longleftrightarrow> multi_ok xs"
| "answer_ok (Pair_bag fs) \<longleftrightarrow> multi_ok (unpair fs)"
| "answer_ok Timeout \<longleftrightarrow> True"
| "answer_ok (Error l) \<longleftrightarrow> error_ok l"

text \<open>A command that counts needs the decimal text of a number.\<close>

definition is_decimal :: "string \<Rightarrow> bool" where
  "is_decimal t = (case read_int t of None \<Rightarrow> False | Some i \<Rightarrow> show_int i = t)"

definition is_number :: "redis_value option \<Rightarrow> bool" where
  "is_number v = (case v of Some (Text t) \<Rightarrow> is_decimal t | _ \<Rightarrow> True)"

definition counts :: "redis_op \<Rightarrow> bool" where
  "counts p = (case p of On_text k a \<Rightarrow> (case a of T_incr \<Rightarrow> True | T_decr \<Rightarrow> True | T_incrby _ \<Rightarrow> True | T_decrby _ \<Rightarrow> True | _ \<Rightarrow> False)
     | _ \<Rightarrow> False)"

text \<open>
  The behaviour is documented: the counted number stays within 64 bits, a command of several fields
  has at least one, a pop that waits forever finds an element; a set is kept in order.
\<close>

definition within64 :: "answer \<Rightarrow> bool" where
  "within64 a = (case a of Number i \<Rightarrow> - (2 ^ 63) \<le> i \<and> i < 2 ^ 63 | _ \<Rightarrow> True)"

definition hash_valid :: "hash_op \<Rightarrow> redis_value option \<Rightarrow> bool" where
  "hash_valid a v =
     (case a of
        H_hincrby f n \<Rightarrow>
          (case v of Some (Fields fs) \<Rightarrow> (case map_of fs f of None \<Rightarrow> True | Some t \<Rightarrow> is_decimal t) | _ \<Rightarrow> True) \<and>
          within64 (fst (hash_does a v))
      | H_hmset fvs \<Rightarrow> fvs \<noteq> []
      | H_hmget gs \<Rightarrow> gs \<noteq> []
      | _ \<Rightarrow> True)"

definition block_valid :: "string \<Rightarrow> block_op \<Rightarrow> redis_value option \<Rightarrow> bool" where
  "block_valid k a v \<longleftrightarrow> fst (block_does k a v) = Timeout \<longrightarrow> 0 < (case a of B_blpop t \<Rightarrow> t | B_brpop t \<Rightarrow> t)"

definition op_valid :: "redis_op \<Rightarrow> redis_value option \<Rightarrow> bool" where
  "op_valid p v \<longleftrightarrow>
     (counts p \<longrightarrow> is_number v \<and> within64 (fst (does p v))) \<and>
     (case p of On_hash k a \<Rightarrow> hash_valid a v | On_block k a \<Rightarrow> block_valid k a v | _ \<Rightarrow> True) \<and>
     (case v of Some (Members xs) \<Rightarrow> sorted xs \<and> distinct xs | _ \<Rightarrow> True)"

definition op_ok :: "redis_op \<Rightarrow> redis_value option \<Rightarrow> bool" where
  "op_ok p v \<longleftrightarrow> op_valid p v \<and> answer_ok (fst (does p v))"

section \<open>The calls of the client\<close>

datatype outcome = Unit | Num int | Size nat | Flag bool | Word string | Strings int "string list"
  | Pairs "(string \<times> string) list" | Kind key_type

primrec text_call :: "boost \<Rightarrow> string \<Rightarrow> text_op \<Rightarrow> outcome rio" where
  "text_call B k (T_set x) = sq (client_set B k x) (ret Unit)"
| "text_call B k T_get = bnd (client_get B k) (\<lambda>x. ret (Word x))"
| "text_call B k (T_setnx x) = bnd (client_setnx B k x) (\<lambda>b. ret (Flag b))"
| "text_call B k (T_getset x) = bnd (client_getset B k x) (\<lambda>y. ret (Word y))"
| "text_call B k (T_append x) = bnd (client_append B k x) (\<lambda>n. ret (Size n))"
| "text_call B k T_incr = bnd (client_incr B k) (\<lambda>i. ret (Num i))"
| "text_call B k T_decr = bnd (client_decr B k) (\<lambda>i. ret (Num i))"
| "text_call B k (T_incrby n) = bnd (client_incrby B k n) (\<lambda>i. ret (Num i))"
| "text_call B k (T_decrby n) = bnd (client_decrby B k n) (\<lambda>i. ret (Num i))"
| "text_call B k T_exists = bnd (client_exists B k) (\<lambda>b. ret (Flag b))"
| "text_call B k T_del = bnd (client_del B k) (\<lambda>b. ret (Flag b))"
| "text_call B k T_type = bnd (client_type B k) (\<lambda>t. ret (Kind t))"

primrec list_call :: "boost \<Rightarrow> string \<Rightarrow> list_op \<Rightarrow> outcome rio" where
  "list_call B k (L_rpush x) = bnd (client_rpush B k x) (\<lambda>i. ret (Num i))"
| "list_call B k (L_lpush x) = bnd (client_lpush B k x) (\<lambda>i. ret (Num i))"
| "list_call B k L_llen = bnd (client_llen B k) (\<lambda>i. ret (Num i))"
| "list_call B k (L_lrange a b) = bnd (client_lrange B k a b []) (\<lambda>(n, xs). ret (Strings n xs))"
| "list_call B k (L_ltrim a b) = sq (client_ltrim B k a b) (ret Unit)"
| "list_call B k (L_lindex i) = bnd (client_lindex B k i) (\<lambda>x. ret (Word x))"
| "list_call B k (L_lset i x) = sq (client_lset B k i x) (ret Unit)"
| "list_call B k (L_lrem n x) = bnd (client_lrem B k n x) (\<lambda>i. ret (Num i))"
| "list_call B k (L_lrem_exact n x) = sq (client_lrem_exact B k n x) (ret Unit)"
| "list_call B k L_lpop = bnd (client_lpop B k) (\<lambda>x. ret (Word x))"
| "list_call B k L_rpop = bnd (client_rpop B k) (\<lambda>x. ret (Word x))"
| "list_call B k L_get_list = bnd (client_get_list B k []) (\<lambda>(n, xs). ret (Strings n xs))"

primrec set_call :: "boost \<Rightarrow> string \<Rightarrow> set_op \<Rightarrow> outcome rio" where
  "set_call B k (S_sadd x) = bnd (client_sadd B k x) (\<lambda>b. ret (Flag b))"
| "set_call B k (S_srem x) = sq (client_srem B k x) (ret Unit)"
| "set_call B k S_scard = bnd (client_scard B k) (\<lambda>i. ret (Num i))"
| "set_call B k (S_sismember x) = bnd (client_sismember B k x) (\<lambda>b. ret (Flag b))"
| "set_call B k S_smembers = bnd (client_smembers B k []) (\<lambda>(n, xs). ret (Strings n xs))"

text \<open>The callers of the three calls that return what is in a hash sort it, as its order is the server's.\<close>

primrec hash_call :: "boost \<Rightarrow> string \<Rightarrow> hash_op \<Rightarrow> outcome rio" where
  "hash_call B k (H_hset f x) = bnd (client_hset B k f x) (\<lambda>b. ret (Flag b))"
| "hash_call B k (H_hget f) = bnd (client_hget B k f) (\<lambda>x. ret (Word x))"
| "hash_call B k (H_hsetnx f x) = bnd (client_hsetnx B k f x) (\<lambda>b. ret (Flag b))"
| "hash_call B k (H_hdel f) = bnd (client_hdel B k f) (\<lambda>b. ret (Flag b))"
| "hash_call B k (H_hexists f) = bnd (client_hexists B k f) (\<lambda>b. ret (Flag b))"
| "hash_call B k H_hlen = bnd (client_hlen B k) (\<lambda>i. ret (Num i))"
| "hash_call B k (H_hincrby f n) = bnd (client_hincrby B k f n) (\<lambda>i. ret (Num i))"
| "hash_call B k (H_hmset fvs) = sq (client_hmset B k fvs) (ret Unit)"
| "hash_call B k (H_hmget gs) = bnd (client_hmget B k gs []) (\<lambda>xs. ret (Strings (int (length xs)) xs))"
| "hash_call B k H_hkeys = bnd (client_hkeys B k []) (\<lambda>xs. ret (Strings (int (length xs)) (sort xs)))"
| "hash_call B k H_hvals = bnd (client_hvals B k []) (\<lambda>xs. ret (Strings (int (length xs)) (sort xs)))"
| "hash_call B k H_hgetall = bnd (client_hgetall B k []) (\<lambda>ps. ret (Pairs (sort ps)))"

primrec block_call :: "boost \<Rightarrow> string \<Rightarrow> block_op \<Rightarrow> outcome rio" where
  "block_call B k (B_blpop t) = bnd (client_blpop B k t) (\<lambda>x. ret (Word x))"
| "block_call B k (B_brpop t) = bnd (client_brpop B k t) (\<lambda>x. ret (Word x))"

primrec call :: "boost \<Rightarrow> redis_op \<Rightarrow> outcome rio" where
  "call B (On_text k a) = text_call B k a"
| "call B (On_list k a) = list_call B k a"
| "call B (On_set k a) = set_call B k a"
| "call B (On_hash k a) = hash_call B k a"
| "call B (On_block k a) = block_call B k a"

text \<open>
  What a caller gets for an answer. An error line becomes a \<open>protocol_error\<close>, with the server's message
  where a status was expected.
\<close>

definition done_for :: "answer \<Rightarrow> outcome res" where
  "done_for a = (case a of Error l \<Rightarrow> Throw (refusal l) | _ \<Rightarrow> Ret Unit)"

definition kind_for :: "answer \<Rightarrow> outcome res" where
  "kind_for a = (case a of Status s \<Rightarrow> Ret (Kind (type_of_name s)) | Error l \<Rightarrow> Throw (refusal l) | _ \<Rightarrow> Ret Unit)"

definition number_for :: "(int \<Rightarrow> outcome res) \<Rightarrow> answer \<Rightarrow> outcome res" where
  "number_for f a =
     (case a of Number i \<Rightarrow> f i | _ \<Rightarrow> Throw (protocol_error ''unexpected prefix for integer reply''))"

definition word_for :: "answer \<Rightarrow> outcome res" where
  "word_for a =
     (case a of Bulk v \<Rightarrow> Ret (Word (opt_value v)) | _ \<Rightarrow> Throw (protocol_error ''unexpected prefix for bulk reply''))"

definition strings_for :: "answer \<Rightarrow> outcome res" where
  "strings_for a =
     (case a of Multi xs \<Rightarrow> Ret (Strings (int (length xs)) xs) | Set_of xs \<Rightarrow> Ret (Strings (int (length xs)) xs)
      | Opts vs \<Rightarrow> Ret (Strings (int (length vs)) (map opt_value vs))
      | Bag xs \<Rightarrow> Ret (Strings (int (length xs)) (sort xs))
      | Pair_bag fs \<Rightarrow> Ret (Pairs (sort fs))
      | _ \<Rightarrow> Throw (protocol_error ''unexpected prefix for bulk reply''))"

definition popped_for :: "answer \<Rightarrow> outcome res" where
  "popped_for a =
     (case a of Multi xs \<Rightarrow> Ret (Word (xs ! 1)) | Timeout \<Rightarrow> Ret (Word missing_value)
      | _ \<Rightarrow> Throw (protocol_error ''unexpected prefix for bulk reply''))"

definition flag_for :: "answer \<Rightarrow> outcome res" where
  "flag_for = number_for (\<lambda>i. Ret (Flag (i = 1)))"

definition num_for :: "answer \<Rightarrow> outcome res" where
  "num_for = number_for (\<lambda>i. Ret (Num i))"

primrec text_result :: "text_op \<Rightarrow> answer \<Rightarrow> outcome res" where
  "text_result (T_set x) = done_for"
| "text_result T_get = word_for"
| "text_result (T_setnx x) = flag_for"
| "text_result (T_getset x) = word_for"
| "text_result (T_append x) = number_for (\<lambda>i. Ret (Size (nat i)))"
| "text_result T_incr = num_for"
| "text_result T_decr = num_for"
| "text_result (T_incrby n) = num_for"
| "text_result (T_decrby n) = num_for"
| "text_result T_exists = flag_for"
| "text_result T_del = flag_for"
| "text_result T_type = kind_for"

primrec list_result :: "list_op \<Rightarrow> answer \<Rightarrow> outcome res" where
  "list_result (L_rpush x) = num_for"
| "list_result (L_lpush x) = num_for"
| "list_result L_llen = num_for"
| "list_result (L_lrange i j) = strings_for"
| "list_result (L_ltrim i j) = done_for"
| "list_result (L_lindex i) = word_for"
| "list_result (L_lset i x) = done_for"
| "list_result (L_lrem n x) = num_for"
| "list_result (L_lrem_exact n x) =
     number_for (\<lambda>i. if i \<noteq> n then Throw (value_error ''failed to remove exactly N elements from list'') else Ret Unit)"
| "list_result L_lpop = word_for"
| "list_result L_rpop = word_for"
| "list_result L_get_list = strings_for"

primrec set_result :: "set_op \<Rightarrow> answer \<Rightarrow> outcome res" where
  "set_result (S_sadd x) = flag_for"
| "set_result (S_srem x) =
     number_for (\<lambda>i. if i \<noteq> 1 then Throw (protocol_error ''expecting int reply of 1'') else Ret Unit)"
| "set_result S_scard = num_for"
| "set_result (S_sismember x) = flag_for"
| "set_result S_smembers = strings_for"

primrec hash_result :: "hash_op \<Rightarrow> answer \<Rightarrow> outcome res" where
  "hash_result (H_hset f x) = flag_for"
| "hash_result (H_hget f) = word_for"
| "hash_result (H_hsetnx f x) = flag_for"
| "hash_result (H_hdel f) = flag_for"
| "hash_result (H_hexists f) = flag_for"
| "hash_result H_hlen = num_for"
| "hash_result (H_hincrby f n) = num_for"
| "hash_result (H_hmset fvs) = done_for"
| "hash_result (H_hmget gs) = strings_for"
| "hash_result H_hkeys = strings_for"
| "hash_result H_hvals = strings_for"
| "hash_result H_hgetall = strings_for"

primrec op_result :: "redis_op \<Rightarrow> answer \<Rightarrow> outcome res" where
  "op_result (On_text k a) = text_result a"
| "op_result (On_list k a) = list_result a"
| "op_result (On_set k a) = set_result a"
| "op_result (On_hash k a) = hash_result a"
| "op_result (On_block k a) = popped_for"

definition redis_api :: "(redis_op, redis_value, outcome) api" where
  "redis_api =
     \<lparr>api_key = op_key, api_words = op_words, api_run = call,
      api_spec = (\<lambda>p v. (op_result p (fst (does p v)), snd (does p v))),
      api_reply = (\<lambda>p v. wire (fst (does p v))), api_valid = op_valid, api_ok = op_ok\<rparr>"

end
