(* ===== verification/RedisCluster.thy ===== *)
theory RedisCluster
  imports RedisTypes
begin

text \<open>
  The client is an instance of \<open>client_api\<close>: a cluster of servers, shared by any number of clients, is
  one store of typed values. The locale \<open>redis_object\<close> carries this over to classes whose methods are
  calls on a key; a server that keeps the contract serves the concrete runs.
\<close>

section \<open>The client keeps the contract\<close>

text \<open>The kinds of answers that go with the readers: what is expected or an error line.\<close>

definition numeric :: "answer \<Rightarrow> bool" where
  "numeric a \<longleftrightarrow> (\<exists>i. a = Number i) \<or> (\<exists>l. a = Error l)"

definition silent :: "answer \<Rightarrow> bool" where
  "silent a \<longleftrightarrow> a = Okay \<or> (\<exists>l. a = Error l)"

definition naming :: "answer \<Rightarrow> bool" where
  "naming a \<longleftrightarrow> (\<exists>n. a = Status n) \<or> (\<exists>l. a = Error l)"

definition wordy :: "answer \<Rightarrow> bool" where
  "wordy a \<longleftrightarrow> (\<exists>v. a = Bulk v) \<or> (\<exists>l. a = Error l)"

definition listing :: "answer \<Rightarrow> bool" where
  "listing a \<longleftrightarrow> (\<exists>xs. a = Multi xs) \<or> (\<exists>l. a = Error l)"

definition gathering :: "answer \<Rightarrow> bool" where
  "gathering a \<longleftrightarrow> (\<exists>xs. a = Set_of xs) \<or> (\<exists>l. a = Error l)"

definition optional :: "answer \<Rightarrow> bool" where
  "optional a \<longleftrightarrow> (\<exists>vs. a = Opts vs) \<or> (\<exists>l. a = Error l)"

definition bagging :: "answer \<Rightarrow> bool" where
  "bagging a \<longleftrightarrow> (\<exists>xs. a = Bag xs) \<or> (\<exists>l. a = Error l)"

definition pairing :: "answer \<Rightarrow> bool" where
  "pairing a \<longleftrightarrow> (\<exists>fs. a = Pair_bag fs) \<or> (\<exists>l. a = Error l)"

definition popping :: "string \<Rightarrow> answer \<Rightarrow> bool" where
  "popping k a \<longleftrightarrow> (\<exists>x. a = Multi [k, x]) \<or> a = Timeout \<or> (\<exists>l. a = Error l)"

lemmas answer_kinds = numeric_def silent_def naming_def wordy_def listing_def gathering_def optional_def
  bagging_def pairing_def popping_def

lemmas entry_defs = on_text_def on_items_def on_members_def on_fields_def flag_def count_def Let_def

lemmas does_simps = text_does.simps list_does.simps set_does.simps hash_does.simps

lemma text_answers:
  "silent (fst (text_does (T_set x) v))" "wordy (fst (text_does T_get v))" "numeric (fst (text_does (T_setnx x) v))"
  "wordy (fst (text_does (T_getset x) v))" "numeric (fst (text_does (T_append x) v))" "numeric (fst (text_does T_incr v))"
  "numeric (fst (text_does T_decr v))" "numeric (fst (text_does (T_incrby i) v))" "numeric (fst (text_does (T_decrby i) v))"
  "numeric (fst (text_does T_exists v))" "numeric (fst (text_does T_del v))" "naming (fst (text_does T_type v))"
  by (simp_all add: answer_kinds entry_defs split: option.split redis_value.split)

lemma list_answers:
  "numeric (fst (list_does (L_rpush x) v))" "numeric (fst (list_does (L_lpush x) v))" "numeric (fst (list_does L_llen v))"
  "listing (fst (list_does (L_lrange i j) v))" "silent (fst (list_does (L_ltrim i j) v))" "wordy (fst (list_does (L_lindex i) v))"
  "silent (fst (list_does (L_lset i x) v))" "numeric (fst (list_does (L_lrem n x) v))"
  "numeric (fst (list_does (L_lrem_exact n x) v))" "wordy (fst (list_does L_lpop v))" "wordy (fst (list_does L_rpop v))"
  "listing (fst (list_does L_get_list v))"
  by (simp_all add: answer_kinds entry_defs split: option.split redis_value.split)

lemma set_answers:
  "numeric (fst (set_does (S_sadd x) v))" "numeric (fst (set_does (S_srem x) v))" "numeric (fst (set_does S_scard v))"
  "numeric (fst (set_does (S_sismember x) v))" "gathering (fst (set_does S_smembers v))"
  by (simp_all add: answer_kinds entry_defs split: option.split redis_value.split)

lemma hash_answers:
  "numeric (fst (hash_does (H_hset f x) v))" "wordy (fst (hash_does (H_hget f) v))" "numeric (fst (hash_does (H_hsetnx f x) v))"
  "numeric (fst (hash_does (H_hdel f) v))" "numeric (fst (hash_does (H_hexists f) v))" "numeric (fst (hash_does H_hlen v))"
  "numeric (fst (hash_does (H_hincrby f n) v))" "silent (fst (hash_does (H_hmset fvs) v))" "optional (fst (hash_does (H_hmget gs) v))"
  "bagging (fst (hash_does H_hkeys v))" "bagging (fst (hash_does H_hvals v))" "pairing (fst (hash_does H_hgetall v))"
  by (simp_all add: answer_kinds entry_defs split: option.split redis_value.split)

lemma block_answers: "popping k (fst (block_does k a v))"
  by (cases a) (simp_all add: answer_kinds entry_defs split: option.split redis_value.split)

text \<open>One exchange, for each kind of answer.\<close>

lemma ask_number:
  assumes "connected s" "boost_ok B" "answer_ok a" "wire a tx" "numeric a"
    "k = route B (connections s) key" "inq s k = tx @ rest" "\<And>i t. a = Number i \<Longrightarrow> g i t = (f i, t)"
  shows "\<exists>s'. bnd (on_key B key msg (recv_int_reply B)) g s = (number_for f a, s') \<and>
    moves s s' ((outq s)(k := outq s k @ msg)) ((inq s)(k := rest))"
  using assms(5)[unfolded answer_kinds]
proof (elim disjE exE)
  fix i assume a: "a = Number i"
  with int_r.on_key_law [OF assms(1) _ assms(6), of B i rest msg] assms(2-4,7,8) show ?thesis by (auto simp: number_for_def)
next
  fix l assume a: "a = Error l"
  with int_e.on_key_law [OF assms(1) _ assms(6), of l rest msg B] assms(3,4,7) show ?thesis by (auto simp: number_for_def)
qed

lemma ask_done:
  assumes "connected s" "boost_ok B" "answer_ok a" "wire a tx" "silent a"
    "k = route B (connections s) key" "inq s k = tx @ rest" "\<And>u t. g u t = (Ret Unit, t)"
  shows "\<exists>s'. bnd (on_key B key msg recv_ok_reply) g s = (done_for a, s') \<and>
    moves s s' ((outq s)(k := outq s k @ msg)) ((inq s)(k := rest))"
  using assms(5)[unfolded answer_kinds]
proof (elim disjE exE)
  assume "a = Okay"
  with ok_r.on_key_law [OF assms(1) TrueI assms(6), of rest msg] assms(4,7,8) show ?thesis by (auto simp: done_for_def)
next
  fix l assume "a = Error l"
  with ok_e.on_key_law [OF assms(1) _ assms(6), of l rest msg] assms(3,4,7) show ?thesis by (auto simp: done_for_def)
qed

lemma ask_kind:
  assumes "connected s" "boost_ok B" "answer_ok a" "wire a tx" "naming a"
    "k = route B (connections s) key" "inq s k = tx @ rest" "\<And>n t. g n t = (Ret (Kind (type_of_name n)), t)"
  shows "\<exists>s'. bnd (on_key B key msg recv_single_line_reply) g s = (kind_for a, s') \<and>
    moves s s' ((outq s)(k := outq s k @ msg)) ((inq s)(k := rest))"
  using assms(5)[unfolded answer_kinds]
proof (elim disjE exE)
  fix n assume "a = Status n"
  with status_r.on_key_law [OF assms(1) _ assms(6), of n rest msg] assms(3,4,7,8) show ?thesis by (auto simp: kind_for_def)
next
  fix l assume "a = Error l"
  with status_e.on_key_law [OF assms(1) _ assms(6), of l rest msg] assms(3,4,7) show ?thesis by (auto simp: kind_for_def)
qed

lemma ask_word:
  assumes "connected s" "boost_ok B" "answer_ok a" "wire a tx" "wordy a"
    "k = route B (connections s) key" "inq s k = tx @ rest" "\<And>x t. g x t = (Ret (Word x), t)"
  shows "\<exists>s'. bnd (on_key B key msg (recv_bulk_reply B)) g s = (word_for a, s') \<and>
    moves s s' ((outq s)(k := outq s k @ msg)) ((inq s)(k := rest))"
  using assms(5)[unfolded answer_kinds]
proof (elim disjE exE)
  fix v assume "a = Bulk v"
  with opt_r.on_key_law [OF assms(1) _ assms(6), of B v rest msg] assms(2-4,7,8) show ?thesis by (auto simp: word_for_def)
next
  fix l assume "a = Error l"
  with bulk_e.on_key_law [OF assms(1) _ assms(6), of l rest msg B] assms(3,4,7) show ?thesis by (auto simp: word_for_def)
qed

lemma ask_acknowledge:
  assumes "connected s" "boost_ok B" "answer_ok a" "wire a tx" "numeric a"
    "k = route B (connections s) key" "inq s k = tx @ rest" "\<And>u t. g u t = (Ret Unit, t)"
  shows "\<exists>s'. bnd (on_key B key msg (recv_int_ok_reply B)) g s =
      (number_for (\<lambda>i. if i \<noteq> 1 then Throw (protocol_error ''expecting int reply of 1'') else Ret Unit) a, s') \<and>
    moves s s' ((outq s)(k := outq s k @ msg)) ((inq s)(k := rest))"
  using assms(5)[unfolded answer_kinds]
proof (elim disjE exE)
  fix i assume "a = Number i"
  with int_any_r.on_key_law [OF assms(1) _ assms(6), of B i rest msg] assms(2-4,7,8) show ?thesis
    by (cases "i = 1") (auto simp: number_for_def)
next
  fix l assume "a = Error l"
  with int_ok_e.on_key_law [OF assms(1) _ assms(6), of l rest msg B] assms(3,4,7) show ?thesis by (auto simp: number_for_def)
qed

lemma ask_list:
  assumes "connected s" "boost_ok B" "answer_ok a" "wire a tx" "listing a"
    "k = route B (connections s) key" "inq s k = tx @ rest" "\<And>n xs t. g (n, xs) t = (Ret (Strings n xs), t)"
  shows "\<exists>s'. bnd (on_key B key msg (\<lambda>fd. recv_multi_bulk_reply B fd [])) g s = (strings_for a, s') \<and>
    moves s s' ((outq s)(k := outq s k @ msg)) ((inq s)(k := rest))"
  using assms(5)[unfolded answer_kinds]
proof (elim disjE exE)
  fix xs assume "a = Multi xs"
  with multi_r.on_key_law [OF assms(1) _ assms(6), of B "(int (length xs), xs)" rest msg] assms(2-4,7,8) show ?thesis
    by (auto simp: strings_for_def)
next
  fix l assume "a = Error l"
  with multi_e.on_key_law [OF assms(1) _ assms(6), of l rest msg B "[]"] assms(3,4,7) show ?thesis
    by (auto simp: strings_for_def)
qed

text \<open>The members of a set come back in order, whatever order the server sends them in.\<close>

lemma string_set_eq: "sorted xs \<Longrightarrow> distinct xs \<Longrightarrow> set ys = set xs \<Longrightarrow> string_set ys = xs"
  using string_set [of ys] by (intro sorted_distinct_set_unique) auto

lemma multi_ok_same_set:
  assumes "multi_ok xs" "distinct xs" "distinct ys" "set ys = set xs"
  shows "multi_ok ys" "length ys = length xs"
  using assms distinct_card [of xs] distinct_card [of ys] by (auto simp: multi_ok_def list_all_iff)

lemma ask_set:
  assumes "connected s" "boost_ok B" "answer_ok a" "wire a tx" "gathering a"
    "k = route B (connections s) key" "inq s k = tx @ rest" "\<And>n xs t. g (n, xs) t = (Ret (Strings n xs), t)"
  shows "\<exists>s'. bnd (on_key B key msg (\<lambda>fd. recv_multi_bulk_reply_set B fd [])) g s = (strings_for a, s') \<and>
    moves s s' ((outq s)(k := outq s k @ msg)) ((inq s)(k := rest))"
  using assms(5)[unfolded answer_kinds]
proof (elim disjE exE)
  fix xs assume a: "a = Set_of xs"
  then obtain ys where ys: "distinct ys" "set ys = set xs" "tx = multi_bulk ys" and xs: "multi_ok xs" "sorted xs" "distinct xs"
    using assms(3,4) by (auto split: option.splits)
  from set_r.on_key_law [OF assms(1) _ assms(6), of B ys rest msg] multi_ok_same_set [OF xs(1,3) ys(1,2)]
    string_set_eq [OF xs(2,3) ys(2)] assms(2,7,8) ys(3) a show ?thesis by (auto simp: strings_for_def)
next
  fix l assume "a = Error l"
  with set_e.on_key_law [OF assms(1) _ assms(6), of l rest msg B "[]"] assms(3,4,7) show ?thesis
    by (auto simp: strings_for_def)
qed

lemma ask_opts:
  assumes "connected s" "boost_ok B" "answer_ok a" "wire a tx" "optional a"
    "k = route B (connections s) key" "inq s k = tx @ rest" "\<And>n xs t. g (n, xs) t = (Ret (Strings (int (length xs)) xs), t)"
  shows "\<exists>s'. bnd (on_key B key msg (\<lambda>fd. recv_multi_bulk_reply B fd [])) g s = (strings_for a, s') \<and>
    moves s s' ((outq s)(k := outq s k @ msg)) ((inq s)(k := rest))"
  using assms(5)[unfolded answer_kinds]
proof (elim disjE exE)
  fix vs assume "a = Opts vs"
  with opt_multi_r.on_key_law [OF assms(1) _ assms(6), of B vs rest msg] assms(2-4,7,8) show ?thesis
    by (auto simp: strings_for_def)
next
  fix l assume "a = Error l"
  with multi_e.on_key_law [OF assms(1) _ assms(6), of l rest msg B "[]"] assms(3,4,7) show ?thesis
    by (auto simp: strings_for_def)
qed

text \<open>What a hash holds comes back in some order, which sorting removes.\<close>

lemma sort_same: "mset ys = mset xs \<Longrightarrow> sort ys = sort xs"
  by (metis sorted_list_of_multiset_mset)

lemma ask_bag:
  assumes "connected s" "boost_ok B" "answer_ok a" "wire a tx" "bagging a"
    "k = route B (connections s) key" "inq s k = tx @ rest" "\<And>n xs t. g (n, xs) t = (Ret (Strings (int (length xs)) (sort xs)), t)"
  shows "\<exists>s'. bnd (on_key B key msg (\<lambda>fd. recv_multi_bulk_reply B fd [])) g s = (strings_for a, s') \<and>
    moves s s' ((outq s)(k := outq s k @ msg)) ((inq s)(k := rest))"
  using assms(5)[unfolded answer_kinds]
proof (elim disjE exE)
  fix xs assume a: "a = Bag xs"
  then obtain ys where ys: "mset ys = mset xs" "tx = multi_bulk ys" using assms(4) by (auto split: option.splits)
  then have "multi_ok ys" "sort ys = sort xs" "length ys = length xs"
    using assms(3) a sort_same mset_eq_setD [OF ys(1)] mset_eq_length [OF ys(1)] by (auto simp: multi_ok_def list_all_iff)
  with multi_r.on_key_law [OF assms(1) _ assms(6), of B "(int (length ys), ys)" rest msg] assms(2,7,8) ys a show ?thesis
    by (auto simp: strings_for_def)
next
  fix l assume "a = Error l"
  with multi_e.on_key_law [OF assms(1) _ assms(6), of l rest msg B "[]"] assms(3,4,7) show ?thesis
    by (auto simp: strings_for_def)
qed

lemma pairs_of_unpaired: "pairs_of ys = Some ps \<Longrightarrow> ys = unpair ps"
  by (induction ys arbitrary: ps rule: pairs_of.induct) (auto simp: unpair_def)

lemma field_pairs_Some: "pairs_of ys = Some ps \<Longrightarrow> field_pairs ys out = Ret (out @ ps)"
  by (induction ys arbitrary: ps out rule: pairs_of.induct) auto

lemma set_unpair: "set (unpair fs) = fst ` set fs \<union> snd ` set fs" "length (unpair fs) = 2 * length fs"
  by (induction fs) (auto simp: unpair_def)

lemma ask_pairs:
  assumes "connected s" "boost_ok B" "answer_ok a" "wire a tx" "pairing a"
    "k = route B (connections s) key" "inq s k = tx @ rest"
    "\<And>n ys ps t. pairs_of ys = Some ps \<Longrightarrow> g (n, ys) t = (Ret (Pairs (sort ps)), t)"
  shows "\<exists>s'. bnd (on_key B key msg (\<lambda>fd. recv_multi_bulk_reply B fd [])) g s = (strings_for a, s') \<and>
    moves s s' ((outq s)(k := outq s k @ msg)) ((inq s)(k := rest))"
  using assms(5)[unfolded answer_kinds]
proof (elim disjE exE)
  fix fs assume a: "a = Pair_bag fs"
  then obtain ys ps where ys: "pairs_of ys = Some ps" "mset ps = mset fs" "tx = multi_bulk ys"
    using assms(4) by (auto split: option.splits)
  then have "multi_ok ys" "sort ps = sort fs"
    using assms(3) a sort_same mset_eq_setD [OF ys(2)] mset_eq_length [OF ys(2)] pairs_of_unpaired [OF ys(1)]
    by (auto simp: multi_ok_def list_all_iff set_unpair)
  with multi_r.on_key_law [OF assms(1) _ assms(6), of B "(int (length ys), ys)" rest msg] assms(2,7) assms(8) [OF ys(1)] ys a
  show ?thesis by (auto simp: strings_for_def)
next
  fix l assume "a = Error l"
  with multi_e.on_key_law [OF assms(1) _ assms(6), of l rest msg B "[]"] assms(3,4,7) show ?thesis
    by (auto simp: strings_for_def)
qed

text \<open>A blocking pop catches the exception for a missing list.\<close>

lemma ask_pop:
  assumes "connected s" "boost_ok B" "answer_ok a" "wire a tx" "popping key a" "a = Timeout \<longrightarrow> 0 < timeout"
    "k = route B (connections s) key" "inq s k = tx @ rest"
  shows "\<exists>s'. bnd (sq (send k msg) (bnd (recv_popped B k timeout) (popped key))) (\<lambda>x. ret (Word x)) s = (popped_for a, s') \<and>
    moves s s' ((outq s)(k := outq s k @ msg)) ((inq s)(k := rest))"
proof -
  have "ready s" "0 < k" using assms(1,7) route_pos by (auto simp: connected_def)
  from send_law [OF this(1), of k msg] obtain t where
    t: "send k msg s = (Ret (), t)" "moves s t ((outq s)(k := outq s k @ msg)) (inq s)" by blast
  have t': "ready t" "inq t k = tx @ rest" using movesD [OF t(2)] assms(8) by auto
  have "\<exists>u. bnd (bnd (recv_popped B k timeout) (popped key)) (\<lambda>x. ret (Word x)) t = (popped_for a, u) \<and> moves t u (outq t) ((inq t)(k := rest))"
    using assms(5)[unfolded answer_kinds]
  proof (elim disjE exE)
    fix x assume "a = Multi [key, x]"
    with multi_r.on_net_law [OF t'(1) _ \<open>0 < k\<close>, of B "(2, [key, x])" rest] t'(2) assms(2-4) show ?thesis
      by (auto simp: recv_popped_def on_key_error_def try_catch_def popped_def popped_for_def)
  next
    assume "a = Timeout"
    with nil_e.on_net_law [OF t'(1) _ \<open>0 < k\<close>, of B rest "[]"] t'(2) assms(2-4,6) show ?thesis
      by (auto simp: recv_popped_def on_key_error_def try_catch_def popped_def popped_for_def)
  next
    fix l assume "a = Error l"
    with multi_e.on_net_law [OF t'(1) _ \<open>0 < k\<close>, of l rest B "[]"] t'(2) assms(2-4) show ?thesis
      by (auto simp: recv_popped_def on_key_error_def try_catch_def popped_for_def)
  qed
  with t movesD [OF t(2)] show ?thesis by (auto simp: bnd_assoc sq_def intro: moves_trans)
qed

text \<open>Every call is one such exchange.\<close>

lemma sq_as_bnd: "sq m n = bnd m (\<lambda>_. n)"
  by (rule ext) (auto simp: bnd_def sq_def split: prod.splits res.splits)

lemmas text_calls = client_set_def client_get_def client_setnx_def client_getset_def client_append_def client_incr_def
  client_decr_def client_incrby_def client_decrby_def client_exists_def client_del_def client_type_def

lemmas list_calls = client_rpush_def client_lpush_def client_llen_def client_lrange_def client_ltrim_def client_lindex_def
  client_lset_def client_lrem_def client_lrem_exact_def client_lpop_def client_rpop_def client_get_list_def

lemmas set_calls = client_sadd_def client_srem_def client_scard_def client_sismember_def client_smembers_def

lemma hmset_cmd: "mc_string (add_fields k fvs) = cmd ''HMSET'' (k # concat (map (\<lambda>(f, x). [f, x]) fvs))"
proof -
  have "mc_lines (foldl (\<lambda>m (f, v). mc_str (mc_str m f) v) m fvs) = mc_lines m @ concat (map (\<lambda>(f, x). [f, x]) fvs)" for m
    by (induction fvs arbitrary: m) auto
  then show ?thesis by (simp add: add_fields_def cmd_def mc_string_def)
qed

lemma hmget_cmd: "mc_string (foldl mc_str (mc_str (new_makecmd ''HMGET'') k) fs) = cmd ''HMGET'' (k # fs)"
  by (simp add: cmd_def)

lemmas hash_calls = client_hset_def client_hget_def client_hsetnx_def client_hdel_def client_hexists_def client_hlen_def
  client_hincrby_def client_hmset_def client_hmget_def hmset_cmd hmget_cmd
  client_hkeys_def client_hvals_def client_hgetall_def

lemmas ask_rules = ask_number ask_done ask_kind ask_word ask_acknowledge ask_list ask_set ask_opts ask_bag ask_pairs

text \<open>The two numbers a call looks at more closely.\<close>

lemma append_number: "fst (text_does (T_append x) v) = Number i \<Longrightarrow> length x \<le> nat i \<and> 0 \<le> i"
  by (auto simp: entry_defs split: option.splits redis_value.splits)

lemma del_number: "fst (text_does T_del v) = Number i \<Longrightarrow> i = 0 \<or> i = 1"
  by (auto simp: flag_def split: if_splits)

lemmas call_shape = list.sel bnd_assoc bnd_ret sq_as_bnd flag_for_def num_for_def

lemma text_call_law:
  assumes "connected s" "boost_ok B" "answer_ok (fst (text_does a v))" "wire (fst (text_does a v)) tx"
    "k = route B (connections s) key" "inq s k = tx @ rest"
  shows "\<exists>s'. text_call B key a s = (text_result a (fst (text_does a v)), s') \<and>
    moves s s' ((outq s)(k := outq s k @ cmd (hd (text_words key a)) (tl (text_words key a)))) ((inq s)(k := rest))"
  by (cases a; simp only: text_call.simps text_calls text_result.simps text_words.simps call_shape boost_okD(1) [OF assms(2)];
      rule ask_rules [OF assms(1,2) _ _ _ assms(5,6)];
      use assms in \<open>auto simp: text_answers bnd_assoc simp del: text_does.simps dest!: append_number del_number\<close>)

lemma list_call_law:
  assumes "connected s" "boost_ok B" "answer_ok (fst (list_does a v))" "wire (fst (list_does a v)) tx"
    "k = route B (connections s) key" "inq s k = tx @ rest"
  shows "\<exists>s'. list_call B key a s = (list_result a (fst (list_does a v)), s') \<and>
    moves s s' ((outq s)(k := outq s k @ cmd (hd (list_words key a)) (tl (list_words key a)))) ((inq s)(k := rest))"
  by (cases a; simp only: list_call.simps list_calls list_result.simps list_words.simps call_shape boost_okD(1) [OF assms(2)];
      rule ask_rules [OF assms(1,2) _ _ _ assms(5,6)]; use assms in \<open>simp add: list_answers del: list_does.simps\<close>)

lemma set_call_law:
  assumes "connected s" "boost_ok B" "answer_ok (fst (set_does a v))" "wire (fst (set_does a v)) tx"
    "k = route B (connections s) key" "inq s k = tx @ rest"
  shows "\<exists>s'. set_call B key a s = (set_result a (fst (set_does a v)), s') \<and>
    moves s s' ((outq s)(k := outq s k @ cmd (hd (set_words key a)) (tl (set_words key a)))) ((inq s)(k := rest))"
  by (cases a; simp only: set_call.simps set_calls set_result.simps set_words.simps call_shape;
      rule ask_rules [OF assms(1,2) _ _ _ assms(5,6)]; use assms in \<open>simp add: set_answers del: set_does.simps\<close>)

lemma hash_call_law:
  assumes "connected s" "boost_ok B" "answer_ok (fst (hash_does a v))" "wire (fst (hash_does a v)) tx"
    "k = route B (connections s) key" "inq s k = tx @ rest"
  shows "\<exists>s'. hash_call B key a s = (hash_result a (fst (hash_does a v)), s') \<and>
    moves s s' ((outq s)(k := outq s k @ cmd (hd (hash_words key a)) (tl (hash_words key a)))) ((inq s)(k := rest))"
proof -
  note shapes = hash_call.simps hash_calls hash_result.simps hash_words.simps call_shape boost_okD(1) [OF assms(2)]
  note ask = ask_rules [OF assms(1,2) _ _ _ assms(5,6)]
  consider (keys) "a = H_hkeys" | (vals) "a = H_hvals" | (all) "a = H_hgetall" | (other) "a \<notin> {H_hkeys, H_hvals, H_hgetall}" by auto
  then show ?thesis
  proof cases
    case keys
    show ?thesis
      by (simp only: keys shapes; rule ask_bag [OF assms(1,2) _ _ _ assms(5,6)];
        use assms keys in \<open>simp add: hash_answers del: hash_does.simps\<close>)
  next
    case vals
    show ?thesis
      by (simp only: vals shapes; rule ask_bag [OF assms(1,2) _ _ _ assms(5,6)];
        use assms vals in \<open>simp add: hash_answers del: hash_does.simps\<close>)
  next
    case all
    show ?thesis
      by (simp only: all shapes; rule ask_pairs [OF assms(1,2) _ _ _ assms(5,6)];
        use assms all in \<open>simp add: hash_answers field_pairs_Some del: hash_does.simps\<close>)
  next
    case other
    show ?thesis
    proof (cases a)
      case H_hkeys then show ?thesis using other by simp
    next
      case H_hvals then show ?thesis using other by simp
    next
      case H_hgetall then show ?thesis using other by simp
    qed (simp only: shapes; rule ask; use assms in \<open>simp add: hash_answers del: hash_does.simps\<close>)+
  qed
qed

lemma block_call_law:
  assumes "connected s" "boost_ok B" "answer_ok (fst (block_does key a v))" "wire (fst (block_does key a v)) tx" "block_valid key a v"
    "k = route B (connections s) key" "inq s k = tx @ rest"
  shows "\<exists>s'. block_call B key a s = (popped_for (fst (block_does key a v)), s') \<and>
    moves s s' ((outq s)(k := outq s k @ cmd (hd (block_words key a)) (tl (block_words key a)))) ((inq s)(k := rest))"
proof -
  have "0 < k" using assms(1,6) route_pos by (auto simp: connected_def)
  then have k: "get_socket B key s = (Ret k, s)" "k \<noteq> - 1"
    using assms(1,6) get_socket_route by (auto simp: connected_def)
  note pop = ask_pop [OF assms(1-4) block_answers _ assms(6,7)]
  show ?thesis
  proof (cases a)
    case (B_blpop t)
    with pop [of t "cmd ''BLPOP'' [key, show_int t]"] k assms(5) show ?thesis
      by (simp add: client_blpop_def block_valid_def boost_okD(1) [OF assms(2)] bnd_assoc)
  next
    case (B_brpop t)
    with pop [of t "cmd ''BRPOP'' [key, show_int t]"] k assms(5) show ?thesis
      by (simp add: client_brpop_def block_valid_def boost_okD(1) [OF assms(2)] bnd_assoc)
  qed
qed

interpretation redis_client: client_api redis_api
proof
  fix p v assume "api_ok redis_api p v"
  then show "api_valid redis_api p v" by (simp add: redis_api_def op_ok_def)
next
  fix s B p v tx k rest
  assume *: "connected s" "boost_ok B" "api_ok redis_api p v" "api_reply redis_api p v tx"
    "k = route B (connections s) (api_key redis_api p)" "inq s k = tx @ rest"
  show "\<exists>s'. api_run redis_api B p s = (fst (api_spec redis_api p v), s') \<and>
      moves s s' ((outq s)(k := outq s k @ api_request redis_api p)) ((inq s)(k := rest))"
  proof (cases p)
    case (On_text key a)
    with text_call_law [of s B a v tx k key rest] * show ?thesis by (simp add: redis_api_def op_ok_def api_request_def)
  next
    case (On_list key a)
    with list_call_law [of s B a v tx k key rest] * show ?thesis by (simp add: redis_api_def op_ok_def api_request_def)
  next
    case (On_set key a)
    with set_call_law [of s B a v tx k key rest] * show ?thesis by (simp add: redis_api_def op_ok_def api_request_def)
  next
    case (On_hash key a)
    with hash_call_law [of s B a v tx k key rest] * show ?thesis by (simp add: redis_api_def op_ok_def api_request_def)
  next
    case (On_block key a)
    with block_call_law [of s B key a v tx k rest] * show ?thesis
      by (simp add: redis_api_def op_ok_def op_valid_def api_request_def)
  qed
qed

text \<open>
  Property C3. Servers shared by clients are one store: in any history of calls on strings, counters,
  lists, sets and hashes, by any number of clients and with keys spread over the servers in any way,
  each call gives its client what the documentation of the commands gives on a single store, the
  exceptions for wrong types and missing elements included; an exception leaves the connection in
  step for the calls that follow. Every server is sent by every client exactly its calls on that
  server's keys, in order; no reply is left over, and at the end the servers hold between them
  exactly the single store.
\<close>

theorem clients_share_one_store:
  assumes "clients_ready redis_api answer holds B srv h sts rest cl"
    "calls_ok redis_api (map snd h) (cluster_map holds srv sts)"
  shows "\<exists>cl'. shared_attempts (call B) h cl = (spec_results redis_api (map snd h) (cluster_map holds srv sts), cl') \<and>
    (\<forall>c. connections (cl' c) = connections (cl c) \<and> inq (cl' c) = rest c \<and>
       outq (cl' c) = (\<lambda>k. outq (cl c) k @ sent_to redis_api (route B (connections (cl c))) (sent_by c h) k)) \<and>
    cluster_map holds srv (states_after redis_api answer srv (map snd h) sts) =
      spec_map redis_api (map snd h) (cluster_map holds srv sts)"
  using redis_client.clients_refine [OF assms] by (simp add: redis_api_def)

section \<open>Objects of the store\<close>

text \<open>Methods that make one call each and their result of its outcome, as a set of calls of their own.\<close>

definition method_api :: "(boost \<Rightarrow> 'm \<Rightarrow> 'b rio) \<Rightarrow> ('m \<Rightarrow> redis_op) \<Rightarrow> ('m \<Rightarrow> outcome \<Rightarrow> 'b res) \<Rightarrow> ('m, redis_value, 'b) api" where
  "method_api run op gives =
     \<lparr>api_key = (\<lambda>m. op_key (op m)), api_words = (\<lambda>m. op_words (op m)), api_run = run,
      api_spec = (\<lambda>m v. (rbnd (op_result (op m) (fst (does (op m) v))) (gives m), snd (does (op m) v))),
      api_reply = (\<lambda>m v. wire (fst (does (op m) v))), api_valid = (\<lambda>m. op_valid (op m)), api_ok = (\<lambda>m. op_ok (op m))\<rparr>"

text \<open>
  A class of objects: each method is a call on the key of its object, and on the entry that stands for
  an abstract state it returns and leaves what the abstract method does.
\<close>

locale redis_object =
  fixes run :: "boost \<Rightarrow> 'm \<Rightarrow> 'b rio" and op :: "'m \<Rightarrow> redis_op" and gives :: "'m \<Rightarrow> outcome \<Rightarrow> 'b res"
    and conc :: "'x \<Rightarrow> redis_value option" and meth :: "'m \<Rightarrow> 'x \<Rightarrow> 'b res \<times> 'x" and good :: "'m \<Rightarrow> 'x \<Rightarrow> bool"
  assumes run_wraps: "run B m = bnd (call B (op m)) (\<lambda>x. lift_res (gives m x))"
    and good_ok: "good m x \<Longrightarrow> op_ok (op m) (conc x)"
    and good_result: "good m x \<Longrightarrow> rbnd (op_result (op m) (fst (does (op m) (conc x)))) (gives m) = fst (meth m x)"
    and good_effect: "good m x \<Longrightarrow> snd (does (op m) (conc x)) = conc (snd (meth m x))"

sublocale redis_object \<subseteq> calls: wrapped_api redis_api "method_api run op gives" op gives
  by unfold_locales (auto simp: method_api_def redis_api_def run_wraps op_ok_def)

sublocale redis_object \<subseteq> objects: object_api "method_api run op gives" conc meth good
  by unfold_locales (auto simp: method_api_def good_ok good_result good_effect)

context redis_object
begin

lemma refines:
  assumes "clients_ready redis_api answer holds B srv (map (apsnd op) h) sts rest cl"
    "objects_ok (\<lambda>m. op_key (op m)) meth good (map snd h) L"
    "\<forall>m\<in>snd ` set h. cluster_map holds srv sts (op_key (op m)) = conc (L (op_key (op m)))"
  shows "\<exists>cl'. shared_attempts (run B) h cl = (object_results (\<lambda>m. op_key (op m)) meth (map snd h) L, cl') \<and>
    (\<forall>c. connections (cl' c) = connections (cl c) \<and> inq (cl' c) = rest c \<and>
       outq (cl' c) = (\<lambda>k. outq (cl c) k @
         sent_to redis_api (route B (connections (cl c))) (sent_by c (map (apsnd op) h)) k)) \<and>
    (\<forall>m\<in>snd ` set h. cluster_map holds srv (states_after redis_api answer srv (map (op \<circ> snd) h) sts) (op_key (op m)) =
       conc (object_states (\<lambda>m. op_key (op m)) meth (map snd h) L (op_key (op m))))"
proof -
  have api: "api_key (method_api run op gives) = (\<lambda>m. op_key (op m))" "api_run (method_api run op gives) B = run B"
    by (simp_all add: method_api_def)
  show ?thesis
    using objects.objects_refine [OF calls.ready_same [OF assms(1)], of L] assms(2,3)
    by (simp add: api calls.states_same calls.sent_same sent_by_apsnd comp_def)
qed

end

section \<open>A server that keeps the contract\<close>

definition commands1 :: "(string \<times> (string \<Rightarrow> redis_op)) list" where
  "commands1 =
     [(''GET'', \<lambda>k. On_text k T_get), (''INCR'', \<lambda>k. On_text k T_incr), (''DECR'', \<lambda>k. On_text k T_decr),
      (''EXISTS'', \<lambda>k. On_text k T_exists), (''DEL'', \<lambda>k. On_text k T_del), (''TYPE'', \<lambda>k. On_text k T_type),
      (''LLEN'', \<lambda>k. On_list k L_llen), (''LPOP'', \<lambda>k. On_list k L_lpop), (''RPOP'', \<lambda>k. On_list k L_rpop),
      (''SCARD'', \<lambda>k. On_set k S_scard), (''SMEMBERS'', \<lambda>k. On_set k S_smembers), (''HLEN'', \<lambda>k. On_hash k H_hlen),
      (''HKEYS'', \<lambda>k. On_hash k H_hkeys), (''HVALS'', \<lambda>k. On_hash k H_hvals), (''HGETALL'', \<lambda>k. On_hash k H_hgetall)]"

definition num :: "string \<Rightarrow> int" where
  "num t = the (read_int t)"

definition commands2 :: "(string \<times> (string \<Rightarrow> string \<Rightarrow> redis_op)) list" where
  "commands2 =
     [(''SET'', \<lambda>k x. On_text k (T_set x)), (''SETNX'', \<lambda>k x. On_text k (T_setnx x)), (''GETSET'', \<lambda>k x. On_text k (T_getset x)),
      (''APPEND'', \<lambda>k x. On_text k (T_append x)), (''INCRBY'', \<lambda>k x. On_text k (T_incrby (num x))),
      (''DECRBY'', \<lambda>k x. On_text k (T_decrby (num x))), (''RPUSH'', \<lambda>k x. On_list k (L_rpush x)),
      (''LPUSH'', \<lambda>k x. On_list k (L_lpush x)), (''LINDEX'', \<lambda>k x. On_list k (L_lindex (num x))),
      (''SADD'', \<lambda>k x. On_set k (S_sadd x)), (''SREM'', \<lambda>k x. On_set k (S_srem x)), (''SISMEMBER'', \<lambda>k x. On_set k (S_sismember x)),
      (''HGET'', \<lambda>k x. On_hash k (H_hget x)), (''HDEL'', \<lambda>k x. On_hash k (H_hdel x)), (''HEXISTS'', \<lambda>k x. On_hash k (H_hexists x)),
      (''BLPOP'', \<lambda>k x. On_block k (B_blpop (num x))), (''BRPOP'', \<lambda>k x. On_block k (B_brpop (num x)))]"

definition commands3 :: "(string \<times> (string \<Rightarrow> string \<Rightarrow> string \<Rightarrow> redis_op)) list" where
  "commands3 =
     [(''LRANGE'', \<lambda>k x y. On_list k (L_lrange (num x) (num y))), (''LTRIM'', \<lambda>k x y. On_list k (L_ltrim (num x) (num y))),
      (''LSET'', \<lambda>k x y. On_list k (L_lset (num x) y)), (''LREM'', \<lambda>k x y. On_list k (L_lrem (num x) y)),
      (''HSET'', \<lambda>k x y. On_hash k (H_hset x y)), (''HSETNX'', \<lambda>k x y. On_hash k (H_hsetnx x y)),
      (''HINCRBY'', \<lambda>k x y. On_hash k (H_hincrby x (num y)))]"

definition op_of :: "string list \<Rightarrow> redis_op option" where
  "op_of ws =
     (case ws of
        c # k # xs \<Rightarrow>
          if c = ''HMSET'' then map_option (\<lambda>fvs. On_hash k (H_hmset fvs)) (pairs_of xs)
          else if c = ''HMGET'' then Some (On_hash k (H_hmget xs))
          else (case xs of
                  [] \<Rightarrow> map_option (\<lambda>f. f k) (map_of commands1 c)
                | [x] \<Rightarrow> map_option (\<lambda>f. f k x) (map_of commands2 c)
                | [x, y] \<Rightarrow> map_option (\<lambda>f. f k x y) (map_of commands3 c)
                | _ \<Rightarrow> None)
      | _ \<Rightarrow> None)"

primrec render_answer :: "answer \<Rightarrow> string" where
  "render_answer Okay = status_line ''OK''"
| "render_answer (Status s) = status_line s"
| "render_answer (Number i) = int_line i"
| "render_answer (Bulk v) = opt_bulk v"
| "render_answer (Multi xs) = multi_bulk xs"
| "render_answer (Set_of xs) = multi_bulk (rev xs)"
| "render_answer (Opts vs) = opt_multi vs"
| "render_answer (Bag xs) = multi_bulk (rev xs)"
| "render_answer (Pair_bag fs) = multi_bulk (unpair (rev fs))"
| "render_answer Timeout = nil_multi"
| "render_answer (Error l) = error_line l"

definition store_server :: "(string \<rightharpoonup> redis_value) \<Rightarrow> string list \<Rightarrow> string \<times> (string \<rightharpoonup> redis_value)" where
  "store_server m ws =
     (case op_of ws of
        None \<Rightarrow> (error_line ''ERR unknown command'', m)
      | Some p \<Rightarrow> (render_answer (fst (does p (m (op_key p)))), m(op_key p := snd (does p (m (op_key p))))))"

lemma num_show [simp]: "num (show_int i) = i"
  by (simp add: num_def)

lemma pairs_of_concat [simp]: "pairs_of (concat (map (\<lambda>(f, x). [f, x]) fvs)) = Some fvs"
  by (induction fvs) auto

lemma pairs_of_unpair [simp]: "pairs_of (unpair fvs) = Some fvs"
  by (simp add: unpair_def)

lemma slice_all [simp]: "slice 0 (- 1) xs = xs"
  by (simp add: slice_def from_end_def)

lemma op_of_words: "\<exists>q. op_of (op_words p) = Some q \<and> op_key q = op_key p \<and> does q = does p"
proof (cases p)
  case (On_text k a)
  then show ?thesis by (cases a) (simp_all add: op_of_def commands1_def commands2_def)
next
  case (On_list k a)
  then show ?thesis by (cases a) (simp_all add: op_of_def commands1_def commands2_def commands3_def fun_eq_iff)
next
  case (On_set k a)
  then show ?thesis by (cases a) (simp_all add: op_of_def commands1_def commands2_def)
next
  case (On_hash k a)
  then show ?thesis by (cases a) (simp_all add: op_of_def commands1_def commands2_def commands3_def)
next
  case (On_block k a)
  then show ?thesis by (cases a) (simp_all add: op_of_def commands2_def fun_eq_iff)
qed

lemma parse_multi_bulk: "parse_request (multi_bulk xs) = Some (xs, [])"
  using parse_header_show [of "CHR ''*''" "length xs" "concat (map bulk xs)"] parse_bulks_concat [of xs "[]"]
  by (simp add: parse_request_def multi_bulk_def)

lemma set_answer: "fst (does p v) = Set_of xs \<Longrightarrow> xs = [] \<or> v = Some (Members xs)"
proof (cases p)
  case (On_text k a)
  then show "fst (does p v) = Set_of xs \<Longrightarrow> ?thesis"
    by (cases a) (auto simp: entry_defs split: option.splits redis_value.splits)
next
  case (On_list k a)
  then show "fst (does p v) = Set_of xs \<Longrightarrow> ?thesis"
    by (cases a) (auto simp: entry_defs split: option.splits redis_value.splits if_splits)
next
  case (On_set k a)
  then show "fst (does p v) = Set_of xs \<Longrightarrow> ?thesis"
    by (cases a) (auto simp: entry_defs split: option.splits redis_value.splits)
next
  case (On_hash k a)
  then show "fst (does p v) = Set_of xs \<Longrightarrow> ?thesis"
    by (cases a) (auto simp: entry_defs split: option.splits redis_value.splits if_splits)
next
  case (On_block k a)
  then show "fst (does p v) = Set_of xs \<Longrightarrow> ?thesis"
    using block_answers [of k a v] by (auto simp: popping_def)
qed

lemma wire_render:
  assumes "op_valid p v"
  shows "wire (fst (does p v)) (render_answer (fst (does p v)))"
proof (cases "fst (does p v)")
  case (Set_of xs)
  from set_answer [OF this] Set_of assms show ?thesis by (auto simp: parse_multi_bulk op_valid_def)
qed (simp_all add: parse_multi_bulk)

lemma store_server: "serves redis_api store_server (\<lambda>m. m)"
proof -
  have "wire (fst (does p (m (op_key p)))) (fst (store_server m (op_words p))) \<and>
      snd (store_server m (op_words p)) = m(op_key p := snd (does p (m (op_key p))))" if "op_valid p (m (op_key p))" for p m
    using op_of_words [of p] wire_render [OF that] by (auto simp: store_server_def)
  then show ?thesis by (simp add: serves_def redis_api_def api_step_def)
qed

text \<open>Clients of two such servers that are empty at first.\<close>

abbreviation demo_route :: "string \<Rightarrow> int" where
  "demo_route \<equiv> route std_boost two_servers"

definition demo_cluster :: "('c \<times> redis_op) list \<Rightarrow> 'c \<Rightarrow> redis" where
  "demo_cluster h c = demo_client (shared_answers redis_api store_server demo_route (\<lambda>_. demo_route) h (\<lambda>_ _. None) c)"

lemma demo_cluster:
  "clients_ready redis_api store_server (\<lambda>m. m) std_boost demo_route h (\<lambda>_ _. None) (\<lambda>_ _. []) (demo_cluster h)"
  using store_server std_boost_ok by (simp add: clients_ready_def demo_cluster_def)

lemma demo_empty [simp]: "cluster_map (\<lambda>m. m) demo_route (\<lambda>_ _. None) = Map.empty"
  by (simp add: cluster_map_def)

text \<open>The definitions that evaluate the specification at a concrete sequence of calls.\<close>

lemmas store_defs = redis_api_def api_step_def entry_defs items_def members_def hash_fields_def slice_def from_end_def
  index_of_def number_of_def lrem_def insort_insert_key_def type_name_def hash_upd_def

lemmas store_ok_defs = op_ok_def op_valid_def counts_def is_number_def is_decimal_def within64_def hash_valid_def block_valid_def
  long_range_def bulk_ok_def multi_ok_def opt_ok_def error_ok_def line_ok_def wrong_type_def

lemmas result_defs = done_for_def kind_for_def number_for_def word_for_def strings_for_def flag_for_def num_for_def
  popped_for_def opt_value_def type_of_name_def

definition demo_history :: "(nat \<times> redis_op) list" where
  "demo_history =
     [(0, On_text ''ab'' (T_set ''7'')), (1, On_text ''ab'' T_incr), (0, On_list ''x'' (L_rpush ''p'')), (1, On_list ''x'' (L_lpush ''q'')),
      (0, On_list ''x'' (L_lrange 0 (- 1))), (0, On_list ''ab'' L_lpop), (1, On_set ''cd'' (S_sadd ''m'')), (1, On_set ''cd'' (S_srem ''n'')),
      (0, On_text ''ab'' T_get), (1, On_text ''x'' T_type), (1, On_block ''x'' (B_blpop 5)), (0, On_hash ''h'' (H_hmset [(''f'', ''1'')])),
      (1, On_hash ''h'' (H_hmget [''g'', ''f''])), (1, On_block ''y'' (B_brpop 5))]"

lemma demo_digits: "read_int ''7'' = Some 7" "show_int 7 = ''7''" "show_int 8 = ''8''"
  by code_simp+

theorem clients_share_one_store_witness:
  "\<exists>cl'. shared_attempts (call std_boost) demo_history (demo_cluster demo_history) =
    ([Ret Unit, Ret (Num 8), Ret (Num 1), Ret (Num 2), Ret (Strings 2 [''q'', ''p'']),
      Throw (protocol_error ''unexpected prefix for bulk reply''), Ret (Flag True),
      Throw (protocol_error ''expecting int reply of 1''), Ret (Word ''8''), Ret (Kind datatype_list), Ret (Word ''q''), Ret Unit,
      Ret (Strings 2 [missing_value, ''1'']), Ret (Word missing_value)], cl')"
proof -
  have "calls_ok redis_api (map snd demo_history) (cluster_map (\<lambda>m. m) demo_route (\<lambda>_ _. None))"
    by (simp add: demo_history_def store_defs store_ok_defs demo_digits)
  from clients_share_one_store [OF demo_cluster this] obtain cl' where
    "shared_attempts (call std_boost) demo_history (demo_cluster demo_history) = (spec_results redis_api (map snd demo_history) Map.empty, cl')"
    by auto
  moreover have "spec_results redis_api (map snd demo_history) Map.empty =
     [Ret Unit, Ret (Num 8), Ret (Num 1), Ret (Num 2), Ret (Strings 2 [''q'', ''p'']),
      Throw (protocol_error ''unexpected prefix for bulk reply''), Ret (Flag True),
      Throw (protocol_error ''expecting int reply of 1''), Ret (Word ''8''), Ret (Kind datatype_list), Ret (Word ''q''), Ret Unit,
      Ret (Strings 2 [missing_value, ''1'']), Ret (Word missing_value)]"
    by (simp add: demo_history_def store_defs result_defs demo_digits)
  ultimately show ?thesis by (intro exI) (simp only:)
qed

end
