(* ===== verification/RedisTests.thy ===== *)
theory RedisTests
  imports RedisCluster
begin

text \<open>
  Two tests of the Redis library, src/HQTEST/tests/test\_lists.cpp and test\_hashes.cpp, as the calls they make
  and what they assert of each. The tests pass against every cluster of servers that keeps the documented
  behaviour, so the specification of the commands says what the authors of the client expect. The last three parts
  of the hash test sort what they get before they look at it; so do the calls \<open>H_hkeys\<close>, \<open>H_hvals\<close> and \<open>H_hgetall\<close>.
\<close>

section \<open>Steps of a test\<close>

text \<open>What a step asserts: that the call returns, or its result, an exception that is caught included.\<close>

datatype expectation = Returns | Gives "outcome res"

definition meets :: "expectation \<Rightarrow> outcome res \<Rightarrow> bool" where
  "meets e r = (case e of Returns \<Rightarrow> (case r of Ret _ \<Rightarrow> True | _ \<Rightarrow> False) | Gives r' \<Rightarrow> r = r')"

type_synonym test_step = "redis_op \<times> expectation"

definition text_step :: "text_op \<Rightarrow> outcome \<Rightarrow> test_step" where
  "text_step a r = (On_text ''list1'' a, Gives (Ret r))"

definition list_step :: "list_op \<Rightarrow> outcome \<Rightarrow> test_step" where
  "list_step a r = (On_list ''list1'' a, Gives (Ret r))"

definition list_run :: "list_op \<Rightarrow> test_step" where
  "list_run a = (On_list ''list1'' a, Returns)"

definition del_run :: test_step where
  "del_run = (On_text ''list1'' T_del, Returns)"

section \<open>test\_lists\<close>

definition test_push :: "test_step list" where
  "test_push =
     [text_step T_exists (Flag False), list_run (L_rpush ''val1''), list_step L_llen (Num 1),
      text_step T_type (Kind datatype_list), list_run (L_rpush ''val2''), list_step L_llen (Num 2),
      list_step (L_lindex 0) (Word ''val1''), list_step (L_lindex 1) (Word ''val2''),
      del_run, text_step T_exists (Flag False), list_run (L_lpush ''val1''), text_step T_type (Kind datatype_list),
      list_step L_llen (Num 1), list_run (L_lpush ''val2''), list_step L_llen (Num 2),
      list_step (L_lindex 0) (Word ''val2''), list_step (L_lindex 1) (Word ''val1'')]"

definition test_llen :: "test_step list" where
  "test_llen =
     [del_run, text_step T_exists (Flag False), list_step L_llen (Num 0), list_run (L_lpush ''x''), list_step L_llen (Num 1),
      list_run (L_lpush ''y''), list_step L_llen (Num 2)]"

definition test_lrange :: "test_step list" where
  "test_lrange =
     [text_step T_exists (Flag True), list_step L_llen (Num 2), list_step (L_lrange 0 (- 1)) (Strings 2 [''y'', ''x'']),
      text_step T_exists (Flag True), list_step L_llen (Num 2), list_step (L_lrange 0 1) (Strings 2 [''y'', ''x'']),
      list_step (L_lrange 0 0) (Strings 1 [''y'']), list_step (L_lrange (- 1) (- 1)) (Strings 1 [''x'']),
      text_step T_exists (Flag True), list_step L_llen (Num 2), list_step L_get_list (Strings 2 [''y'', ''x''])]"

definition test_ltrim :: "test_step list" where
  "test_ltrim =
     [text_step T_exists (Flag True), list_step L_llen (Num 2), list_run (L_ltrim 0 0), text_step T_exists (Flag True),
      list_step L_llen (Num 1), list_step L_get_list (Strings 1 [''y''])]"

definition test_lindex_lset :: "test_step list" where
  "test_lindex_lset =
     [list_step (L_lindex 0) (Word ''y''), list_run (L_rpush ''x''), list_step L_llen (Num 2),
      list_step (L_lindex (- 1)) (Word ''x''), list_step (L_lindex 1) (Word ''x''),
      list_run (L_lset 1 ''z''), list_step (L_lindex 1) (Word ''z''), list_step L_llen (Num 2)]"

definition test_lrem :: "test_step list" where
  "test_lrem =
     [list_run (L_lrem 1 ''z''), list_step L_llen (Num 1), list_step (L_lindex 0) (Word ''y''), list_step (L_lrem 0 ''q'') (Num 0),
      list_run (L_rpush ''z''), list_run (L_rpush ''z''), list_run (L_rpush ''z''), list_run (L_rpush ''a''),
      list_step (L_lrem 2 ''z'') (Num 2), list_step L_llen (Num 3), list_step (L_lindex 0) (Word ''y''),
      list_step (L_lindex 1) (Word ''z''), list_step (L_lindex 2) (Word ''a''), list_run (L_rpush ''z''),
      list_step (L_lrem (- 1) ''z'') (Num 1), list_step L_llen (Num 3), list_step (L_lindex 0) (Word ''y''),
      list_step (L_lindex 1) (Word ''z''), list_step (L_lindex 2) (Word ''a''), list_step (L_lrem 5 ''a'') (Num 1),
      list_step L_llen (Num 2), list_step (L_lindex 0) (Word ''y''), list_step (L_lindex 1) (Word ''z'')]"

definition test_pop :: "test_step list" where
  "test_pop =
     [(On_list ''list1'' (L_lrem_exact 5 ''z''), Gives (Throw (value_error ''failed to remove exactly N elements from list''))),
      list_step L_llen (Num 1), list_step (L_lindex 0) (Word ''y''), list_step L_lpop (Word ''y''),
      list_step L_lpop (Word missing_value), list_run (L_rpush ''hello''), list_run (L_rpush ''world''),
      list_step L_rpop (Word ''world''), list_step L_rpop (Word ''hello''), list_step L_lpop (Word missing_value)]"

definition test_lists :: "test_step list" where
  "test_lists = test_push @ test_llen @ test_lrange @ test_ltrim @ test_lindex_lset @ test_lrem @ test_pop"

section \<open>test\_hashes\<close>

definition hash_step :: "string \<Rightarrow> hash_op \<Rightarrow> outcome \<Rightarrow> test_step" where
  "hash_step k a r = (On_hash k a, Gives (Ret r))"

definition hash_run :: "string \<Rightarrow> hash_op \<Rightarrow> test_step" where
  "hash_run k a = (On_hash k a, Returns)"

definition test_hset :: "test_step list" where
  "test_hset =
     (let h = ''hash1'' in
      [hash_run h (H_hset ''key1'' ''hval1''), hash_run h (H_hset ''key2'' ''hval2''), hash_run h (H_hset ''key3'' ''hval3''),
       (On_text h T_exists, Gives (Ret (Flag True))), (On_text h T_type, Gives (Ret (Kind datatype_hash))), hash_step h H_hlen (Num 3),
       hash_step h (H_hget ''key1'') (Word ''hval1''), hash_step h (H_hget ''key2'') (Word ''hval2''),
       hash_step h (H_hget ''key3'') (Word ''hval3''),
       hash_step h (H_hsetnx ''key1'' ''hvalINVALID'') (Flag False), hash_step h (H_hget ''key1'') (Word ''hval1''),
       hash_step h (H_hsetnx ''key4'' ''hval4'') (Flag True), hash_step h (H_hget ''key4'') (Word ''hval4'')])"

definition test_hmset :: "test_step list" where
  "test_hmset =
     [hash_run ''hash2'' (H_hmset [(''key1'', ''hval1''), (''key2'', ''hval2''), (''key3'', ''hval3'')]),
      hash_step ''hash2'' (H_hmget [''key1'', ''key2'', ''key3'', ''key4'']) (Strings 4 [''hval1'', ''hval2'', ''hval3'', missing_value])]"

definition test_hincrby :: "test_step list" where
  "test_hincrby =
     (let h = ''hash3'' in
      [hash_run h (H_hset ''key1'' ''1''), hash_step h (H_hincrby ''key1'' 1) (Num 2), hash_step h (H_hincrby ''key2'' 1) (Num 1),
       hash_step h (H_hincrby ''key3'' (- 3)) (Num (- 3)), hash_step h (H_hget ''key1'') (Word ''2''),
       hash_step h (H_hget ''key2'') (Word ''1''), hash_step h (H_hget ''key3'') (Word ''-3''),
       hash_step h (H_hexists ''key1'') (Flag True), hash_step h (H_hexists ''key4'') (Flag False),
       hash_step h (H_hdel ''key1'') (Flag True), hash_step h (H_hexists ''key1'') (Flag False),
       hash_step h (H_hdel ''key4'') (Flag False), hash_step h (H_hexists ''key4'') (Flag False),
       hash_run h (H_hset ''key1'' ''hval1''), hash_step h H_hlen (Num 3)])"

definition test_hall :: "test_step list" where
  "test_hall =
     [hash_step ''hash1'' H_hvals (Strings 4 [''hval1'', ''hval2'', ''hval3'', ''hval4'']),
      hash_step ''hash1'' H_hgetall
        (Pairs [(''key1'', ''hval1''), (''key2'', ''hval2''), (''key3'', ''hval3''), (''key4'', ''hval4'')])]"

definition test_hashes :: "test_step list" where
  "test_hashes = test_hset @ test_hmset @ test_hincrby @ [hash_step ''hash4'' H_hlen (Num 0)] @
     [hash_step ''hash3'' H_hkeys (Strings 3 [''key1'', ''key2'', ''key3''])] @ test_hall"

section \<open>The tests pass\<close>

fun passes :: "test_step list \<Rightarrow> redis_value option \<Rightarrow> redis_value option \<Rightarrow> bool" where
  "passes [] v w \<longleftrightarrow> v = w"
| "passes ((p, e) # ts) v w \<longleftrightarrow>
     op_ok p v \<and> meets e (op_result p (fst (does p v))) \<and> passes ts (snd (does p v)) w"

lemma passes_append: "passes ts u v \<Longrightarrow> passes us v w \<Longrightarrow> passes (ts @ us) u w"
  by (induction ts arbitrary: u) auto

lemma remove_first_numeral [simp]:
  "remove_first (numeral n) x [] = []"
  "remove_first (numeral n) x (y # ys) = (if x = y then remove_first (pred_numeral n) x ys else y # remove_first (numeral n) x ys)"
  by (simp_all add: numeral_eq_Suc)

lemmas test_evaluates = meets_def text_step_def list_step_def list_run_def del_run_def store_defs result_defs store_ok_defs

lemma test_push: "passes test_push None (Some (Items [''val2'', ''val1'']))"
  by (simp add: test_push_def test_evaluates)

lemma test_llen: "passes test_llen (Some (Items [''val2'', ''val1''])) (Some (Items [''y'', ''x'']))"
  by (simp add: test_llen_def test_evaluates)

lemma test_lrange: "passes test_lrange (Some (Items [''y'', ''x''])) (Some (Items [''y'', ''x'']))"
  by (simp add: test_lrange_def test_evaluates)

lemma test_ltrim: "passes test_ltrim (Some (Items [''y'', ''x''])) (Some (Items [''y'']))"
  by (simp add: test_ltrim_def test_evaluates)

lemma test_lindex_lset: "passes test_lindex_lset (Some (Items [''y''])) (Some (Items [''y'', ''z'']))"
  by (simp add: test_lindex_lset_def test_evaluates)

lemma test_lrem: "passes test_lrem (Some (Items [''y'', ''z''])) (Some (Items [''y'', ''z'']))"
  by (simp add: test_lrem_def test_evaluates)

lemma test_pop: "passes test_pop (Some (Items [''y'', ''z''])) None"
  by (simp add: test_pop_def test_evaluates)

lemma test_lists: "passes test_lists None None"
  unfolding test_lists_def
  by (intro passes_append) (rule test_push test_llen test_lrange test_ltrim test_lindex_lset test_lrem test_pop)+

lemma test_digits: "read_int ''1'' = Some 1" "show_int 1 = ''1''" "show_int 2 = ''2''" "show_int (- 3) = ''-3''"
  by code_simp+

lemmas hash_evaluates = test_evaluates hash_step_def hash_run_def test_digits

definition hash1 :: "(string \<times> string) list" where
  "hash1 = [(''key4'', ''hval4''), (''key3'', ''hval3''), (''key2'', ''hval2''), (''key1'', ''hval1'')]"

definition hash3 :: "(string \<times> string) list" where
  "hash3 = [(''key1'', ''hval1''), (''key3'', ''-3''), (''key2'', ''1'')]"

lemma test_sorted:
  "sort (map fst hash3) = [''key1'', ''key2'', ''key3'']" "sort (map snd hash1) = [''hval1'', ''hval2'', ''hval3'', ''hval4'']"
  "sort hash1 = rev hash1"
  by code_simp+

lemma test_hset: "passes test_hset None (Some (Fields hash1))"
  by (simp add: test_hset_def hash_evaluates hash1_def)

lemma test_hmset: "\<exists>w. passes test_hmset None w"
  by (simp add: test_hmset_def hash_evaluates)

lemma test_hincrby: "passes test_hincrby None (Some (Fields hash3))"
  by (simp add: test_hincrby_def hash_evaluates hash3_def)

lemma test_hkeys: "passes [hash_step ''hash3'' H_hkeys (Strings 3 [''key1'', ''key2'', ''key3''])] (Some (Fields hash3)) (Some (Fields hash3))"
  using test_sorted(1) by (simp add: hash_evaluates hash3_def)

lemma test_hall: "passes test_hall (Some (Fields hash1)) (Some (Fields hash1))"
  using test_sorted(2,3) by (simp add: test_hall_def hash_evaluates hash1_def unpair_def)

text \<open>The same over the whole store: parts on one key each, one after the other.\<close>

definition store_passes :: "test_step list \<Rightarrow> (string \<rightharpoonup> redis_value) \<Rightarrow> (string \<rightharpoonup> redis_value) \<Rightarrow> bool" where
  "store_passes ts m m' \<longleftrightarrow> calls_ok redis_api (map fst ts) m \<and>
     list_all2 meets (map snd ts) (spec_results redis_api (map fst ts) m) \<and> spec_map redis_api (map fst ts) m = m'"

lemma store_passes_part:
  assumes "passes ts (m k) w" "list_all (\<lambda>(p, e). op_key p = k) ts"
  shows "store_passes ts m (m(k := w))"
  using assms
proof (induction ts arbitrary: m)
  case (Cons t ts)
  obtain p e where t: "t = (p, e)" by (cases t)
  let ?m = "m(k := snd (does p (m k)))"
  have "store_passes ts ?m (?m(k := w))" using Cons t by (intro Cons.IH) auto
  with Cons.prems t show ?case by (simp add: store_passes_def redis_api_def api_step_def del: fun_upd_apply)
qed (auto simp: store_passes_def)

lemma store_passes_append: "store_passes ts m m1 \<Longrightarrow> store_passes us m1 m2 \<Longrightarrow> store_passes (ts @ us) m m2"
proof (induction ts arbitrary: m)
  case (Cons t ts)
  then show ?case by (auto simp: store_passes_def redis_api_def)
qed (simp add: store_passes_def)

lemma test_keys:
  "list_all (\<lambda>(p, e). op_key p = ''list1'') test_lists" "list_all (\<lambda>(p, e). op_key p = ''hash1'') test_hset"
  "list_all (\<lambda>(p, e). op_key p = ''hash2'') test_hmset" "list_all (\<lambda>(p, e). op_key p = ''hash3'') test_hincrby"
  "list_all (\<lambda>(p, e). op_key p = ''hash1'') test_hall"
  by (simp_all add: test_lists_def test_push_def test_llen_def test_lrange_def test_ltrim_def test_lindex_lset_def test_lrem_def
      test_pop_def text_step_def list_step_def list_run_def del_run_def hash_step_def hash_run_def test_hset_def test_hmset_def
      test_hincrby_def test_hall_def Let_def)

lemma tests_pass:
  assumes "\<forall>k\<in>{''list1'', ''hash1'', ''hash2'', ''hash3'', ''hash4''}. m k = None"
  shows "\<exists>m'. store_passes (test_lists @ test_hashes) m m'"
proof -
  obtain v where v: "passes test_hmset None v" using test_hmset by blast
  have len: "passes [hash_step ''hash4'' H_hlen (Num 0)] None None" by (simp add: hash_evaluates)
  show ?thesis
    unfolding test_hashes_def
    by (intro exI store_passes_append)
      (rule store_passes_part [OF _ test_keys(1)] store_passes_part [OF _ test_keys(2)] store_passes_part [OF _ test_keys(3)]
        store_passes_part [OF _ test_keys(4)] store_passes_part [OF _ test_keys(5)] store_passes_part [where k = "''hash4''"]
        store_passes_part [where k = "''hash3''"],
       use assms test_lists test_hset v test_hincrby test_hkeys test_hall len in \<open>auto simp: hash_step_def\<close>)+
qed

text \<open>
  Property C16. The list test and the hash test of the library, one after the other, pass on every cluster of
  servers that keeps the documented behaviour and does not have their keys yet: each of the 116 calls
  returns what the test asserts, up to the exception of \<^verbatim>\<open>lrem_exact\<close> that it catches. The client sends each
  server exactly the requests of these calls on its keys, in order, and no reply is left over.
\<close>

theorem library_tests_pass:
  assumes "serves redis_api answer holds" "connected s" "boost_ok B" "rt = route B (connections s)" "ts = test_lists @ test_hashes"
    "\<forall>k\<in>{''list1'', ''hash1'', ''hash2'', ''hash3'', ''hash4''}. cluster_map holds rt sts k = None"
    "inq s = (\<lambda>k. answers_of redis_api answer rt (map fst ts) sts k @ rest k)"
  shows "\<exists>rs s'. attempts (call B) (map fst ts) s = (rs, s') \<and> list_all2 meets (map snd ts) rs \<and> inq s' = rest \<and>
    outq s' = (\<lambda>k. outq s k @ sent_to redis_api rt (map fst ts) k)"
proof -
  from tests_pass [OF assms(6)] assms(5) have "calls_ok redis_api (map fst ts) (cluster_map holds rt sts)"
    "list_all2 meets (map snd ts) (spec_results redis_api (map fst ts) (cluster_map holds rt sts))"
    by (auto simp: store_passes_def)
  with redis_client.cluster_refines [OF assms(1-4) this(1) assms(7)] show ?thesis by (auto simp: redis_api_def)
qed

theorem library_tests_pass_witness:
  "\<exists>rs s'. attempts (call std_boost) (map fst (test_lists @ test_hashes))
      (demo_client (answers_of redis_api store_server demo_route (map fst (test_lists @ test_hashes)) (\<lambda>_ _. None))) = (rs, s') \<and>
    list_all2 meets (map snd (test_lists @ test_hashes)) rs"
proof -
  let ?s = "demo_client (answers_of redis_api store_server demo_route (map fst (test_lists @ test_hashes)) (\<lambda>_ _. None))"
  have rt: "demo_route = route std_boost (connections ?s)" by simp
  have empty: "\<forall>k\<in>{''list1'', ''hash1'', ''hash2'', ''hash3'', ''hash4''}. cluster_map (\<lambda>m. m) demo_route (\<lambda>_ _. None) k = None" by simp
  have "inq ?s = (\<lambda>k. answers_of redis_api store_server demo_route (map fst (test_lists @ test_hashes)) (\<lambda>_ _. None) k @ [])"
    by (simp del: map_append)
  from library_tests_pass [OF store_server demo_client(4) std_boost_ok rt refl empty this] show ?thesis by blast
qed

end
