(* ===== verification/DistributedValues.thy ===== *)
theory DistributedValues
  imports RedisCluster
begin

text \<open>
  The string and set classes of the Redis library as what they stand for: a \<^verbatim>\<open>distributed_string\<close> is a
  string variable and a \<^verbatim>\<open>distributed_unordered_set\<close> a set. Both are instances of \<open>redis_object\<close>.
\<close>

section \<open>distributed\_string as a variable\<close>

datatype string_method = Str_assign string | Str_str | Str_setnx string | Str_getset string | Str_append string
  | Str_plus_assign string | Str_eq string | Str_neq string | Str_exists | Str_del

datatype string_result = V_unit | V_text string | V_flag bool | V_size nat

primrec string_method_run :: "boost \<Rightarrow> distributed_value \<Rightarrow> string_method \<Rightarrow> string_result rio" where
  "string_method_run B d (Str_assign x) = sq (string_assign B d x) (ret V_unit)"
| "string_method_run B d Str_str = bnd (string_str B d) (\<lambda>x. ret (V_text x))"
| "string_method_run B d (Str_setnx x) = bnd (string_setnx B d x) (\<lambda>b. ret (V_flag b))"
| "string_method_run B d (Str_getset x) = bnd (string_getset B d x) (\<lambda>y. ret (V_text y))"
| "string_method_run B d (Str_append x) = bnd (string_append B d x) (\<lambda>n. ret (V_size n))"
| "string_method_run B d (Str_plus_assign x) = sq (string_plus_assign B d x) (ret V_unit)"
| "string_method_run B d (Str_eq x) = bnd (string_eq B d x) (\<lambda>b. ret (V_flag b))"
| "string_method_run B d (Str_neq x) = bnd (string_neq B d x) (\<lambda>b. ret (V_flag b))"
| "string_method_run B d Str_exists = bnd (value_exists B d) (\<lambda>b. ret (V_flag b))"
| "string_method_run B d Str_del = sq (value_del B d) (ret V_unit)"

text \<open>The abstract object: a string that may not have been set, and reads as the marker then.\<close>

primrec string_does :: "string_method \<Rightarrow> string option \<Rightarrow> string_result res \<times> string option" where
  "string_does (Str_assign x) c = (Ret V_unit, Some x)"
| "string_does Str_str c = (Ret (V_text (opt_value c)), c)"
| "string_does (Str_setnx x) c = (Ret (V_flag (c = None)), Some (case c of None \<Rightarrow> x | Some t \<Rightarrow> t))"
| "string_does (Str_getset x) c = (Ret (V_text (opt_value c)), Some x)"
| "string_does (Str_append x) c = (let t = (case c of None \<Rightarrow> [] | Some t \<Rightarrow> t) @ x in (Ret (V_size (length t)), Some t))"
| "string_does (Str_plus_assign x) c = (Ret V_unit, Some ((case c of None \<Rightarrow> [] | Some t \<Rightarrow> t) @ x))"
| "string_does (Str_eq x) c = (Ret (V_flag (opt_value c = x)), c)"
| "string_does (Str_neq x) c = (Ret (V_flag (opt_value c \<noteq> x)), c)"
| "string_does Str_exists c = (Ret (V_flag (c \<noteq> None)), c)"
| "string_does Str_del c = (Ret V_unit, None)"

primrec string_method_op :: "string_method \<Rightarrow> text_op" where
  "string_method_op (Str_assign x) = T_set x"
| "string_method_op Str_str = T_get"
| "string_method_op (Str_setnx x) = T_setnx x"
| "string_method_op (Str_getset x) = T_getset x"
| "string_method_op (Str_append x) = T_append x"
| "string_method_op (Str_plus_assign x) = T_append x"
| "string_method_op (Str_eq x) = T_get"
| "string_method_op (Str_neq x) = T_get"
| "string_method_op Str_exists = T_exists"
| "string_method_op Str_del = T_del"

definition string_call_of :: "distributed_value \<times> string_method \<Rightarrow> redis_op" where
  "string_call_of = (\<lambda>(d, m). On_text (dkey d) (string_method_op m))"

definition string_method_gives :: "string_method \<Rightarrow> outcome \<Rightarrow> string_result res" where
  "string_method_gives m r =
     Ret (case r of
            Word y \<Rightarrow> (case m of Str_eq x \<Rightarrow> V_flag (y = x) | Str_neq x \<Rightarrow> V_flag (y \<noteq> x) | _ \<Rightarrow> V_text y)
          | Flag b \<Rightarrow> if m = Str_del then V_unit else V_flag b
          | Size n \<Rightarrow> (case m of Str_append x \<Rightarrow> V_size n | _ \<Rightarrow> V_unit)
          | _ \<Rightarrow> V_unit)"

definition text_fits :: "string_method \<Rightarrow> string option \<Rightarrow> bool" where
  "text_fits m c \<longleftrightarrow> opt_ok c \<and> opt_ok (snd (string_does m c))"

lemmas string_methods = string_assign_def string_str_def string_setnx_def string_getset_def string_append_def
  string_plus_assign_def string_eq_def string_neq_def value_exists_def value_del_def

lemma string_method_wraps:
  "string_method_run B d m = bnd (text_call B (dkey d) (string_method_op m)) (\<lambda>x. lift_res (string_method_gives m x))"
  by (cases m) (simp_all add: string_methods bnd_assoc sq_as_bnd string_method_gives_def fun_eq_iff bnd_def split: prod.splits res.splits)

lemma on_text_entry: "on_text f (map_option Text c) = f c"
  by (cases c) (simp_all add: on_text_def)

lemma text_answer_ok: "text_fits m c \<Longrightarrow> answer_ok (fst (text_does (string_method_op m) (map_option Text c)))"
  by (cases m) (auto simp: text_fits_def on_text_entry flag_def long_range_def opt_ok_def bulk_ok_def Let_def)

lemma text_valid: "op_valid (On_text k (string_method_op m)) (map_option Text c)"
  by (cases m; cases c) (simp_all add: op_valid_def counts_def)

lemma string_result:
  "rbnd (text_result (string_method_op m) (fst (text_does (string_method_op m) (map_option Text c)))) (string_method_gives m) =
    fst (string_does m c)"
  by (cases m) (simp_all add: on_text_entry flag_def string_method_gives_def result_defs Let_def)

lemma string_effect: "snd (text_does (string_method_op m) (map_option Text c)) = map_option Text (snd (string_does m c))"
  by (cases m; cases c) (simp_all add: on_text_def Let_def)

interpretation strings: redis_object "\<lambda>B (d, m). string_method_run B d m" string_call_of "\<lambda>(d, m). string_method_gives m"
  "map_option Text" "\<lambda>(d, m). string_does m" "\<lambda>(d, m). text_fits m"
  by unfold_locales (auto simp: string_call_of_def string_method_wraps op_ok_def text_valid text_answer_ok string_result string_effect)

text \<open>
  Property C7. A \<^verbatim>\<open>distributed_string\<close> is a string variable: against servers with the documented
  behaviour, any history of assignments, reads, \<^verbatim>\<open>setnx\<close>, \<^verbatim>\<open>getset\<close>, appends, comparisons, tests of existence and removals
  by any number of clients on any number of such objects returns what it returns on plain variables, where one that is
  not set reads as the marker. Each client sends each server exactly the requests of its calls, in order, and at the end
  the servers hold these strings. (\<^verbatim>\<open>setex\<close>, \<^verbatim>\<open>substr\<close> and the calls of the base class on time and place are not in the history.)
\<close>

theorem distributed_string_is_variable:
  assumes "clients_ready redis_api answer holds B srv (map (apsnd string_call_of) h) sts rest cl"
    "objects_ok (\<lambda>(d, m). dkey d) (\<lambda>(d, m). string_does m) (\<lambda>(d, m). text_fits m) (map snd h) C"
    "\<forall>(c, d, m)\<in>set h. cluster_map holds srv sts (dkey d) = map_option Text (C (dkey d))"
  shows "\<exists>cl'. shared_attempts (\<lambda>(d, m). string_method_run B d m) h cl =
      (object_results (\<lambda>(d, m). dkey d) (\<lambda>(d, m). string_does m) (map snd h) C, cl') \<and>
    (\<forall>c. connections (cl' c) = connections (cl c) \<and> inq (cl' c) = rest c \<and>
       outq (cl' c) = (\<lambda>k. outq (cl c) k @
         sent_to redis_api (route B (connections (cl c))) (sent_by c (map (apsnd string_call_of) h)) k)) \<and>
    (\<forall>(c, d, m)\<in>set h. cluster_map holds srv (states_after redis_api answer srv (map (string_call_of \<circ> snd) h) sts) (dkey d) =
       map_option Text (object_states (\<lambda>(d, m). dkey d) (\<lambda>(d, m). string_does m) (map snd h) C (dkey d)))"
proof -
  have key: "(\<lambda>m. op_key (string_call_of m)) = (\<lambda>(d, m). dkey d)" by (auto simp: string_call_of_def)
  show ?thesis
    using strings.refines [OF assms(1), of C, unfolded key] assms(2,3)
    by (simp add: case_prod_unfold string_call_of_def)
qed

text \<open>The calls of the library's own test of the class, on two objects.\<close>

definition demo_string_calls :: "(nat \<times> distributed_value \<times> string_method) list" where
  "demo_string_calls =
     (let d = new_value ''ab''; e = new_value ''x'' in
      [(0, d, Str_exists), (1, d, Str_eq missing_value), (0, d, Str_assign ''asdf''), (1, d, Str_append ''123''), (0, e, Str_plus_assign ''q''),
       (0, d, Str_neq ''asdf''), (1, d, Str_getset []), (1, e, Str_str), (0, d, Str_del), (0, d, Str_setnx ''a''), (1, d, Str_setnx ''b''),
       (0, d, Str_str)])"

theorem distributed_string_is_variable_witness:
  "\<exists>cl'. shared_attempts (\<lambda>(d, m). string_method_run std_boost d m) demo_string_calls (demo_cluster (map (apsnd string_call_of) demo_string_calls)) =
    ([Ret (V_flag False), Ret (V_flag True), Ret V_unit, Ret (V_size 7), Ret V_unit, Ret (V_flag True), Ret (V_text ''asdf123''),
      Ret (V_text ''q''), Ret V_unit, Ret (V_flag True), Ret (V_flag False), Ret (V_text ''a'')], cl')"
proof -
  let ?meth = "\<lambda>(d, m). string_does m" and ?key = "\<lambda>(d, m). dkey d"
  have "objects_ok ?key ?meth (\<lambda>(d, m). text_fits m) (map snd demo_string_calls) (\<lambda>_. None)"
    by (simp add: demo_string_calls_def Let_def new_value_def text_fits_def opt_ok_def bulk_ok_def)
  from distributed_string_is_variable [OF demo_cluster this] obtain cl' where
    "shared_attempts (\<lambda>(d, m). string_method_run std_boost d m) demo_string_calls (demo_cluster (map (apsnd string_call_of) demo_string_calls)) =
      (object_results ?key ?meth (map snd demo_string_calls) (\<lambda>_. None), cl')"
    by auto
  moreover have "object_results ?key ?meth (map snd demo_string_calls) (\<lambda>_. None) =
      [Ret (V_flag False), Ret (V_flag True), Ret V_unit, Ret (V_size 7), Ret V_unit, Ret (V_flag True), Ret (V_text ''asdf123''),
      Ret (V_text ''q''), Ret V_unit, Ret (V_flag True), Ret (V_flag False), Ret (V_text ''a'')]"
    by (simp add: demo_string_calls_def Let_def new_value_def opt_value_def)
  ultimately show ?thesis by (intro exI) (simp only:)
qed

section \<open>distributed\_unordered\_set as a set\<close>

datatype set_method = Set_insert string | Set_erase string | Set_clear | Set_count | Set_contains string

datatype member_result = M_unit | M_count int | M_flag bool

primrec set_method_run :: "boost \<Rightarrow> distributed_value \<Rightarrow> set_method \<Rightarrow> member_result rio" where
  "set_method_run B d (Set_insert x) = sq (set_insert B d x) (ret M_unit)"
| "set_method_run B d (Set_erase x) = sq (set_erase B d x) (ret M_unit)"
| "set_method_run B d Set_clear = sq (set_clear B d) (ret M_unit)"
| "set_method_run B d Set_count = bnd (set_count B d) (\<lambda>n. ret (M_count n))"
| "set_method_run B d (Set_contains x) = bnd (set_contains B d x) (\<lambda>b. ret (M_flag b))"

text \<open>The abstract object: a set of strings. To erase what is not in the set is an exception.\<close>

primrec set_object_does :: "set_method \<Rightarrow> string set \<Rightarrow> member_result res \<times> string set" where
  "set_object_does (Set_insert x) S = (Ret M_unit, insert x S)"
| "set_object_does (Set_erase x) S =
     (if x \<in> S then Ret M_unit else Throw (protocol_error ''expecting int reply of 1''), S - {x})"
| "set_object_does Set_clear S = (Ret M_unit, {})"
| "set_object_does Set_count S = (Ret (M_count (int (card S))), S)"
| "set_object_does (Set_contains x) S = (Ret (M_flag (x \<in> S)), S)"

primrec set_method_op :: "string \<Rightarrow> set_method \<Rightarrow> redis_op" where
  "set_method_op k (Set_insert x) = On_set k (S_sadd x)"
| "set_method_op k (Set_erase x) = On_set k (S_srem x)"
| "set_method_op k Set_clear = On_text k T_del"
| "set_method_op k Set_count = On_set k S_scard"
| "set_method_op k (Set_contains x) = On_set k (S_sismember x)"

definition set_call_of :: "distributed_value \<times> set_method \<Rightarrow> redis_op" where
  "set_call_of = (\<lambda>(d, m). set_method_op (dkey d) m)"

definition set_method_gives :: "set_method \<Rightarrow> outcome \<Rightarrow> member_result res" where
  "set_method_gives m r =
     Ret (case r of Num n \<Rightarrow> M_count n | Flag b \<Rightarrow> (case m of Set_contains x \<Rightarrow> M_flag b | _ \<Rightarrow> M_unit) | _ \<Rightarrow> M_unit)"

definition set_fits :: "set_method \<Rightarrow> string set \<Rightarrow> bool" where
  "set_fits m S \<longleftrightarrow> finite S \<and> card S < 2 ^ 31"

text \<open>The entry of a set: its elements in order.\<close>

definition set_entry :: "string set \<Rightarrow> redis_value option" where
  "set_entry S = members (sorted_list_of_set S)"

lemmas set_methods = set_insert_def set_erase_def set_clear_def set_count_def set_contains_def value_del_def

lemma set_method_wraps:
  "set_method_run B d m = bnd (call B (set_method_op (dkey d) m)) (\<lambda>x. lift_res (set_method_gives m x))"
  by (cases m) (simp_all add: set_methods bnd_assoc sq_as_bnd set_method_gives_def fun_eq_iff bnd_def split: prod.splits res.splits)

lemma on_members_entry: "on_members f (set_entry S) = f (sorted_list_of_set S)"
  by (simp add: on_members_def set_entry_def members_def)

lemma op_key_set_method: "op_key (set_method_op k m) = k"
  by (cases m) simp_all

lemma sorted_list_insert: "finite S \<Longrightarrow> insort_insert x (sorted_list_of_set S) = sorted_list_of_set (insert x S)"
  by (rule sorted_distinct_set_unique)
    (simp_all add: set_insort_insert sorted_insort_insert insort_insert_key_def distinct_insort sorted_insort set_insort_key
      insert_absorb)

lemma sorted_list_remove: "finite S \<Longrightarrow> removeAll x (sorted_list_of_set S) = sorted_list_of_set (S - {x})"
  by (simp add: sorted_list_of_set_remove distinct_remove1_removeAll)

lemma set_entry_empty [simp]: "set_entry {} = None"
  by (simp add: set_entry_def members_def)

lemma set_entry_sorted: "case set_entry S of Some (Members xs) \<Rightarrow> sorted xs \<and> distinct xs | _ \<Rightarrow> True"
  by (simp add: set_entry_def members_def)

lemma set_method_ok: "set_fits m S \<Longrightarrow> op_ok (set_method_op k m) (set_entry S)"
  using set_entry_sorted [of S]
  by (cases m) (auto simp: op_ok_def op_valid_def counts_def set_fits_def on_members_entry flag_def long_range_def)

lemma set_method_result:
  "set_fits m S \<Longrightarrow> rbnd (op_result (set_method_op k m) (fst (does (set_method_op k m) (set_entry S)))) (set_method_gives m) =
    fst (set_object_does m S)"
  by (cases m) (simp_all add: set_fits_def on_members_entry flag_def set_method_gives_def result_defs)

lemma set_method_effect:
  "set_fits m S \<Longrightarrow> snd (does (set_method_op k m) (set_entry S)) = set_entry (snd (set_object_does m S))"
  by (cases m) (simp_all add: set_fits_def on_members_entry sorted_list_insert sorted_list_remove set_entry_def [symmetric]
      del: sorted_list_of_set_insert_remove)

interpretation sets: redis_object "\<lambda>B (d, m). set_method_run B d m" set_call_of "\<lambda>(d, m). set_method_gives m"
  set_entry "\<lambda>(d, m). set_object_does m" "\<lambda>(d, m). set_fits m"
  by unfold_locales (auto simp: set_call_of_def set_method_wraps set_method_ok set_method_result set_method_effect)

text \<open>
  Property C6. A \<^verbatim>\<open>distributed_unordered_set\<close> is a set: against servers with the documented behaviour,
  any history of \<^verbatim>\<open>insert\<close>, \<^verbatim>\<open>erase\<close>, \<^verbatim>\<open>clear\<close>, \<^verbatim>\<open>count\<close> and \<^verbatim>\<open>contains\<close> by any number of clients on any number of such
  objects returns what it returns on plain sets, but \<^verbatim>\<open>erase\<close> of a string that is not in the set throws. Each client
  sends each server exactly the requests of its calls, in order, and at the end the servers hold these sets.
  (The two calls that pick a member are not in the history; \<^verbatim>\<open>get_random\<close> removes what it returns.)
\<close>

theorem distributed_set_is_set:
  assumes "clients_ready redis_api answer holds B srv (map (apsnd set_call_of) h) sts rest cl"
    "objects_ok (\<lambda>(d, m). dkey d) (\<lambda>(d, m). set_object_does m) (\<lambda>(d, m). set_fits m) (map snd h) S"
    "\<forall>(c, d, m)\<in>set h. cluster_map holds srv sts (dkey d) = set_entry (S (dkey d))"
  shows "\<exists>cl'. shared_attempts (\<lambda>(d, m). set_method_run B d m) h cl =
      (object_results (\<lambda>(d, m). dkey d) (\<lambda>(d, m). set_object_does m) (map snd h) S, cl') \<and>
    (\<forall>c. connections (cl' c) = connections (cl c) \<and> inq (cl' c) = rest c \<and>
       outq (cl' c) = (\<lambda>k. outq (cl c) k @
         sent_to redis_api (route B (connections (cl c))) (sent_by c (map (apsnd set_call_of) h)) k)) \<and>
    (\<forall>(c, d, m)\<in>set h. cluster_map holds srv (states_after redis_api answer srv (map (set_call_of \<circ> snd) h) sts) (dkey d) =
       set_entry (object_states (\<lambda>(d, m). dkey d) (\<lambda>(d, m). set_object_does m) (map snd h) S (dkey d)))"
proof -
  have key: "(\<lambda>m. op_key (set_call_of m)) = (\<lambda>(d, m). dkey d)" by (auto simp: set_call_of_def op_key_set_method)
  show ?thesis
    using sets.refines [OF assms(1), of S, unfolded key] assms(2,3)
    by (simp add: case_prod_unfold set_call_of_def op_key_set_method)
qed

definition demo_set_calls :: "(nat \<times> distributed_value \<times> set_method) list" where
  "demo_set_calls =
     (let d = new_value ''ab''; e = new_value ''x'' in
      [(0, d, Set_insert ''p''), (1, e, Set_insert ''q''), (0, d, Set_insert ''r''), (1, d, Set_insert ''p''), (0, d, Set_count),
       (1, d, Set_contains ''q''), (0, d, Set_erase ''q''), (1, d, Set_erase ''p''), (0, e, Set_contains ''q''), (1, e, Set_clear),
       (0, e, Set_count), (0, d, Set_count)])"

theorem distributed_set_is_set_witness:
  "\<exists>cl'. shared_attempts (\<lambda>(d, m). set_method_run std_boost d m) demo_set_calls (demo_cluster (map (apsnd set_call_of) demo_set_calls)) =
    ([Ret M_unit, Ret M_unit, Ret M_unit, Ret M_unit, Ret (M_count 2), Ret (M_flag False),
      Throw (protocol_error ''expecting int reply of 1''), Ret M_unit, Ret (M_flag True), Ret M_unit, Ret (M_count 0), Ret (M_count 1)], cl')"
proof -
  let ?meth = "\<lambda>(d, m). set_object_does m" and ?key = "\<lambda>(d, m). dkey d"
  have "objects_ok ?key ?meth (\<lambda>(d, m). set_fits m) (map snd demo_set_calls) (\<lambda>_. {})"
    by (simp add: demo_set_calls_def Let_def new_value_def set_fits_def card_insert_if)
  from distributed_set_is_set [OF demo_cluster this] obtain cl' where
    "shared_attempts (\<lambda>(d, m). set_method_run std_boost d m) demo_set_calls (demo_cluster (map (apsnd set_call_of) demo_set_calls)) =
      (object_results ?key ?meth (map snd demo_set_calls) (\<lambda>_. {}), cl')"
    by auto
  moreover have "object_results ?key ?meth (map snd demo_set_calls) (\<lambda>_. {}) =
      [Ret M_unit, Ret M_unit, Ret M_unit, Ret M_unit, Ret (M_count 2), Ret (M_flag False),
      Throw (protocol_error ''expecting int reply of 1''), Ret M_unit, Ret (M_flag True), Ret M_unit, Ret (M_count 0), Ret (M_count 1)]"
    by (simp add: demo_set_calls_def Let_def new_value_def card_insert_if)
  ultimately show ?thesis by (intro exI) (simp only:)
qed

end
