(* ===== verification/DistributedCorrect.thy ===== *)
theory DistributedCorrect
  imports RedisCluster
begin

text \<open>
  The value classes of the Redis library as what they stand for: a \<^verbatim>\<open>distributed_list\<close> is a sequence and a
  \<^verbatim>\<open>distributed_base_int\<close> an integer variable, both kept by the servers. The classes are instances of
  \<open>redis_object\<close> and \<open>object_api\<close>, so that any history of method calls by any number of clients, on any
  number of objects and servers, behaves as the same calls on the abstract objects.
\<close>

section \<open>distributed\_list as a sequence\<close>

datatype list_method = Push_back string | Push_front string | Pop_back | Pop_front | List_size | List_range int int
  | To_vector | List_trim int int | List_index int | List_set int string | Blocking_pop_back int | Blocking_pop_front int

datatype list_result' = L_unit | L_word string | L_size nat | L_vector "string list"

text \<open>The methods of the class, on an object.\<close>

primrec list_method_run :: "boost \<Rightarrow> distributed_value \<Rightarrow> list_method \<Rightarrow> list_result' rio" where
  "list_method_run B d (Push_back x) = sq (push_back B d x) (ret L_unit)"
| "list_method_run B d (Push_front x) = sq (push_front B d x) (ret L_unit)"
| "list_method_run B d Pop_back = bnd (pop_back B d) (\<lambda>x. ret (L_word x))"
| "list_method_run B d Pop_front = bnd (pop_front B d) (\<lambda>x. ret (L_word x))"
| "list_method_run B d List_size = bnd (list_size B d) (\<lambda>n. ret (L_size n))"
| "list_method_run B d (List_range i j) = bnd (list_range B d i j) (\<lambda>xs. ret (L_vector xs))"
| "list_method_run B d To_vector = bnd (to_vector B d) (\<lambda>xs. ret (L_vector xs))"
| "list_method_run B d (List_trim i j) = sq (list_trim B d i j) (ret L_unit)"
| "list_method_run B d (List_index i) = bnd (list_index B d i) (\<lambda>x. ret (L_word x))"
| "list_method_run B d (List_set i x) = sq (list_set B d i x) (ret L_unit)"
| "list_method_run B d (Blocking_pop_back t) = bnd (blocking_pop_back B d t) (\<lambda>x. ret (L_word x))"
| "list_method_run B d (Blocking_pop_front t) = bnd (blocking_pop_front B d t) (\<lambda>x. ret (L_word x))"

text \<open>
  The abstract object: a list of strings. A blocking pop is in a history from the moment it is served: with an
  element, or, when its time is up and the list still empty, with the marker.
\<close>

primrec sequence_does :: "list_method \<Rightarrow> string list \<Rightarrow> list_result' res \<times> string list" where
  "sequence_does (Push_back x) xs = (Ret L_unit, xs @ [x])"
| "sequence_does (Push_front x) xs = (Ret L_unit, x # xs)"
| "sequence_does Pop_back xs = (Ret (L_word (if xs = [] then missing_value else last xs)), butlast xs)"
| "sequence_does Pop_front xs = (Ret (L_word (if xs = [] then missing_value else hd xs)), tl xs)"
| "sequence_does List_size xs = (Ret (L_size (length xs)), xs)"
| "sequence_does (List_range i j) xs = (Ret (L_vector (slice i j xs)), xs)"
| "sequence_does To_vector xs = (Ret (L_vector xs), xs)"
| "sequence_does (List_trim i j) xs = (Ret L_unit, slice i j xs)"
| "sequence_does (List_index i) xs =
     (Ret (L_word (case index_of i (length xs) of None \<Rightarrow> missing_value | Some k \<Rightarrow> xs ! k)), xs)"
| "sequence_does (List_set i x) xs =
     (case index_of i (length xs) of
        None \<Rightarrow> (Throw (protocol_error (if xs = [] then ''no such key'' else ''index out of range'')), xs)
      | Some k \<Rightarrow> (Ret L_unit, xs[k := x]))"
| "sequence_does (Blocking_pop_back t) xs = (Ret (L_word (if xs = [] then missing_value else last xs)), butlast xs)"
| "sequence_does (Blocking_pop_front t) xs = (Ret (L_word (if xs = [] then missing_value else hd xs)), tl xs)"

primrec list_method_op :: "string \<Rightarrow> list_method \<Rightarrow> redis_op" where
  "list_method_op k (Push_back x) = On_list k (L_rpush x)"
| "list_method_op k (Push_front x) = On_list k (L_lpush x)"
| "list_method_op k Pop_back = On_list k L_rpop"
| "list_method_op k Pop_front = On_list k L_lpop"
| "list_method_op k List_size = On_list k L_llen"
| "list_method_op k (List_range i j) = On_list k (L_lrange i j)"
| "list_method_op k To_vector = On_list k (L_lrange 0 (- 1))"
| "list_method_op k (List_trim i j) = On_list k (L_ltrim i j)"
| "list_method_op k (List_index i) = On_list k (L_lindex i)"
| "list_method_op k (List_set i x) = On_list k (L_lset i x)"
| "list_method_op k (Blocking_pop_back t) = On_block k (B_brpop t)"
| "list_method_op k (Blocking_pop_front t) = On_block k (B_blpop t)"

definition list_method_gives :: "list_method \<Rightarrow> outcome \<Rightarrow> list_result' res" where
  "list_method_gives m r =
     Ret (case r of
            Num n \<Rightarrow> if m = List_size then L_size (to_u32 n) else L_unit
          | Word x \<Rightarrow> L_word x
          | Strings n xs \<Rightarrow> L_vector xs
          | _ \<Rightarrow> L_unit)"

text \<open>
  A list whose elements and whose reply fit the 32-bit client, which for a blocking pop holds the key too;
  a pop that waits forever is served with an element.
\<close>

definition pop_served :: "distributed_value \<Rightarrow> int \<Rightarrow> string list \<Rightarrow> bool" where
  "pop_served d t xs \<longleftrightarrow> bulk_ok (dkey d) \<and> (xs = [] \<longrightarrow> 0 < t)"

definition fits :: "distributed_value \<Rightarrow> list_method \<Rightarrow> string list \<Rightarrow> bool" where
  "fits d m xs \<longleftrightarrow> multi_ok xs \<and> multi_ok (snd (sequence_does m xs)) \<and>
     (case m of Blocking_pop_back t \<Rightarrow> pop_served d t xs | Blocking_pop_front t \<Rightarrow> pop_served d t xs | _ \<Rightarrow> True)"

definition list_call_of :: "distributed_value \<times> list_method \<Rightarrow> redis_op" where
  "list_call_of = (\<lambda>(d, m). list_method_op (dkey d) m)"

lemma list_call_key [simp]: "op_key (list_method_op k m) = k"
  by (cases m) simp_all

lemmas list_methods = push_back_def push_front_def pop_back_def pop_front_def list_size_def list_range_def to_vector_def
  list_trim_def list_index_def list_set_def blocking_pop_back_def blocking_pop_front_def

lemma list_method_wraps:
  "list_method_run B d m = bnd (call B (list_method_op (dkey d) m)) (\<lambda>x. lift_res (list_method_gives m x))"
  by (cases m) (simp_all add: list_methods bnd_assoc sq_as_bnd list_method_gives_def case_prod_unfold fun_eq_iff bnd_def
      split: prod.splits res.splits)

lemma multi_ok_slice: "multi_ok xs \<Longrightarrow> multi_ok (slice i j xs)"
  using set_take_subset set_drop_subset by (fastforce simp: multi_ok_def list_all_iff slice_def Let_def)

lemma multi_ok_nth: "multi_ok xs \<Longrightarrow> i < length xs \<Longrightarrow> bulk_ok (xs ! i)"
  by (simp add: multi_ok_def list_all_length)

lemma multi_ok_pair: "multi_ok [k, x] \<longleftrightarrow> bulk_ok k \<and> bulk_ok x"
  by (simp add: multi_ok_def)

lemma multi_ok_range: "multi_ok xs \<Longrightarrow> long_range (int (length xs))"
  by (simp add: multi_ok_def long_range_def)

lemma index_of_less: "index_of i n = Some k \<Longrightarrow> k < n"
  by (auto simp: index_of_def Let_def split: if_splits)

lemma index_of_0 [simp]: "index_of i 0 = None"
  by (simp add: index_of_def Let_def)

lemma on_items_items: "on_items f (items xs) = f xs" if "xs = [] \<Longrightarrow> f xs = f []"
  by (simp add: on_items_def items_def)

lemma errors_ok: "error_ok ''ERR no such key''" "error_ok ''ERR index out of range''"
  by (simp_all add: error_ok_def line_ok_def)

lemma refusals:
  "refusal ''ERR no such key'' = protocol_error ''no such key''"
  "refusal ''ERR index out of range'' = protocol_error ''index out of range''"
  using refusal_ERR [of "''no such key''"] refusal_ERR [of "''index out of range''"] by simp_all

lemma sequence_answer_ok: "fits d m xs \<Longrightarrow> answer_ok (fst (does (list_method_op (dkey d) m) (items xs)))"
  using multi_ok_range [of "snd (sequence_does m xs)"]
  by (cases m) (auto simp: fits_def pop_served_def on_items_items opt_ok_def errors_ok add.commute multi_ok_range multi_ok_slice multi_ok_nth
      last_conv_nth hd_conv_nth multi_ok_pair dest: index_of_less split: option.splits)

lemma sequence_result:
  "fits d m xs \<Longrightarrow> rbnd (op_result (list_method_op k m) (fst (does (list_method_op k m) (items xs)))) (list_method_gives m) =
    fst (sequence_does m xs)"
  by (cases m) (auto simp: fits_def on_items_items list_method_gives_def result_defs refusals to_u32_nonneg
      multi_ok_def split: option.splits)

lemma sequence_effect: "snd (does (list_method_op k m) (items xs)) = items (snd (sequence_does m xs))"
  by (cases m) (auto simp: on_items_items split: option.splits)

lemma items_valid: "op_valid (On_list k a) (items xs)"
  by (simp add: op_valid_def counts_def items_def)

lemma sequence_valid: "fits d m xs \<Longrightarrow> op_valid (list_method_op k m) (items xs)"
proof (cases "\<exists>t. m = Blocking_pop_back t \<or> m = Blocking_pop_front t")
  case True
  then show "fits d m xs \<Longrightarrow> ?thesis"
    by (auto simp: fits_def pop_served_def op_valid_def counts_def items_def block_valid_def on_items_def)
next
  case False
  then show ?thesis by (cases m) (simp_all add: items_valid)
qed

interpretation lists: redis_object "\<lambda>B (d, m). list_method_run B d m" list_call_of "\<lambda>(d, m). list_method_gives m" items
  "\<lambda>(d, m). sequence_does m" "\<lambda>(d, m). fits d m"
  by unfold_locales
    (auto simp: list_call_of_def list_method_wraps op_ok_def sequence_valid sequence_answer_ok sequence_result sequence_effect
      simp del: call.simps)

text \<open>
  Property C4. A \<^verbatim>\<open>distributed_list\<close> is a sequence: against servers with the documented behaviour, any
  history of calls of its methods (push, pop and blocking pop at both ends, \<^verbatim>\<open>size\<close>, \<^verbatim>\<open>range\<close>,
  \<^verbatim>\<open>to_vector\<close>, \<^verbatim>\<open>trim\<close>, index and assignment) by any number of clients on any number of list objects, whichever servers
  their keys live on, returns what the same calls return on plain lists, the marker for a pop or an index outside the
  list and the exception of an assignment there included. Each client sends each server exactly the requests of
  its calls, in order, and at the end the servers hold these lists.
\<close>

theorem distributed_list_is_sequence:
  assumes "clients_ready redis_api answer holds B srv (map (apsnd list_call_of) h) sts rest cl"
    "objects_ok (\<lambda>(d, m). dkey d) (\<lambda>(d, m). sequence_does m) (\<lambda>(d, m). fits d m) (map snd h) L"
    "\<forall>(c, d, m)\<in>set h. cluster_map holds srv sts (dkey d) = items (L (dkey d))"
  shows "\<exists>cl'. shared_attempts (\<lambda>(d, m). list_method_run B d m) h cl =
      (object_results (\<lambda>(d, m). dkey d) (\<lambda>(d, m). sequence_does m) (map snd h) L, cl') \<and>
    (\<forall>c. connections (cl' c) = connections (cl c) \<and> inq (cl' c) = rest c \<and>
       outq (cl' c) = (\<lambda>k. outq (cl c) k @
         sent_to redis_api (route B (connections (cl c))) (sent_by c (map (apsnd list_call_of) h)) k)) \<and>
    (\<forall>(c, d, m)\<in>set h. cluster_map holds srv (states_after redis_api answer srv (map (list_call_of \<circ> snd) h) sts) (dkey d) =
       items (object_states (\<lambda>(d, m). dkey d) (\<lambda>(d, m). sequence_does m) (map snd h) L (dkey d)))"
proof -
  have key: "(\<lambda>m. op_key (list_call_of m)) = (\<lambda>(d, m). dkey d)" by (auto simp: list_call_of_def)
  show ?thesis
    using lists.refines [OF assms(1), of L, unfolded key] assms(2,3)
    by (simp add: case_prod_unfold list_call_of_def)
qed

definition demo_list_calls :: "(nat \<times> distributed_value \<times> list_method) list" where
  "demo_list_calls =
     (let d = new_value ''ab''; e = new_value ''x'' in
      [(0, d, Push_back ''p''), (1, e, Push_front ''q''), (1, d, Push_front ''r''), (0, d, To_vector), (0, e, Pop_back),
       (1, e, List_set 0 ''z''), (0, e, Pop_back), (1, d, Blocking_pop_back 0), (1, e, Blocking_pop_front 5)])"

theorem distributed_list_is_sequence_witness:
  "\<exists>cl'. shared_attempts (\<lambda>(d, m). list_method_run std_boost d m) demo_list_calls (demo_cluster (map (apsnd list_call_of) demo_list_calls)) =
    ([Ret L_unit, Ret L_unit, Ret L_unit, Ret (L_vector [''r'', ''p'']), Ret (L_word ''q''),
      Throw (protocol_error ''no such key''), Ret (L_word missing_value), Ret (L_word ''p''), Ret (L_word missing_value)], cl')"
proof -
  let ?meth = "\<lambda>(d, m). sequence_does m" and ?key = "\<lambda>(d, m). dkey d"
  have "objects_ok ?key ?meth (\<lambda>(d, m). fits d m) (map snd demo_list_calls) (\<lambda>_. [])"
    by (simp add: demo_list_calls_def Let_def new_value_def fits_def pop_served_def multi_ok_def bulk_ok_def)
  from distributed_list_is_sequence [OF demo_cluster this] obtain cl' where
    "shared_attempts (\<lambda>(d, m). list_method_run std_boost d m) demo_list_calls (demo_cluster (map (apsnd list_call_of) demo_list_calls)) =
      (object_results ?key ?meth (map snd demo_list_calls) (\<lambda>_. []), cl')"
    by (auto simp: items_def)
  moreover have "object_results ?key ?meth (map snd demo_list_calls) (\<lambda>_. []) =
      [Ret L_unit, Ret L_unit, Ret L_unit, Ret (L_vector [''r'', ''p'']), Ret (L_word ''q''),
      Throw (protocol_error ''no such key''), Ret (L_word missing_value), Ret (L_word ''p''), Ret (L_word missing_value)]"
    by (simp add: demo_list_calls_def Let_def new_value_def)
  ultimately show ?thesis by (intro exI) (simp only:)
qed

section \<open>distributed\_base\_int as an integer variable\<close>

text \<open>The conversions of an integer type of at most 64 bits, on the numbers \<open>lo\<close> to \<open>hi\<close> it holds.\<close>

definition kind_ok :: "int_kind \<Rightarrow> int \<Rightarrow> int \<Rightarrow> bool" where
  "kind_ok K lo hi \<longleftrightarrow> - (2 ^ 63) \<le> lo \<and> hi < 2 ^ 63 \<and>
     (\<forall>i. lo \<le> i \<and> i \<le> hi \<longrightarrow> int_show K i = show_int i \<and> int_read K (show_int i) = Some i \<and> int_wrap K i = i) \<and>
     int_read K missing_value = None"

datatype int_method = Int_assign int | Int_value | Int_setnx int | Pre_increment | Post_increment | Pre_decrement
  | Post_decrement | Plus_assign int | Minus_assign int

datatype int_result = I_unit | I_num int | I_flag bool

primrec int_method_run :: "boost \<Rightarrow> int_kind \<Rightarrow> distributed_value \<Rightarrow> int_method \<Rightarrow> int_result rio" where
  "int_method_run B K d (Int_assign i) = sq (int_assign B K d i) (ret I_unit)"
| "int_method_run B K d Int_value = bnd (int_value B K d) (\<lambda>i. ret (I_num i))"
| "int_method_run B K d (Int_setnx i) = bnd (int_setnx B K d i) (\<lambda>b. ret (I_flag b))"
| "int_method_run B K d Pre_increment = bnd (pre_increment B K d) (\<lambda>i. ret (I_num i))"
| "int_method_run B K d Post_increment = bnd (post_increment B K d) (\<lambda>i. ret (I_num i))"
| "int_method_run B K d Pre_decrement = bnd (pre_decrement B K d) (\<lambda>i. ret (I_num i))"
| "int_method_run B K d Post_decrement = bnd (post_decrement B K d) (\<lambda>i. ret (I_num i))"
| "int_method_run B K d (Plus_assign i) = bnd (int_plus_assign B K d i) (\<lambda>i. ret (I_num i))"
| "int_method_run B K d (Minus_assign i) = bnd (int_minus_assign B K d i) (\<lambda>i. ret (I_num i))"

text \<open>The abstract object: a variable that may not have been set, and counts from 0 then.\<close>

definition int_of :: "int option \<Rightarrow> int" where
  "int_of c = (case c of None \<Rightarrow> 0 | Some i \<Rightarrow> i)"

primrec variable_does :: "int_method \<Rightarrow> int option \<Rightarrow> int_result res \<times> int option" where
  "variable_does (Int_assign i) c = (Ret I_unit, Some i)"
| "variable_does Int_value c =
     (case c of None \<Rightarrow> Throw (value_error ''value is not of integer type'') | Some i \<Rightarrow> Ret (I_num i), c)"
| "variable_does (Int_setnx i) c = (Ret (I_flag (c = None)), if c = None then Some i else c)"
| "variable_does Pre_increment c = (Ret (I_num (int_of c + 1)), Some (int_of c + 1))"
| "variable_does Post_increment c = (Ret (I_num (int_of c)), Some (int_of c + 1))"
| "variable_does Pre_decrement c = (Ret (I_num (int_of c - 1)), Some (int_of c - 1))"
| "variable_does Post_decrement c = (Ret (I_num (int_of c)), Some (int_of c - 1))"
| "variable_does (Plus_assign i) c = (Ret (I_num (int_of c + i)), Some (int_of c + i))"
| "variable_does (Minus_assign i) c = (Ret (I_num (int_of c - i)), Some (int_of c - i))"

primrec int_method_op :: "int_method \<Rightarrow> text_op" where
  "int_method_op (Int_assign i) = T_set (show_int i)"
| "int_method_op Int_value = T_get"
| "int_method_op (Int_setnx i) = T_setnx (show_int i)"
| "int_method_op Pre_increment = T_incr"
| "int_method_op Post_increment = T_incr"
| "int_method_op Pre_decrement = T_decr"
| "int_method_op Post_decrement = T_decr"
| "int_method_op (Plus_assign i) = T_incrby i"
| "int_method_op (Minus_assign i) = T_decrby i"

primrec int_arg :: "int_method \<Rightarrow> int" where
  "int_arg (Int_assign i) = i"
| "int_arg Int_value = 0"
| "int_arg (Int_setnx i) = i"
| "int_arg Pre_increment = 0"
| "int_arg Post_increment = 0"
| "int_arg Pre_decrement = 0"
| "int_arg Post_decrement = 0"
| "int_arg (Plus_assign i) = i"
| "int_arg (Minus_assign i) = i"

text \<open>Within the range: the argument and the variable before and after.\<close>

definition in_range :: "int \<Rightarrow> int \<Rightarrow> int_method \<Rightarrow> int option \<Rightarrow> bool" where
  "in_range lo hi m c \<longleftrightarrow> lo \<le> int_arg m \<and> int_arg m \<le> hi \<and> lo \<le> int_of c \<and> int_of c \<le> hi \<and>
     lo \<le> int_of (snd (variable_does m c)) \<and> int_of (snd (variable_does m c)) \<le> hi"

definition number_entry :: "int option \<Rightarrow> redis_value option" where
  "number_entry c = map_option (\<lambda>i. Text (show_int i)) c"

definition variable_of :: "redis_value option \<Rightarrow> int option option" where
  "variable_of v =
     (case v of
        None \<Rightarrow> Some None
      | Some (Text t) \<Rightarrow> (case read_int t of None \<Rightarrow> None | Some i \<Rightarrow> if show_int i = t then Some (Some i) else None)
      | _ \<Rightarrow> None)"

lemma variable_of_entry [simp]: "variable_of (number_entry c) = Some c"
  by (cases c) (simp_all add: variable_of_def number_entry_def)

lemma variable_of_SomeD: "variable_of v = Some c \<Longrightarrow> v = number_entry c"
  by (auto simp: variable_of_def number_entry_def split: option.splits redis_value.splits if_splits)

definition int_api :: "int_kind \<Rightarrow> int \<Rightarrow> int \<Rightarrow> (distributed_value \<times> int_method, redis_value, int_result) api" where
  "int_api K lo hi =
     \<lparr>api_key = (\<lambda>(d, m). dkey d), api_words = (\<lambda>(d, m). text_words (dkey d) (int_method_op m)),
      api_run = (\<lambda>B (d, m). int_method_run B K d m),
      api_spec = (\<lambda>(d, m) v. case variable_of v of
          None \<Rightarrow> (Abort Undefined, v) | Some c \<Rightarrow> apsnd number_entry (variable_does m c)),
      api_reply = (\<lambda>(d, m) v. wire (fst (text_does (int_method_op m) v))),
      api_valid = (\<lambda>(d, m) v. op_valid (On_text (dkey d) (int_method_op m)) v \<and> variable_of v \<noteq> None),
      api_ok = (\<lambda>(d, m) v. kind_ok K lo hi \<and> (case variable_of v of None \<Rightarrow> False | Some c \<Rightarrow> in_range lo hi m c))\<rparr>"

lemma bulk_ok_number:
  assumes "- (2 ^ 63) \<le> i" "i < 2 ^ 63"
  shows "bulk_ok (show_int i)"
proof -
  have "length (show_nat (nat \<bar>i\<bar>)) \<le> 20" using assms by (intro length_show_nat) auto
  then show ?thesis by (auto simp: bulk_ok_def show_int_def abs_if split: if_splits)
qed

lemma kind_okD:
  assumes "kind_ok K lo hi" "lo \<le> i" "i \<le> hi"
  shows "int_show K i = show_int i" "int_read K (show_int i) = Some i" "int_wrap K i = i" "bulk_ok (show_int i)"
  using assms bulk_ok_number [of i] by (auto simp: kind_ok_def)

lemma counting:
  "text_does T_incr (number_entry c) = count (int_of c + 1)" "text_does T_decr (number_entry c) = count (int_of c - 1)"
  "text_does (T_incrby i) (number_entry c) = count (int_of c + i)" "text_does (T_decrby i) (number_entry c) = count (int_of c - i)"
  "text_does T_get (number_entry c) = (Bulk (map_option show_int c), number_entry c)"
  by (cases c; simp add: on_text_def number_of_def number_entry_def int_of_def)+

text \<open>The counting calls read the number with the conversion of the integer type.\<close>

lemma ask_count:
  assumes "connected s" "kind_ok K lo hi" "lo \<le> i" "i \<le> hi" "k = route B (connections s) key" "inq s k = int_line i @ rest"
    "\<And>t. g i t = (Ret r, t)"
  shows "\<exists>s'. bnd (on_key B key msg (recv_int_reply_T (int_read K))) g s = (Ret r, s') \<and>
    moves s s' ((outq s)(k := outq s k @ msg)) ((inq s)(k := rest))"
  using int_T_r.on_key_law [OF assms(1) TrueI assms(5,6), of msg "int_read K"] kind_okD(2) [OF assms(2-4)] assms(7)
  by (auto simp: cast_def)

lemmas int_methods = int_assign_def int_value_def int_setnx_def pre_increment_def post_increment_def pre_decrement_def
  post_decrement_def int_plus_assign_def int_minus_assign_def client_incr_T_def client_decr_T_def client_incrby_T_def
  client_decrby_T_def client_set_def client_get_def client_setnx_def

lemma int_method_law:
  assumes "connected s" "boost_ok B" "kind_ok K lo hi" "in_range lo hi m c" "wire (fst (text_does (int_method_op m) (number_entry c))) tx"
    "k = route B (connections s) (dkey d)" "inq s k = tx @ rest"
  shows "\<exists>s'. int_method_run B K d m s = (fst (variable_does m c), s') \<and>
    moves s s' ((outq s)(k := outq s k @ cmd (hd (text_words (dkey d) (int_method_op m))) (tl (text_words (dkey d) (int_method_op m)))))
      ((inq s)(k := rest))"
proof -
  have shown: "m = Plus_assign i \<Longrightarrow> int_show K i = show_int i" "m = Minus_assign i \<Longrightarrow> int_show K i = show_int i" for i
    using kind_okD(1) [OF assms(3), of i] assms(4) by (simp_all add: in_range_def)
  show ?thesis
  proof (cases m)
    case (Int_assign i)
    with ok_r.on_key_law [OF assms(1) TrueI assms(6), of rest "cmd ''SET'' [dkey d, show_int i]"] kind_okD [OF assms(3), of i] assms(4,5,7)
    show ?thesis by (auto simp: int_methods in_range_def)
  next
    case Int_value
    note D = kind_okD [OF assms(3), of "int_of c"] assms(3) [unfolded kind_ok_def]
    have "opt_ok (map_option show_int c)"
      using D assms(4) Int_value by (cases c) (auto simp: opt_ok_def in_range_def int_of_def)
    with opt_r.on_key_law [OF assms(1) _ assms(6), of B "map_option show_int c" rest "cmd ''GET'' [dkey d]"] Int_value assms(2,5,7) D
      assms(4) show ?thesis
      by (cases c) (auto simp: int_methods counting to_int_type_def cast_def opt_value_def in_range_def int_of_def
          simp del: text_does.simps)
  next
    case (Int_setnx i)
    let ?b = "if c = None then 1 else 0"
    have "long_range ?b" by (simp add: long_range_def)
    with int_r.on_key_law [OF assms(1) _ assms(6), of B ?b rest "cmd ''SETNX'' [dkey d, show_int i]"] Int_setnx assms(2,5,7)
      kind_okD(1) [OF assms(3), of i] assms(4) show ?thesis
      by (cases c) (auto simp: int_methods flag_def number_entry_def in_range_def bnd_assoc)
  qed (simp only: int_method_run.simps int_methods shown bnd_assoc variable_does.simps int_method_op.simps text_words.simps list.sel fst_conv;
      rule ask_count [OF assms(1,3) _ _ assms(6)];
      use assms(4,5,7) kind_okD(3) [OF assms(3)] in
      \<open>auto simp: in_range_def counting count_def int_of_def [of "Some _"] bnd_assoc simp del: text_does.simps\<close>)+
qed

lemma int_method_effect: "snd (text_does (int_method_op m) (number_entry c)) = number_entry (snd (variable_does m c))"
proof (cases "\<exists>i. m = Int_assign i \<or> m = Int_setnx i")
  case True
  then show ?thesis by (cases c) (auto simp: number_entry_def)
next
  case False
  then show ?thesis by (cases m) (simp_all add: counting count_def number_entry_def [of "Some _"] del: text_does.simps)
qed

lemma int_method_valid:
  assumes "kind_ok K lo hi" "in_range lo hi m c"
  shows "op_valid (On_text k (int_method_op m)) (number_entry c)"
proof -
  have num: "is_number (number_entry c)" by (cases c) (simp_all add: is_number_def is_decimal_def number_entry_def)
  have lim: "- (2 ^ 63) \<le> lo" "hi < 2 ^ 63" using assms(1) by (auto simp: kind_ok_def)
  have "case number_entry c of Some (Members xs) \<Rightarrow> sorted xs \<and> distinct xs | _ \<Rightarrow> True"
    by (cases c) (simp_all add: number_entry_def)
  moreover have "counts (On_text k (int_method_op m)) \<longrightarrow>
      within64 (fst (text_does (int_method_op m) (number_entry c)))"
    using assms(2) lim by (cases m) (auto simp: within64_def counts_def counting count_def in_range_def int_of_def [of "Some _"] simp del: text_does.simps)
  ultimately show ?thesis using num by (simp add: op_valid_def)
qed

definition int_call_of :: "distributed_value \<times> int_method \<Rightarrow> redis_op" where
  "int_call_of = (\<lambda>(d, m). On_text (dkey d) (int_method_op m))"

interpretation int_calls: same_requests redis_api "int_api K lo hi" int_call_of for K lo hi
  by unfold_locales (auto simp: int_call_of_def int_api_def redis_api_def int_method_effect apsnd_def map_prod_def case_prod_unfold
      dest!: variable_of_SomeD simp del: text_does.simps)

interpretation int_client: client_api "int_api K lo hi" for K lo hi
proof
  fix p v assume "api_ok (int_api K lo hi) p v"
  then show "api_valid (int_api K lo hi) p v"
    using int_method_valid by (cases p) (auto simp: int_api_def dest!: variable_of_SomeD split: option.splits)
next
  fix s B p v tx k rest
  assume *: "connected s" "boost_ok B" "api_ok (int_api K lo hi) p v" "api_reply (int_api K lo hi) p v tx"
    "k = route B (connections s) (api_key (int_api K lo hi) p)" "inq s k = tx @ rest"
  obtain d m where p: "p = (d, m)" by (cases p)
  from *(3) p obtain c where c: "v = number_entry c" "kind_ok K lo hi" "in_range lo hi m c"
    by (auto simp: int_api_def dest!: variable_of_SomeD split: option.splits)
  from int_method_law [OF *(1,2) c(2,3), of tx k d rest] * p c(1) show
    "\<exists>s'. api_run (int_api K lo hi) B p s = (fst (api_spec (int_api K lo hi) p v), s') \<and>
      moves s s' ((outq s)(k := outq s k @ api_request (int_api K lo hi) p)) ((inq s)(k := rest))"
    by (simp add: int_api_def api_request_def)
qed

interpretation int_objects: object_api "int_api K lo hi" number_entry "\<lambda>(d, m). variable_does m"
  "\<lambda>(d, m) c. kind_ok K lo hi \<and> in_range lo hi m c" for K lo hi
  by unfold_locales (auto simp: int_api_def apsnd_def map_prod_def case_prod_unfold)

text \<open>
  Property C5. A \<^verbatim>\<open>distributed_base_int\<close> is an integer variable: against servers with the documented
  behaviour, any history of assignments, \<^verbatim>\<open>setnx\<close>, reads, \<^verbatim>\<open>++\<close> and \<^verbatim>\<open>--\<close> in both forms, \<^verbatim>\<open>+=\<close> and \<^verbatim>\<open>-=\<close> by any number
  of clients on any number of such objects returns what it returns on plain variables, as long as all values fit the integer
  type: the prefix operators the new value, the postfix ones the old, a read of a variable that was
  never set an exception. Each client sends each server exactly the requests of its calls, in order, and at the
  end the servers hold the texts of these numbers.
\<close>

theorem distributed_int_is_variable:
  assumes "clients_ready redis_api answer holds B srv (map (apsnd int_call_of) h) sts rest cl" "kind_ok K lo hi"
    "objects_ok (\<lambda>(d, m). dkey d) (\<lambda>(d, m). variable_does m) (\<lambda>(d, m). in_range lo hi m) (map snd h) C"
    "\<forall>(c, d, m)\<in>set h. cluster_map holds srv sts (dkey d) = number_entry (C (dkey d))"
  shows "\<exists>cl'. shared_attempts (\<lambda>(d, m). int_method_run B K d m) h cl =
      (object_results (\<lambda>(d, m). dkey d) (\<lambda>(d, m). variable_does m) (map snd h) C, cl') \<and>
    (\<forall>c. connections (cl' c) = connections (cl c) \<and> inq (cl' c) = rest c \<and>
       outq (cl' c) = (\<lambda>k. outq (cl c) k @
         sent_to redis_api (route B (connections (cl c))) (sent_by c (map (apsnd int_call_of) h)) k)) \<and>
    (\<forall>(c, d, m)\<in>set h. cluster_map holds srv (states_after redis_api answer srv (map (int_call_of \<circ> snd) h) sts) (dkey d) =
       number_entry (object_states (\<lambda>(d, m). dkey d) (\<lambda>(d, m). variable_does m) (map snd h) C (dkey d)))"
proof -
  have api: "api_key (int_api K lo hi) = (\<lambda>(d, m). dkey d)" "api_run (int_api K lo hi) B = (\<lambda>(d, m). int_method_run B K d m)"
    by (simp_all add: int_api_def)
  show ?thesis
    using int_objects.objects_refine [OF int_calls.ready_same [OF assms(1)], of K lo hi C] assms(2-4)
    by (simp add: api int_calls.states_same int_calls.sent_same sent_by_apsnd comp_def case_prod_unfold)
qed

text \<open>\<^verbatim>\<open>int\<close> of 32 bits, and the first object of the library's own test of these classes.\<close>

definition int32_kind :: int_kind where
  "int32_kind =
     \<lparr>int_show = show_int,
      int_read = (\<lambda>t. case read_int t of Some i \<Rightarrow> if - (2 ^ 31) \<le> i \<and> i < 2 ^ 31 then Some i else None | None \<Rightarrow> None),
      int_wrap = (\<lambda>i. signed_take_bit 31 i)\<rparr>"

lemma int32_kind_ok: "kind_ok int32_kind (- (2 ^ 31)) (2 ^ 31 - 1)"
proof -
  have "read_int missing_value = None" by code_simp
  then show ?thesis by (auto simp: kind_ok_def int32_kind_def signed_take_bit_int_eq_self)
qed

definition demo_int_calls :: "(nat \<times> distributed_value \<times> int_method) list" where
  "demo_int_calls =
     (let d = new_value ''sh_int1''; e = new_value ''si'' in
      [(0, d, Int_value), (1, d, Int_setnx 123), (0, d, Int_value), (2, d, Post_increment), (0, e, Pre_decrement), (0, d, Pre_increment),
       (1, d, Minus_assign 125), (0, d, Plus_assign 314), (1, d, Minus_assign 628), (1, d, Int_value), (2, d, Int_setnx 1),
       (1, e, Post_decrement)])"

theorem distributed_int_is_variable_witness:
  "\<exists>cl'. shared_attempts (\<lambda>(d, m). int_method_run std_boost int32_kind d m) demo_int_calls (demo_cluster (map (apsnd int_call_of) demo_int_calls)) =
    ([Throw (value_error ''value is not of integer type''), Ret (I_flag True), Ret (I_num 123), Ret (I_num 123), Ret (I_num (- 1)),
      Ret (I_num 125), Ret (I_num 0), Ret (I_num 314), Ret (I_num (- 314)), Ret (I_num (- 314)), Ret (I_flag False),
      Ret (I_num (- 1))], cl')"
proof -
  let ?meth = "\<lambda>(d, m). variable_does m" and ?key = "\<lambda>(d, m). dkey d"
  have "objects_ok ?key ?meth (\<lambda>(d, m). in_range (- (2 ^ 31)) (2 ^ 31 - 1) m) (map snd demo_int_calls) (\<lambda>_. None)"
    by (simp add: demo_int_calls_def Let_def new_value_def in_range_def int_of_def)
  from distributed_int_is_variable [OF demo_cluster int32_kind_ok this] obtain cl' where
    "shared_attempts (\<lambda>(d, m). int_method_run std_boost int32_kind d m) demo_int_calls (demo_cluster (map (apsnd int_call_of) demo_int_calls)) =
      (object_results ?key ?meth (map snd demo_int_calls) (\<lambda>_. None), cl')"
    by (auto simp: number_entry_def)
  moreover have "object_results ?key ?meth (map snd demo_int_calls) (\<lambda>_. None) =
      [Throw (value_error ''value is not of integer type''), Ret (I_flag True), Ret (I_num 123), Ret (I_num 123), Ret (I_num (- 1)),
      Ret (I_num 125), Ret (I_num 0), Ret (I_num 314), Ret (I_num (- 314)), Ret (I_num (- 314)), Ret (I_flag False),
      Ret (I_num (- 1))]"
    by (simp add: demo_int_calls_def Let_def new_value_def int_of_def)
  ultimately show ?thesis by (intro exI) (simp only:)
qed

end
