(* ===== verification/DistributedMutex.thy ===== *)
theory DistributedMutex
  imports Distributed
begin

text \<open>
  The sequence and mutex classes of src/HQTEST/redisclient.h. Their source is switched off and marked as
  not yet working; what the mutex does, and what is wrong with it, is shown in \<open>MutexCorrect\<close> and
  \<open>MutexLock\<close>. Two methods of the sequence do not compile when they are used, and are left out: \<^verbatim>\<open>get_next_value\<close>
  returns a \<^verbatim>\<open>boost::optional\<close> where its value is declared, and \<^verbatim>\<open>seek\<close> a value from a \<^verbatim>\<open>void\<close> function. Boost's
  \<^verbatim>\<open>time_duration::total_seconds\<close> is the parameter \<open>TS\<close> of the code that calls it, on durations in microseconds.
\<close>

section \<open>distributed\_base\_sequence\<close>

record base_sequence =
  shr_int :: distributed_value
  cur_val :: "int option"

definition new_sequence :: "string \<Rightarrow> base_sequence" where
  "new_sequence n = \<lparr>shr_int = new_value n, cur_val = None\<rparr>"

definition new_sequence_from :: "boost \<Rightarrow> int_kind \<Rightarrow> string \<Rightarrow> int \<Rightarrow> base_sequence rio" where
  "new_sequence_from B K n initial_value =
     bnd (new_int B K n initial_value) (\<lambda>d. ret \<lparr>shr_int = d, cur_val = None\<rparr>)"

definition get_global_max_value :: "boost \<Rightarrow> int_kind \<Rightarrow> base_sequence \<Rightarrow> int rio" where
  "get_global_max_value B K q = bnd (int_value B K (shr_int q)) (\<lambda>i. ret (int_wrap K (i - 1)))"

definition get_current_local_value :: "base_sequence \<Rightarrow> int res" where
  "get_current_local_value q = (case cur_val q of None \<Rightarrow> Abort AssertFailed | Some i \<Rightarrow> Ret i)"

section \<open>distributed\_mutex\<close>

record mutex =
  mutex_name :: string
  token :: string

text \<open>
  Some of the methods read the clock: the client, the readings to come in microseconds since 1970, and how
  many were taken.
\<close>

record timed_client =
  cli :: redis
  now :: "nat \<Rightarrow> int"
  ticks :: nat

type_synonym 'a tio = "(timed_client, 'a) io"

definition on_cli :: "'a rio \<Rightarrow> 'a tio" where
  "on_cli m w = (case m (cli w) of (r, s) \<Rightarrow> (r, w\<lparr>cli := s\<rparr>))"

definition system_time :: "int tio" where
  "system_time w = (Ret (now w (ticks w)), w\<lparr>ticks := ticks w + 1\<rparr>)"

definition TIMEOUT_SEC :: int where
  "TIMEOUT_SEC = 60"

text \<open>The clock of the stamps counts whole seconds; the stamp is cut to 32 bits.\<close>

definition tstamp_val :: "(int \<Rightarrow> int) \<Rightarrow> int \<Rightarrow> int tio" where
  "tstamp_val TS in_future =
     bnd system_time (\<lambda>t. ret (wrap_long (TS ((t div 1000000 + in_future) * 1000000))))"

definition list_name :: "mutex \<Rightarrow> string" where
  "list_name mx = mutex_name mx @ '':list''"

definition new_mutex :: "(int \<Rightarrow> int) \<Rightarrow> boost \<Rightarrow> string \<Rightarrow> mutex tio" where
  "new_mutex TS B n =
     (let mx = \<lparr>mutex_name = n, token = []\<rparr>
      in bnd (tstamp_val TS TIMEOUT_SEC) (\<lambda>t.
         bnd (on_cli (client_setnx B n (show_long B t))) (\<lambda>fresh.
         sq (if fresh then sq (on_cli (client_rpush B (list_name mx) (show_long B t))) (ret ()) else ret ()) (ret mx))))"

text \<open>
  One turn of the loop of \<^verbatim>\<open>lock\<close>: the stamp it leaves with, or nothing when it goes round again. The
  difference of the stamps is computed in 32 bits, where an overflow is undefined.
\<close>

definition lock_wait :: "boost \<Rightarrow> mutex \<Rightarrow> int \<Rightarrow> int \<Rightarrow> string tio" where
  "lock_wait B mx stamp timeout_tstamp =
     (let diff = stamp - timeout_tstamp
      in if wrap_long diff \<noteq> diff then abort Undefined
         else on_cli (client_blpop B (list_name mx) (if diff < 1 then 1 else diff)))"

definition lock_renew :: "(int \<Rightarrow> int) \<Rightarrow> boost \<Rightarrow> mutex \<Rightarrow> unit tio" where
  "lock_renew TS B mx =
     bnd (tstamp_val TS TIMEOUT_SEC) (\<lambda>t.
       sq (on_cli (client_set B (mutex_name mx) (show_long B t)))
          (sq (on_cli (client_rpush B (list_name mx) (show_long B t))) (ret ())))"

definition lock_turn :: "(int \<Rightarrow> int) \<Rightarrow> boost \<Rightarrow> mutex \<Rightarrow> string option tio" where
  "lock_turn TS B mx =
     bnd (on_cli (client_get B (mutex_name mx))) (\<lambda>stamp.
     bnd (lift_res (cast (cast_long B) stamp)) (\<lambda>timeout_tstamp.
     bnd (tstamp_val TS TIMEOUT_SEC) (\<lambda>t.
     bnd (lock_wait B mx t timeout_tstamp) (\<lambda>tok.
     bnd (on_cli (client_get B (mutex_name mx))) (\<lambda>cur.
       if tok = missing_value then sq (if stamp = cur then lock_renew TS B mx else ret ()) (ret None)
       else ret (if tok = cur then Some cur else None))))))"

text \<open>The fuel bounds the turns, those of the nested calls included; running out of it is no result.\<close>

fun lock :: "(int \<Rightarrow> int) \<Rightarrow> nat \<Rightarrow> boost \<Rightarrow> mutex \<Rightarrow> mutex option tio" where
  "lock TS 0 B mx = ret None"
| "lock TS (Suc n) B mx =
     bnd (lock_turn TS B mx) (\<lambda>r.
       case r of
         None \<Rightarrow> lock TS n B mx
       | Some stamp \<Rightarrow>
           bnd (tstamp_val TS TIMEOUT_SEC) (\<lambda>t.
           bnd (on_cli (client_getset B (mutex_name mx) stamp)) (\<lambda>val.
             if stamp \<noteq> val then bnd (lock TS n B mx) (\<lambda>r. ret (map_option (\<lambda>mx'. mx'\<lparr>token := show_long B t\<rparr>) r))
             else ret (Some (mx\<lparr>token := show_long B t\<rparr>)))))"

definition unlock :: "boost \<Rightarrow> mutex \<Rightarrow> mutex rio" where
  "unlock B mx = sq (client_rpush B (list_name mx) (token mx)) (ret (mx\<lparr>token := []\<rparr>))"

definition try_lock :: "boost \<Rightarrow> mutex \<Rightarrow> bool rio" where
  "try_lock B mx = bnd (client_lpop B (list_name mx)) (\<lambda>x. if x \<noteq> missing_value then ret True else ret False)"

text \<open>The timed lock for a duration, and until a time; both end in the same way.\<close>

definition timed_lock :: "(int \<Rightarrow> int) \<Rightarrow> boost \<Rightarrow> mutex \<Rightarrow> int \<Rightarrow> bool rio" where
  "timed_lock TS B mx dur =
     bnd (client_blpop B (list_name mx) (max (TS dur) 1)) (\<lambda>res. if res = missing_value then ret False else ret False)"

definition timed_lock_until :: "(int \<Rightarrow> int) \<Rightarrow> boost \<Rightarrow> mutex \<Rightarrow> int \<Rightarrow> bool tio" where
  "timed_lock_until TS B mx abs_time = bnd system_time (\<lambda>t. on_cli (timed_lock TS B mx (abs_time - t)))"

end
