(* ===== verification/MutexCorrect.thy ===== *)
theory MutexCorrect
  imports DistributedCorrect DistributedMutex
begin

text \<open>
  What the mutex class of the Redis library does, for any number of clients: the methods that make one call
  each are those of a lock with one holder, except for \<^verbatim>\<open>timed_lock\<close>. The class is an instance of \<open>redis_object\<close>,
  for every behaviour \<open>TS\<close> of \<^verbatim>\<open>total_seconds\<close>.
\<close>

section \<open>distributed\_mutex: try\_lock, unlock and timed\_lock\<close>

datatype mutex_method = Try_lock | Unlock | Timed_lock int

datatype mutex_result = M_flag bool | M_object mutex

primrec mutex_run :: "(int \<Rightarrow> int) \<Rightarrow> boost \<Rightarrow> mutex \<Rightarrow> mutex_method \<Rightarrow> mutex_result rio" where
  "mutex_run TS B mx Try_lock = bnd (try_lock B mx) (\<lambda>b. ret (M_flag b))"
| "mutex_run TS B mx Unlock = bnd (unlock B mx) (\<lambda>mx'. ret (M_object mx'))"
| "mutex_run TS B mx (Timed_lock dur) = bnd (timed_lock TS B mx dur) (\<lambda>b. ret (M_flag b))"

primrec mutex_op :: "(int \<Rightarrow> int) \<Rightarrow> string \<Rightarrow> string \<Rightarrow> mutex_method \<Rightarrow> redis_op" where
  "mutex_op TS k tok Try_lock = On_list k L_lpop"
| "mutex_op TS k tok Unlock = On_list k (L_rpush tok)"
| "mutex_op TS k tok (Timed_lock dur) = On_block k (B_blpop (max (TS dur) 1))"

definition mutex_call_of :: "(int \<Rightarrow> int) \<Rightarrow> mutex \<times> mutex_method \<Rightarrow> redis_op" where
  "mutex_call_of TS = (\<lambda>(mx, m). mutex_op TS (list_name mx) (token mx) m)"

definition mutex_gives :: "mutex \<times> mutex_method \<Rightarrow> outcome \<Rightarrow> mutex_result res" where
  "mutex_gives = (\<lambda>(mx, m) r.
     Ret (case r of Word x \<Rightarrow> M_flag (m = Try_lock \<and> x \<noteq> missing_value) | _ \<Rightarrow> M_object (mx\<lparr>token := []\<rparr>)))"

text \<open>What the methods do with the tokens in the list.\<close>

definition token_does :: "mutex \<times> mutex_method \<Rightarrow> string list \<Rightarrow> mutex_result res \<times> string list" where
  "token_does = (\<lambda>(mx, m) xs.
     case m of
       Try_lock \<Rightarrow> (Ret (M_flag (xs \<noteq> [] \<and> hd xs \<noteq> missing_value)), tl xs)
     | Unlock \<Rightarrow> (Ret (M_object (mx\<lparr>token := []\<rparr>)), xs @ [token mx])
     | Timed_lock dur \<Rightarrow> (Ret (M_flag False), tl xs))"

definition tokens_fit :: "mutex \<times> mutex_method \<Rightarrow> string list \<Rightarrow> bool" where
  "tokens_fit p xs \<longleftrightarrow> multi_ok xs \<and> multi_ok (snd (token_does p xs)) \<and> bulk_ok (list_name (fst p))"

lemma mutex_wraps:
  "mutex_run TS B mx m = bnd (call B (mutex_call_of TS (mx, m))) (\<lambda>x. lift_res (mutex_gives (mx, m) x))"
  by (cases m) (simp_all add: try_lock_def unlock_def timed_lock_def mutex_call_of_def mutex_gives_def bnd_assoc sq_as_bnd
      fun_eq_iff bnd_def split: prod.splits res.splits)

lemma mutex_key [simp]: "op_key (mutex_call_of TS (mx, m)) = list_name mx"
  by (cases m) (simp_all add: mutex_call_of_def)

interpretation mutexes: redis_object "\<lambda>B (mx, m). mutex_run TS B mx m" "mutex_call_of TS" mutex_gives items token_does tokens_fit for TS
proof
  fix B p show "(\<lambda>(mx, m). mutex_run TS B mx m) p = bnd (call B (mutex_call_of TS p)) (\<lambda>x. lift_res (mutex_gives p x))"
    by (cases p) (simp add: mutex_wraps)
next
  fix p xs assume *: "tokens_fit p xs"
  obtain mx m where p: "p = (mx, m)" by (cases p)
  have hd: "xs \<noteq> [] \<Longrightarrow> bulk_ok (hd xs)" using * by (cases xs) (auto simp: tokens_fit_def multi_ok_def)
  show "op_ok (mutex_call_of TS p) (items xs)"
    using * hd multi_ok_range [of "xs @ [token mx]"] p
    by (cases m) (auto simp: tokens_fit_def token_does_def mutex_call_of_def op_ok_def items_valid on_items_items opt_ok_def
        op_valid_def counts_def block_valid_def multi_ok_def add.commute items_def on_items_def)
  show "rbnd (op_result (mutex_call_of TS p) (fst (does (mutex_call_of TS p) (items xs)))) (mutex_gives p) = fst (token_does p xs)"
    using p by (cases m) (auto simp: token_does_def mutex_call_of_def mutex_gives_def on_items_items result_defs)
  show "snd (does (mutex_call_of TS p) (items xs)) = items (snd (token_does p xs))"
    using p by (cases m) (auto simp: token_does_def mutex_call_of_def on_items_items)
qed

text \<open>
  The lock the callers see: free, held by one of them, or lost for good. A client that unlocks holds the
  lock. The results, and whether all calls keep to this.
\<close>

datatype 'c holder = Free | Held 'c | Lost

primrec holder_step :: "'c \<Rightarrow> mutex_method \<Rightarrow> 'c holder \<Rightarrow> 'c holder" where
  "holder_step c Try_lock o' = (if o' = Free then Held c else o')"
| "holder_step c Unlock o' = Free"
| "holder_step c (Timed_lock dur) o' = (if o' = Free then Lost else o')"

primrec holder_result :: "mutex \<Rightarrow> mutex_method \<Rightarrow> 'c holder \<Rightarrow> mutex_result res" where
  "holder_result mx Try_lock o' = Ret (M_flag (o' = Free))"
| "holder_result mx Unlock o' = Ret (M_object (mx\<lparr>token := []\<rparr>))"
| "holder_result mx (Timed_lock dur) o' = Ret (M_flag False)"

type_synonym 'c mutex_history = "('c \<times> mutex \<times> mutex_method) list"

fun holder_results :: "'c mutex_history \<Rightarrow> (string \<Rightarrow> 'c holder) \<Rightarrow> mutex_result res list" where
  "holder_results [] H = []"
| "holder_results ((c, mx, m) # h) H =
     holder_result mx m (H (list_name mx)) # holder_results h (H(list_name mx := holder_step c m (H (list_name mx))))"

fun holders_after :: "'c mutex_history \<Rightarrow> (string \<Rightarrow> 'c holder) \<Rightarrow> string \<Rightarrow> 'c holder" where
  "holders_after [] H = H"
| "holders_after ((c, mx, m) # h) H = holders_after h (H(list_name mx := holder_step c m (H (list_name mx))))"

fun disciplined :: "'c mutex_history \<Rightarrow> (string \<Rightarrow> 'c holder) \<Rightarrow> bool" where
  "disciplined [] H \<longleftrightarrow> True"
| "disciplined ((c, mx, m) # h) H \<longleftrightarrow>
     (m = Unlock \<longrightarrow> H (list_name mx) = Held c) \<and> bulk_ok (list_name mx) \<and> bulk_ok (token mx) \<and> token mx \<noteq> missing_value \<and>
     disciplined h (H(list_name mx := holder_step c m (H (list_name mx))))"

text \<open>A free lock has one token in its list, any other none.\<close>

definition stands_for :: "string list \<Rightarrow> 'c holder \<Rightarrow> bool" where
  "stands_for xs o' \<longleftrightarrow> (if o' = Free then \<exists>t. xs = [t] \<and> t \<noteq> missing_value \<and> bulk_ok t else xs = [])"

lemma token_step:
  assumes "stands_for xs o'" "m = Unlock \<longrightarrow> o' = Held c" "bulk_ok (list_name mx)" "bulk_ok (token mx)" "token mx \<noteq> missing_value"
  shows "tokens_fit (mx, m) xs" "fst (token_does (mx, m) xs) = holder_result mx m o'"
    "stands_for (snd (token_does (mx, m) xs)) (holder_step c m o')"
  using assms by (cases m; auto simp: stands_for_def tokens_fit_def token_does_def multi_ok_def split: if_splits)+

lemma tokens_are_holders:
  fixes H :: "string \<Rightarrow> 'c holder"
  assumes "disciplined h H" "\<forall>k. stands_for (T k) (H k)"
  shows "objects_ok (list_name \<circ> fst) token_does tokens_fit (map snd h) T \<and>
    object_results (list_name \<circ> fst) token_does (map snd h) T = holder_results h H \<and>
    (\<forall>k. stands_for (object_states (list_name \<circ> fst) token_does (map snd h) T k) (holders_after h H k))"
  using assms
proof (induction h H arbitrary: T rule: disciplined.induct)
  case (2 c mx m h H)
  let ?k = "list_name mx"
  have "stands_for (T ?k) (H ?k)" "m = Unlock \<longrightarrow> H ?k = Held c" "bulk_ok ?k" "bulk_ok (token mx)" "token mx \<noteq> missing_value"
    using "2.prems" by auto
  note step = token_step [OF this]
  have "\<forall>k. stands_for ((T(?k := snd (token_does (mx, m) (T ?k)))) k) ((H(?k := holder_step c m (H ?k))) k)"
    using "2.prems"(2) step(3) by simp
  from "2.IH" [OF _ this] "2.prems"(1) step(1,2) show ?case by (simp del: fun_upd_apply)
qed simp

lemma mutex_refines:
  fixes h :: "'c mutex_history"
  assumes "clients_ready redis_api answer holds B srv (map (apsnd (mutex_call_of TS)) h) sts rest cl"
    "disciplined h H" "\<forall>k. stands_for (T k) (H k)"
    "\<forall>(c, mx, m)\<in>set h. cluster_map holds srv sts (list_name mx) = items (T (list_name mx))"
  shows "\<exists>cl'. shared_attempts (\<lambda>(mx, m). mutex_run TS B mx m) h cl = (holder_results h H, cl') \<and>
    (\<forall>c. connections (cl' c) = connections (cl c) \<and> inq (cl' c) = rest c \<and>
       outq (cl' c) = (\<lambda>k. outq (cl c) k @
         sent_to redis_api (route B (connections (cl c))) (sent_by c (map (apsnd (mutex_call_of TS)) h)) k)) \<and>
    (\<forall>(c, mx, m)\<in>set h. \<exists>xs. stands_for xs (holders_after h H (list_name mx)) \<and>
       cluster_map holds srv (states_after redis_api answer srv (map (mutex_call_of TS \<circ> snd) h) sts) (list_name mx) = items xs)"
proof -
  have key: "(\<lambda>p. op_key (mutex_call_of TS p)) = list_name \<circ> fst" by auto
  show ?thesis
    using mutexes.refines [OF assms(1), of T, unfolded key] tokens_are_holders [OF assms(2,3)] assms(4) by fastforce
qed

text \<open>
  Property C20. With \<^verbatim>\<open>try_lock\<close> and \<^verbatim>\<open>unlock\<close> the mutex excludes: against servers with the documented
  behaviour, and as long as a client unlocks only what it holds, any history of calls by any number of
  clients on any number of mutexes gives the results of locks that are free or have one holder each:
  \<^verbatim>\<open>try_lock\<close> succeeds exactly when the mutex is free, so never while another client holds it, and
  \<^verbatim>\<open>unlock\<close> makes it free again. A \<^verbatim>\<open>timed_lock\<close> always reports failure, and on a free mutex loses it. Each client
  sends each server exactly the requests of its calls: \<^verbatim>\<open>try_lock\<close> an \<^verbatim>\<open>LPOP\<close> of the token list, \<^verbatim>\<open>unlock\<close> an \<^verbatim>\<open>RPUSH\<close>
  of its token to it, \<^verbatim>\<open>timed_lock\<close> a \<^verbatim>\<open>BLPOP\<close>.
\<close>

theorem mutex_has_one_holder:
  fixes h :: "'c mutex_history"
  assumes "clients_ready redis_api answer holds B srv (map (apsnd (mutex_call_of TS)) h) sts rest cl"
    "disciplined h H" "\<forall>k. stands_for (T k) (H k)"
    "\<forall>(c, mx, m)\<in>set h. cluster_map holds srv sts (list_name mx) = items (T (list_name mx))"
  shows "\<exists>cl'. shared_attempts (\<lambda>(mx, m). mutex_run TS B mx m) h cl = (holder_results h H, cl') \<and>
    (\<forall>c. connections (cl' c) = connections (cl c) \<and> inq (cl' c) = rest c \<and>
       outq (cl' c) = (\<lambda>k. outq (cl c) k @
         sent_to redis_api (route B (connections (cl c))) (sent_by c (map (apsnd (mutex_call_of TS)) h)) k)) \<and>
    (\<forall>(c, mx, m)\<in>set h. \<exists>xs. stands_for xs (holders_after h H (list_name mx)) \<and>
       cluster_map holds srv (states_after redis_api answer srv (map (mutex_call_of TS \<circ> snd) h) sts) (list_name mx) = items xs)"
  using mutex_refines [OF assms] .

definition demo_mutex :: mutex where
  "demo_mutex = \<lparr>mutex_name = ''ab'', token = []\<rparr>"

definition demo_seconds :: "int \<Rightarrow> int" where
  "demo_seconds d = (if d < 0 then - (- d div 1000000) else d div 1000000)"

definition demo_mutex_calls :: "nat mutex_history" where
  "demo_mutex_calls =
     [(0, demo_mutex, Unlock), (1, demo_mutex, Try_lock), (0, demo_mutex, Try_lock), (2, demo_mutex, Timed_lock 5),
      (1, demo_mutex, Unlock), (2, demo_mutex, Try_lock), (1, demo_mutex, Try_lock), (2, demo_mutex, Unlock),
      (0, demo_mutex, Timed_lock 5), (1, demo_mutex, Try_lock)]"

theorem mutex_has_one_holder_witness:
  "\<exists>cl'. shared_attempts (\<lambda>(mx, m). mutex_run demo_seconds std_boost mx m) demo_mutex_calls (demo_cluster (map (apsnd (mutex_call_of demo_seconds)) demo_mutex_calls)) =
    ([Ret (M_object demo_mutex), Ret (M_flag True), Ret (M_flag False), Ret (M_flag False), Ret (M_object demo_mutex), Ret (M_flag True),
      Ret (M_flag False), Ret (M_object demo_mutex), Ret (M_flag False), Ret (M_flag False)], cl')"
proof -
  have d: "disciplined demo_mutex_calls (\<lambda>_. Held 0)"
    by (simp add: demo_mutex_calls_def demo_mutex_def list_name_def bulk_ok_def missing_value_def)
  have s: "\<forall>k. stands_for ((\<lambda>_. []) k) ((\<lambda>_. Held (0 :: nat)) k)" by (simp add: stands_for_def)
  have "\<forall>(c, mx, m)\<in>set demo_mutex_calls. cluster_map (\<lambda>m. m) demo_route (\<lambda>_ _. None) (list_name mx) = items []"
    by (simp add: items_def case_prod_unfold)
  from mutex_has_one_holder [where TS = demo_seconds, OF demo_cluster d s this] obtain cl' where
    "shared_attempts (\<lambda>(mx, m). mutex_run demo_seconds std_boost mx m) demo_mutex_calls (demo_cluster (map (apsnd (mutex_call_of demo_seconds)) demo_mutex_calls)) =
      (holder_results demo_mutex_calls (\<lambda>_. Held 0), cl')" by auto
  moreover have "holder_results demo_mutex_calls (\<lambda>_. Held (0 :: nat)) =
     [Ret (M_object demo_mutex), Ret (M_flag True), Ret (M_flag False), Ret (M_flag False), Ret (M_object demo_mutex), Ret (M_flag True),
      Ret (M_flag False), Ret (M_object demo_mutex), Ret (M_flag False), Ret (M_flag False)]"
    by (simp add: demo_mutex_calls_def demo_mutex_def)
  ultimately show ?thesis by (intro exI) (simp only:)
qed

text \<open>A lost mutex stays lost: no \<^verbatim>\<open>try_lock\<close> and no \<^verbatim>\<open>timed_lock\<close> gets it.\<close>

lemma lost_results:
  "\<forall>(d, my, m)\<in>set h. list_name my = k \<and> m \<noteq> Unlock \<Longrightarrow> H k = Lost \<Longrightarrow>
    holder_results h H = replicate (length h) (Ret (M_flag False)) \<and> holders_after h H k = Lost"
proof (induction h)
  case (Cons e h)
  obtain c mx m where e: "e = (c, mx, m)" by (cases e)
  with Cons.prems have "holder_step c m (H k) = H k" "list_name mx = k" "m \<noteq> Unlock" by (cases m; auto)+
  moreover from this(3) Cons.prems(2) have "holder_result mx m (H k) = Ret (M_flag False)" by (cases m) auto
  moreover from calculation have "H(list_name mx := holder_step c m (H (list_name mx))) = H" by simp
  ultimately have "H(list_name mx := holder_step c m (H (list_name mx))) = H" "holder_result mx m (H (list_name mx)) = Ret (M_flag False)"
    by simp_all
  with Cons e show ?case by simp
qed simp

lemma lost_disciplined:
  "\<forall>(d, my, m)\<in>set h. list_name my = k \<and> m \<noteq> Unlock \<and> bulk_ok k \<and> bulk_ok (token my) \<and> token my \<noteq> missing_value \<Longrightarrow> disciplined h H"
  by (induction h H rule: disciplined.induct) auto

text \<open>
  \<^verbatim>\<open>timed_lock\<close> loses the mutex: called on a free mutex it takes the token from the list and
  yet reports failure, as does every later \<^verbatim>\<open>try_lock\<close> and \<^verbatim>\<open>timed_lock\<close> of any client, and the list stays empty.
\<close>

theorem timed_lock_loses_mutex:
  assumes "clients_ready redis_api answer holds B srv (map (apsnd (mutex_call_of TS)) ((c, mx, Timed_lock dur) # h)) sts rest cl"
    "\<forall>(d, my, m)\<in>set ((c, mx, Timed_lock dur) # h). list_name my = list_name mx \<and> m \<noteq> Unlock \<and> bulk_ok (list_name mx) \<and>
       bulk_ok (token my) \<and> token my \<noteq> missing_value"
    "cluster_map holds srv sts (list_name mx) = Some (Items [t])" "t \<noteq> missing_value" "bulk_ok t"
  shows "\<exists>cl'. shared_attempts (\<lambda>(mx, m). mutex_run TS B mx m) ((c, mx, Timed_lock dur) # h) cl =
      (replicate (length h + 1) (Ret (M_flag False)), cl') \<and>
    (\<forall>d. outq (cl' d) = (\<lambda>k. outq (cl d) k @ sent_to redis_api (route B (connections (cl d)))
       (sent_by d (map (apsnd (mutex_call_of TS)) ((c, mx, Timed_lock dur) # h))) k)) \<and>
    cluster_map holds srv (states_after redis_api answer srv (map (mutex_call_of TS \<circ> snd) ((c, mx, Timed_lock dur) # h)) sts) (list_name mx) = None"
proof -
  let ?h = "(c, mx, Timed_lock dur) # h" and ?k = "list_name mx"
  let ?H = "\<lambda>k. if k = ?k then Free else Lost" and ?T = "\<lambda>k. if k = ?k then [t] else []"
  have st: "\<forall>k. stands_for (?T k) (?H k)" using assms(4,5) by (simp add: stands_for_def)
  have it: "\<forall>(c, mx, m)\<in>set ?h. cluster_map holds srv sts (list_name mx) = items (?T (list_name mx))"
    using assms(2,3) by (auto simp: items_def)
  from mutex_refines [OF assms(1) lost_disciplined [OF assms(2)] st it] obtain cl' where cl': "shared_attempts (\<lambda>(mx, m). mutex_run TS B mx m) ?h cl = (holder_results ?h ?H, cl')"
      "\<forall>d. outq (cl' d) = (\<lambda>k. outq (cl d) k @ sent_to redis_api (route B (connections (cl d)))
        (sent_by d (map (apsnd (mutex_call_of TS)) ?h)) k)"
      "\<forall>(c, mx, m)\<in>set ?h. \<exists>xs. stands_for xs (holders_after ?h ?H (list_name mx)) \<and>
       cluster_map holds srv (states_after redis_api answer srv (map (mutex_call_of TS \<circ> snd) ?h) sts) (list_name mx) = items xs"
    by blast
  have "holder_results h (?H(?k := Lost)) = replicate (length h) (Ret (M_flag False)) \<and> holders_after h (?H(?k := Lost)) ?k = Lost"
    using assms(2) by (intro lost_results) auto
  with cl' show ?thesis by (intro exI [of _ cl'] conjI) (auto simp: stands_for_def items_def)
qed

end
