(* ===== verification/MutexLock.thy ===== *)
theory MutexLock
  imports MutexCorrect
begin

text \<open>
  The loop of \<^verbatim>\<open>distributed_mutex::lock\<close>, run by one client at a time: which calls it makes, that it always
  returns, and what \<^verbatim>\<open>unlock\<close> leaves behind. The calls of code that reads the clock are described by the
  relation \<open>makes\<close>, which composes along \<open>bnd\<close>.
\<close>

section \<open>A client with a clock\<close>

text \<open>
  The servers, the conversions and the clock a client works with, in seconds. Of \<^verbatim>\<open>total_seconds\<close> the code relies
  on the count of a duration of whole seconds, in the range of its type.
\<close>

record ('st, 'n) surroundings =
  lib :: boost
  answers :: "'st \<Rightarrow> string list \<Rightarrow> string \<times> 'st"
  holding :: "'st \<Rightarrow> string \<rightharpoonup> redis_value"
  home :: "string \<Rightarrow> 'n"
  clock :: "nat \<Rightarrow> int"
  secs :: "int \<Rightarrow> int"

definition seconds_ok :: "(int \<Rightarrow> int) \<Rightarrow> bool" where
  "seconds_ok TS \<longleftrightarrow> (\<forall>n. 0 \<le> n \<and> n < 2 ^ 31 \<longrightarrow> TS (n * 1000000) = n)"

definition timed_ready :: "('st, 'n) surroundings \<Rightarrow> redis_op list \<Rightarrow> ('n \<Rightarrow> 'st) \<Rightarrow> (int \<Rightarrow> string) \<Rightarrow> timed_client \<Rightarrow> bool" where
  "timed_ready E ps sts rest w \<longleftrightarrow> (\<forall>i. now w i div 1000000 = clock E i) \<and> seconds_ok (secs E) \<and>
     clients_ready redis_api (answers E) (holding E) (lib E) (home E) (map (Pair ()) ps) sts (\<lambda>_. rest) (\<lambda>_. cli w)"

definition served :: "('st, 'n) surroundings \<Rightarrow> redis_op list \<Rightarrow> ('n \<Rightarrow> 'st) \<Rightarrow> 'n \<Rightarrow> 'st" where
  "served E ps sts = states_after redis_api (answers E) (home E) ps sts"

definition store_of :: "('st, 'n) surroundings \<Rightarrow> ('n \<Rightarrow> 'st) \<Rightarrow> string \<rightharpoonup> redis_value" where
  "store_of E sts = cluster_map (holding E) (home E) sts"

text \<open>The client has sent the requests of the calls \<open>ps\<close>, each to the server of its key, and nothing else.\<close>

definition requested :: "('st, 'n) surroundings \<Rightarrow> redis_op list \<Rightarrow> timed_client \<Rightarrow> timed_client \<Rightarrow> bool" where
  "requested E ps w w' \<longleftrightarrow> connections (cli w') = connections (cli w) \<and>
     outq (cli w') = (\<lambda>k. outq (cli w) k @ sent_to redis_api (route (lib E) (connections (cli w))) ps k)"

lemma requested_none [simp]: "requested E [] w w"
  by (simp add: requested_def sent_to_def)

lemma requested_trans: "requested E ps u v \<Longrightarrow> requested E qs v w \<Longrightarrow> requested E (ps @ qs) u w"
  by (simp add: requested_def sent_to_def)

text \<open>
  Code that makes exactly the calls \<open>ps\<close>: from the reading \<open>i\<close> of the clock and the store \<open>m\<close> to the reading \<open>j\<close> and
  the store \<open>m'\<close>, with the result \<open>r\<close>.
\<close>

definition makes :: "('st, 'n) surroundings \<Rightarrow> 'a tio \<Rightarrow> redis_op list \<Rightarrow> nat \<times> (string \<rightharpoonup> redis_value) \<Rightarrow>
    nat \<times> (string \<rightharpoonup> redis_value) \<Rightarrow> 'a res \<Rightarrow> bool" where
  "makes E f ps a b r \<longleftrightarrow>
     (\<forall>qs sts rest w. timed_ready E (ps @ qs) sts rest w \<and> (ticks w, store_of E sts) = a \<longrightarrow>
        (\<exists>w'. f w = (r, w') \<and> timed_ready E qs (served E ps sts) rest w' \<and> (ticks w', store_of E (served E ps sts)) = b \<and>
           requested E ps w w'))"

lemma served_append: "served E (ps @ qs) sts = served E qs (served E ps sts)"
  unfolding served_def by (induction ps arbitrary: sts) auto

lemma makes_ret: "makes E (ret x) [] a a (Ret x)"
  by (auto simp: makes_def served_def)

lemma makes_lift: "makes E (lift_res r) [] a a r"
  by (auto simp: makes_def served_def)

lemma makes_bnd:
  assumes "makes E f ps a b (Ret x)" "makes E (g x) qs b c r"
  shows "makes E (bnd f g) (ps @ qs) a c r"
  unfolding makes_def
proof safe
  fix us sts rest w
  assume *: "timed_ready E ((ps @ qs) @ us) sts rest w" "a = (ticks w, store_of E sts)"
  with assms(1) obtain w' where w': "f w = (Ret x, w')" "timed_ready E (qs @ us) (served E ps sts) rest w'"
    "b = (ticks w', store_of E (served E ps sts))" "requested E ps w w'" unfolding makes_def by (metis append_assoc)
  with assms(2) obtain w'' where "g x w' = (r, w'')" "timed_ready E us (served E qs (served E ps sts)) rest w''"
    "c = (ticks w'', store_of E (served E qs (served E ps sts)))" "requested E qs w' w''" unfolding makes_def by metis
  with w'(1,4) show "\<exists>w'. bnd f g w = (r, w') \<and> timed_ready E us (served E (ps @ qs) sts) rest w' \<and>
      (ticks w', store_of E (served E (ps @ qs) sts)) = c \<and> requested E (ps @ qs) w w'"
    by (auto simp: served_append intro: requested_trans)
qed

lemma makesD:
  assumes "makes E f ps (ticks w, store_of E sts) (j, m) r" "timed_ready E ps sts rest w"
  shows "\<exists>w'. f w = (r, w') \<and> ticks w' = j \<and> inq (cli w') = rest \<and> store_of E (served E ps sts) = m \<and>
    requested E ps w w'"
proof -
  have "timed_ready E (ps @ []) sts rest w" using assms(2) by simp
  with assms(1) obtain w' where "f w = (r, w')" "timed_ready E [] (served E ps sts) rest w'" "(ticks w', store_of E (served E ps sts)) = (j, m)"
    "requested E ps w w'" unfolding makes_def by blast
  then show ?thesis by (auto simp: timed_ready_def clients_ready_def)
qed

lemma makes_time:
  assumes "0 \<le> clock E i + d" "clock E i + d < 2 ^ 31"
  shows "makes E (tstamp_val (secs E) d) [] (i, m) (Suc i, m) (Ret (clock E i + d))"
  using assms
  by (auto simp: makes_def served_def tstamp_val_def system_time_def timed_ready_def seconds_ok_def wrap_long_id long_range_def requested_def
      sent_to_def)

text \<open>One call, with its result as the caller of the client sees it.\<close>

lemma makes_call:
  assumes "call (lib E) p = bnd f (\<lambda>x. ret (C x))" "inj C" "op_ok p (m (op_key p))" "op_result p (fst (does p (m (op_key p)))) = Ret (C y)"
  shows "makes E (on_cli f) [p] (i, m) (i, m(op_key p := snd (does p (m (op_key p))))) (Ret y)"
  unfolding makes_def
proof safe
  fix qs sts rest w
  assume *: "timed_ready E ([p] @ qs) sts rest w" "i = ticks w" "m = store_of E sts"
  let ?A = redis_api and ?sts = "served E [p] sts"
  have "clients_ready ?A (answers E) (holding E) (lib E) (home E) (((), p) # map (Pair ()) qs) sts (\<lambda>_. rest) (\<lambda>_. cli w)"
    using *(1) by (simp add: timed_ready_def)
  from redis_client.client_step [OF this _ refl] assms(3,4) *(3) obtain t where
    t: "call (lib E) p (cli w) = (Ret (C y), t)" "connections t = connections (cli w)"
      "outq t = (outq (cli w))(route (lib E) (connections (cli w)) (op_key p) :=
         outq (cli w) (route (lib E) (connections (cli w)) (op_key p)) @ api_request redis_api p)"
      "clients_ready ?A (answers E) (holding E) (lib E) (home E) (map (Pair ()) qs) ?sts (\<lambda>_. rest) ((\<lambda>_. cli w)(() := t))"
    by (auto simp: redis_api_def store_of_def served_def simp del: fun_upd_apply)
  from t(1) assms(1,2) have run: "on_cli f w = (Ret y, w\<lparr>cli := t\<rparr>)"
    by (auto simp: on_cli_def elim!: bnd_RetE dest: injD)
  have "serves ?A (answers E) (holding E)" using *(1) by (simp add: timed_ready_def clients_ready_def)
  from cluster_step(2) [OF this _ refl, of p "home E" sts] assms(3) *(3)
  have "store_of E ?sts = m(op_key p := snd (does p (m (op_key p))))"
    by (simp add: redis_api_def store_of_def served_def op_ok_def api_step_def)
  moreover have "(\<lambda>_. cli w)(() := t) = (\<lambda>_. t)" by auto
  ultimately show "\<exists>w'. on_cli f w = (Ret y, w') \<and> timed_ready E qs ?sts rest w' \<and>
      (ticks w', store_of E ?sts) = (ticks w, (store_of E sts)(op_key p := snd (does p (store_of E sts (op_key p))))) \<and>
      requested E [p] w w'"
    using run t(2-4) *(1,3) by (auto simp: timed_ready_def requested_def sent_to_def redis_api_def)
qed


lemma list_name_neq [simp]: "list_name mx \<noteq> mutex_name mx" "mutex_name mx \<noteq> list_name mx"
  by (auto simp: list_name_def)

lemma makes_get:
  assumes "m n = Some (Text t)" "bulk_ok t"
  shows "makes E (on_cli (client_get (lib E) n)) [On_text n T_get] (i, m) (i, m) (Ret t)"
proof -
  have "m(n := m n) = m" by simp
  with makes_call [of E "On_text n T_get" "client_get (lib E) n" Word m t i] assms show ?thesis
    by (simp add: inj_def on_text_def op_ok_def op_valid_def counts_def opt_ok_def result_defs del: fun_upd_triv)
qed

lemma makes_getset:
  assumes "m n = Some (Text t)" "bulk_ok t"
  shows "makes E (on_cli (client_getset (lib E) n x)) [On_text n (T_getset x)] (i, m) (i, m(n \<mapsto> Text x)) (Ret t)"
  using makes_call [of E "On_text n (T_getset x)" "client_getset (lib E) n x" Word m t i] assms
  by (simp add: inj_def on_text_def op_ok_def op_valid_def counts_def opt_ok_def result_defs)

lemma makes_set:
  assumes "m n = Some (Text t)"
  shows "makes E (on_cli (client_set (lib E) n x)) [On_text n (T_set x)] (i, m) (i, m(n \<mapsto> Text x)) (Ret ())"
  using makes_call [of E "On_text n (T_set x)" "client_set (lib E) n x" "\<lambda>_. Unit" m "()" i] assms
  by (simp add: inj_def sq_as_bnd op_ok_def op_valid_def counts_def result_defs)

lemma makes_rpush:
  assumes "m k = items xs" "multi_ok (xs @ [x])"
  shows "makes E (on_cli (client_rpush (lib E) k x)) [On_list k (L_rpush x)] (i, m) (i, m(k := items (xs @ [x]))) (Ret (int (length xs) + 1))"
  using makes_call [of E "On_list k (L_rpush x)" "client_rpush (lib E) k x" Num m "int (length xs) + 1" i] assms multi_ok_range [of "xs @ [x]"]
  by (simp add: inj_def on_items_items op_ok_def items_valid result_defs add.commute)

lemma makes_blpop:
  assumes "m k = items xs" "xs \<noteq> [] \<longrightarrow> multi_ok [k, hd xs]" "0 < d"
  shows "makes E (on_cli (client_blpop (lib E) k d)) [On_block k (B_blpop d)] (i, m) (i, m(k := items (tl xs)))
    (Ret (if xs = [] then missing_value else hd xs))"
  using makes_call [of E "On_block k (B_blpop d)" "client_blpop (lib E) k d" Word m "if xs = [] then missing_value else hd xs" i] assms
  by (cases xs) (simp_all add: inj_def items_def on_items_def op_ok_def op_valid_def counts_def block_valid_def result_defs)

section \<open>lock and unlock of a single client\<close>

text \<open>The calls of one turn at a reading of the clock, with the time it waits, and those of a whole \<^verbatim>\<open>lock\<close>.\<close>

definition turn_calls :: "mutex \<Rightarrow> int \<Rightarrow> int \<Rightarrow> redis_op list" where
  "turn_calls mx t s =
     [On_text (mutex_name mx) T_get, On_block (list_name mx) (B_blpop (max 1 (t + TIMEOUT_SEC - s))), On_text (mutex_name mx) T_get]"

fun lock_calls :: "(nat \<Rightarrow> int) \<Rightarrow> mutex \<Rightarrow> nat \<Rightarrow> int \<Rightarrow> string list \<Rightarrow> redis_op list" where
  "lock_calls clk mx i s [] =
     (let t = clk (Suc i) + TIMEOUT_SEC
      in turn_calls mx (clk i) s @ [On_text (mutex_name mx) (T_set (show_int t)), On_list (list_name mx) (L_rpush (show_int t))] @
         turn_calls mx (clk (i + 2)) t @ [On_text (mutex_name mx) (T_getset (show_int t))])"
| "lock_calls clk mx i s (x # xs) =
     turn_calls mx (clk i) s @
     (if x = show_int s then [On_text (mutex_name mx) (T_getset x)] else lock_calls clk mx (Suc i) s xs)"

text \<open>The readings taken, the stamp and the list it leaves, and the new token.\<close>

fun lock_leaves :: "(nat \<Rightarrow> int) \<Rightarrow> nat \<Rightarrow> int \<Rightarrow> string list \<Rightarrow> nat \<times> int \<times> string list \<times> int" where
  "lock_leaves clk i s [] = (i + 4, clk (Suc i) + TIMEOUT_SEC, [], clk (i + 3) + TIMEOUT_SEC)"
| "lock_leaves clk i s (x # xs) =
     (if x = show_int s then (i + 2, s, xs, clk (Suc i) + TIMEOUT_SEC) else lock_leaves clk (Suc i) s xs)"

text \<open>A clock whose stamps fit 32 bits, as does the present one.\<close>

definition clock_ok :: "(nat \<Rightarrow> int) \<Rightarrow> bool" where
  "clock_ok clk \<longleftrightarrow> (\<forall>i. 0 \<le> clk i \<and> clk i + TIMEOUT_SEC < 2 ^ 31)"

definition stamp_ok :: "int \<Rightarrow> bool" where
  "stamp_ok s \<longleftrightarrow> 0 \<le> s \<and> s < 2 ^ 31"

definition tokens_ok :: "mutex \<Rightarrow> string list \<Rightarrow> bool" where
  "tokens_ok mx xs \<longleftrightarrow> bulk_ok (list_name mx) \<and> list_all bulk_ok xs \<and> missing_value \<notin> set xs"

lemma bulk_ok_stamp: "stamp_ok s \<Longrightarrow> bulk_ok (show_int s)"
  by (rule bulk_ok_number) (auto simp: stamp_ok_def)

lemma stamp_clock: "clock_ok clk \<Longrightarrow> stamp_ok (clk i + TIMEOUT_SEC)"
  by (auto simp: clock_ok_def stamp_ok_def TIMEOUT_SEC_def)

lemma wrap_stamp: "stamp_ok s \<Longrightarrow> wrap_long s = s" "stamp_ok s \<Longrightarrow> stamp_ok t \<Longrightarrow> wrap_long (s - t) = s - t"
  by (auto intro!: wrap_long_id simp: stamp_ok_def long_range_def)

lemma makes_stamp:
  assumes "clock_ok (clock E)"
  shows "makes E (tstamp_val (secs E) TIMEOUT_SEC) [] (i, m) (Suc i, m) (Ret (clock E i + TIMEOUT_SEC))"
  using stamp_clock [OF assms, of i] by (intro makes_time) (auto simp: stamp_ok_def)

lemma stamp_not_missing: "show_int s \<noteq> missing_value"
proof
  assume "show_int s = missing_value"
  then have "read_int missing_value = Some s" by (metis read_show_int)
  moreover have "read_int missing_value = None" by code_simp
  ultimately show False by simp
qed


text \<open>The store of a mutex with stamp \<open>s\<close> and the tokens \<open>xs\<close>.\<close>

definition mutex_store :: "mutex \<Rightarrow> int \<Rightarrow> string list \<Rightarrow> (string \<rightharpoonup> redis_value) \<Rightarrow> bool" where
  "mutex_store mx s xs m \<longleftrightarrow> m (mutex_name mx) = Some (Text (show_int s)) \<and> m (list_name mx) = items xs \<and> stamp_ok s \<and> tokens_ok mx xs"

lemma makes_wait:
  assumes "mutex_store mx s xs m" "stamp_ok t" "boost_ok (lib E)"
  shows "makes E (lock_wait (lib E) mx t s) [On_block (list_name mx) (B_blpop (max 1 (t - s)))] (i, m)
    (i, m(list_name mx := items (tl xs))) (Ret (if xs = [] then missing_value else hd xs))"
proof -
  have d: "(if t - s < 1 then 1 else t - s) = max 1 (t - s)" by auto
  have "xs \<noteq> [] \<longrightarrow> multi_ok [list_name mx, hd xs]"
    using assms(1) by (cases xs) (auto simp: mutex_store_def tokens_ok_def multi_ok_def)
  with makes_blpop [of m "list_name mx" xs "max 1 (t - s)" E i] assms show ?thesis
    by (simp add: lock_wait_def Let_def wrap_stamp mutex_store_def d)
qed

lemma turn_start:
  assumes "mutex_store mx s xs m" "clock_ok (clock E)" "boost_ok (lib E)"
    "makes E (if tok = missing_value then sq (lock_renew (secs E) (lib E) mx) (ret None)
       else ret (if tok = show_int s then Some (show_int s) else None)) qs (Suc i, m(list_name mx := items (tl xs))) b r"
    "tok = (if xs = [] then missing_value else hd xs)"
  shows "makes E (lock_turn (secs E) (lib E) mx) (turn_calls mx (clock E i) s @ qs) (i, m) b r"
proof -
  let ?n = "mutex_name mx" and ?k = "list_name mx" and ?m = "m(list_name mx := items (tl xs))" and ?t = "clock E i + TIMEOUT_SEC"
  have s: "stamp_ok s" "m ?n = Some (Text (show_int s))" using assms(1) by (auto simp: mutex_store_def)
  from s bulk_ok_stamp have g1: "makes E (on_cli (client_get (lib E) ?n)) [On_text ?n T_get] (i, m) (i, m) (Ret (show_int s))"
    and g2: "makes E (on_cli (client_get (lib E) ?n)) [On_text ?n T_get] (Suc i, ?m) (Suc i, ?m) (Ret (show_int s))"
    by (auto intro!: makes_get)
  have "long_range s" using s(1) by (auto simp: stamp_ok_def long_range_def)
  then have cast: "makes E (lift_res (cast (cast_long (lib E)) (show_int s))) [] (i, m) (i, m) (Ret s)"
    using boost_okD(4) [OF assms(3)] makes_lift [of E "Ret s"] by (simp add: cast_def)
  have time: "makes E (tstamp_val (secs E) TIMEOUT_SEC) [] (i, m) (Suc i, m) (Ret ?t)"
    by (rule makes_stamp [OF assms(2)])
  have wait: "makes E (lock_wait (lib E) mx ?t s) [On_block ?k (B_blpop (max 1 (?t - s)))] (Suc i, m) (Suc i, ?m) (Ret tok)"
    using makes_wait [OF assms(1) stamp_clock [OF assms(2)] assms(3)] by (simp add: assms(5))
  have "makes E (lock_turn (secs E) (lib E) mx) ([On_text ?n T_get] @ [] @ [] @ [On_block ?k (B_blpop (max 1 (?t - s)))] @ [On_text ?n T_get] @ qs)
      (i, m) b r"
    unfolding lock_turn_def
    by (rule makes_bnd [OF g1], rule makes_bnd [OF cast], rule makes_bnd [OF time], rule makes_bnd [OF wait], rule makes_bnd [OF g2])
      (simp only: refl if_True assms(4))
  then show ?thesis by (simp add: turn_calls_def)
qed


lemma turn_pops:
  assumes "mutex_store mx s (x # xs) m" "clock_ok (clock E)" "boost_ok (lib E)"
  shows "makes E (lock_turn (secs E) (lib E) mx) (turn_calls mx (clock E i) s) (i, m) (Suc i, m(list_name mx := items xs))
    (Ret (if x = show_int s then Some x else None))"
proof -
  have "x \<noteq> missing_value" using assms(1) by (auto simp: mutex_store_def tokens_ok_def)
  with turn_start [OF assms, of x "[]" i] makes_ret [of E "if x = show_int s then Some x else None"] show ?thesis by force
qed

lemma turn_renews:
  assumes "mutex_store mx s [] m" "clock_ok (clock E)" "boost_ok (lib E)" "t = show_int (clock E (Suc i) + TIMEOUT_SEC)"
  shows "makes E (lock_turn (secs E) (lib E) mx) (turn_calls mx (clock E i) s @ [On_text (mutex_name mx) (T_set t), On_list (list_name mx) (L_rpush t)])
    (i, m) (i + 2, m(list_name mx := items [t], mutex_name mx \<mapsto> Text t)) (Ret None)"
proof -
  let ?n = "mutex_name mx" and ?k = "list_name mx" and ?T = "clock E (Suc i) + TIMEOUT_SEC"
  let ?m1 = "m(?k := items [], ?n \<mapsto> Text t)"
  have T: "stamp_ok ?T" by (rule stamp_clock [OF assms(2)])
  have time: "makes E (tstamp_val (secs E) TIMEOUT_SEC) [] (Suc i, m(?k := items [])) (i + 2, m(?k := items [])) (Ret ?T)"
    using makes_stamp [OF assms(2), of "Suc i"] by simp
  have set: "makes E (on_cli (client_set (lib E) ?n t)) [On_text ?n (T_set t)] (i + 2, m(?k := items [])) (i + 2, ?m1) (Ret ())"
    using assms(1) by (intro makes_set) (simp add: mutex_store_def)
  have push: "makes E (on_cli (client_rpush (lib E) ?k t)) [On_list ?k (L_rpush t)] (i + 2, ?m1) (i + 2, ?m1(?k := items [t])) (Ret 1)"
    using makes_rpush [of ?m1 ?k "[]" t E "i + 2"] bulk_ok_stamp [OF T] by (simp add: assms(4) multi_ok_def)
  have "makes E (sq (lock_renew (secs E) (lib E) mx) (ret None)) (([] @ [On_text ?n (T_set t)] @ [On_list ?k (L_rpush t)] @ []) @ [])
      (Suc i, m(?k := items [])) (i + 2, ?m1(?k := items [t])) (Ret None)"
    unfolding lock_renew_def sq_as_bnd boost_okD(1) [OF assms(3)]
    by (rule makes_bnd, rule makes_bnd [OF time], fold assms(4), rule makes_bnd [OF set], rule makes_bnd [OF push], rule makes_ret, rule makes_ret)
  with turn_start [OF assms(1-3), of missing_value _ i] show ?thesis by (simp add: fun_upd_twist [of ?n ?k])
qed


lemma lock_takes:
  assumes "mutex_store mx s (show_int s # xs) m" "clock_ok (clock E)" "boost_ok (lib E)" "0 < fuel"
  shows "makes E (lock (secs E) fuel (lib E) mx) (turn_calls mx (clock E i) s @ [On_text (mutex_name mx) (T_getset (show_int s))]) (i, m)
    (i + 2, m(list_name mx := items xs)) (Ret (Some (mx\<lparr>token := show_int (clock E (Suc i) + TIMEOUT_SEC)\<rparr>)))"
proof -
  let ?n = "mutex_name mx" and ?m = "m(list_name mx := items xs)" and ?T = "clock E (Suc i) + TIMEOUT_SEC"
  obtain f where f: "fuel = Suc f" using assms(4) gr0_conv_Suc by blast
  have time: "makes E (tstamp_val (secs E) TIMEOUT_SEC) [] (Suc i, ?m) (i + 2, ?m) (Ret ?T)"
    using makes_stamp [OF assms(2), of "Suc i"] by simp
  have n: "?m ?n = Some (Text (show_int s))" "stamp_ok s" using assms(1) by (auto simp: mutex_store_def)
  then have same: "?m(?n \<mapsto> Text (show_int s)) = ?m" by (metis fun_upd_triv)
  have "makes E (on_cli (client_getset (lib E) ?n (show_int s))) [On_text ?n (T_getset (show_int s))] (i + 2, ?m) (i + 2, ?m) (Ret (show_int s))"
    using makes_getset [of ?m ?n "show_int s" E "show_int s" "i + 2"] n bulk_ok_stamp by (simp only: same)
  note swap = makes_bnd [OF this]
  have turn: "makes E (lock_turn (secs E) (lib E) mx) (turn_calls mx (clock E i) s) (i, m) (Suc i, ?m) (Ret (Some (show_int s)))"
    using turn_pops [OF assms(1-3), of i] by simp
  have "makes E (lock (secs E) fuel (lib E) mx) (turn_calls mx (clock E i) s @ [] @ [On_text ?n (T_getset (show_int s))] @ []) (i, m) (i + 2, ?m)
    (Ret (Some (mx\<lparr>token := show_int ?T\<rparr>)))"
    unfolding f lock.simps boost_okD(1) [OF assms(3)]
    by (rule makes_bnd [OF turn], unfold option.case, rule makes_bnd [OF time], rule swap) (simp add: makes_ret)
  then show ?thesis by simp
qed

lemma lock_again:
  assumes "makes E (lock_turn (secs E) (lib E) mx) ps a b (Ret None)" "makes E (lock (secs E) f (lib E) mx) qs b c r"
  shows "makes E (lock (secs E) (Suc f) (lib E) mx) (ps @ qs) a c r"
  unfolding lock.simps by (rule makes_bnd [OF assms(1)]) (simp add: assms(2))

lemma lock_makes:
  assumes "mutex_store mx s xs m" "clock_ok (clock E)" "boost_ok (lib E)" "length xs + 2 \<le> fuel"
    "lock_leaves (clock E) i s xs = (j, s', ys, tok)"
  shows "makes E (lock (secs E) fuel (lib E) mx) (lock_calls (clock E) mx i s xs) (i, m)
    (j, m(list_name mx := items ys, mutex_name mx \<mapsto> Text (show_int s'))) (Ret (Some (mx\<lparr>token := show_int tok\<rparr>)))"
  using assms(1,4,5)
proof (induction xs arbitrary: fuel i m)
  case Nil
  let ?T = "clock E (Suc i) + TIMEOUT_SEC" and ?n = "mutex_name mx" and ?k = "list_name mx"
  let ?m = "m(?k := items [show_int ?T], ?n \<mapsto> Text (show_int ?T))"
  obtain f where f: "fuel = Suc f" "0 < f" using Nil.prems(2) by (cases fuel) auto
  have "mutex_store mx ?T [show_int ?T] ?m"
    using Nil.prems(1) stamp_clock [OF assms(2)] bulk_ok_stamp stamp_not_missing by (simp add: mutex_store_def tokens_ok_def) metis
  from lock_again [OF turn_renews [OF Nil.prems(1) assms(2,3) refl] lock_takes [OF this assms(2,3) f(2), of "i + 2"]] Nil.prems(3)
  show ?case by (simp add: f(1) Let_def fun_upd_twist [of ?n ?k] eval_nat_numeral del: lock.simps fun_upd_apply)
next
  case (Cons x xs)
  let ?k = "list_name mx" and ?m = "m(list_name mx := items xs)"
  obtain f where f: "fuel = Suc f" "length xs + 2 \<le> f" using Cons.prems(2) by (cases fuel) auto
  show ?case
  proof (cases "x = show_int s")
    case True
    have same: "m(?k := items ys, mutex_name mx \<mapsto> Text (show_int s)) = m(?k := items ys)"
      using Cons.prems(1) by (auto simp: mutex_store_def fun_eq_iff)
    from lock_takes [OF Cons.prems(1) [unfolded True] assms(2,3), of fuel i] f(1) Cons.prems(3) True same show ?thesis by (auto simp del: lock.simps fun_upd_apply)
  next
    case False
    have "mutex_store mx s xs ?m" using Cons.prems(1) by (auto simp: mutex_store_def tokens_ok_def)
    from Cons.IH [OF this f(2), of "Suc i"] False Cons.prems(3)
    have rest: "makes E (lock (secs E) f (lib E) mx) (lock_calls (clock E) mx (Suc i) s xs) (Suc i, ?m)
        (j, m(?k := items ys, mutex_name mx \<mapsto> Text (show_int s'))) (Ret (Some (mx\<lparr>token := show_int tok\<rparr>)))" by (simp del: fun_upd_apply)
    from lock_again [OF _ rest] turn_pops [OF Cons.prems(1) assms(2,3), of i] False show ?thesis
      by (simp add: f(1) del: lock.simps fun_upd_apply)
  qed
qed


text \<open>The constructor makes the stamp and its token unless the name has a stamp already.\<close>

lemma makes_setnx:
  "m n = None \<Longrightarrow> makes E (on_cli (client_setnx (lib E) n x)) [On_text n (T_setnx x)] (i, m) (i, m(n \<mapsto> Text x)) (Ret True)"
  "m n = Some (Text t) \<Longrightarrow> makes E (on_cli (client_setnx (lib E) n x)) [On_text n (T_setnx x)] (i, m) (i, m) (Ret False)"
  using makes_call [of E "On_text n (T_setnx x)" "client_setnx (lib E) n x" Flag m "m n = None" i] fun_upd_triv [of m n]
  by (auto simp: inj_def flag_def op_ok_def op_valid_def counts_def result_defs long_range_def)

lemma new_mutex_again:
  assumes "clock_ok (clock E)" "boost_ok (lib E)" "m n = Some (Text s)" "t = clock E i + TIMEOUT_SEC"
  shows "makes E (new_mutex (secs E) (lib E) n) [On_text n (T_setnx (show_int t))] (i, m) (Suc i, m) (Ret \<lparr>mutex_name = n, token = []\<rparr>)"
proof -
  have time: "makes E (tstamp_val (secs E) TIMEOUT_SEC) [] (i, m) (Suc i, m) (Ret t)"
    unfolding assms(4) by (rule makes_stamp [OF assms(1)])
  have "makes E (new_mutex (secs E) (lib E) n) ([] @ [On_text n (T_setnx (show_int t))] @ []) (i, m) (Suc i, m) (Ret \<lparr>mutex_name = n, token = []\<rparr>)"
    unfolding new_mutex_def Let_def sq_as_bnd boost_okD(1) [OF assms(2)]
    by (rule makes_bnd [OF time], rule makes_bnd [OF makes_setnx(2) [of m n, OF assms(3)]])
      (simp only: if_False bnd_ret makes_ret)
  then show ?thesis by simp
qed

lemma new_mutex_fresh:
  assumes "clock_ok (clock E)" "boost_ok (lib E)" "m n = None" "m (list_name mx) = None" "mx = \<lparr>mutex_name = n, token = []\<rparr>"
    "t = clock E i + TIMEOUT_SEC" "bulk_ok (list_name mx)"
  shows "makes E (new_mutex (secs E) (lib E) n) [On_text n (T_setnx (show_int t)), On_list (list_name mx) (L_rpush (show_int t))] (i, m)
      (Suc i, m(n \<mapsto> Text (show_int t), list_name mx := items [show_int t])) (Ret mx)"
    "mutex_store mx t [show_int t] (m(n \<mapsto> Text (show_int t), list_name mx := items [show_int t]))"
proof -
  let ?k = "list_name mx" and ?m = "m(n \<mapsto> Text (show_int t))"
  have t: "stamp_ok t" unfolding assms(6) by (rule stamp_clock [OF assms(1)])
  have n: "n = mutex_name mx" by (simp add: assms(5))
  have time: "makes E (tstamp_val (secs E) TIMEOUT_SEC) [] (i, m) (Suc i, m) (Ret t)"
    unfolding assms(6) by (rule makes_stamp [OF assms(1)])
  have fresh: "makes E (on_cli (client_setnx (lib E) n (show_int t))) [On_text n (T_setnx (show_int t))] (Suc i, m) (Suc i, ?m) (Ret True)"
    by (rule makes_setnx(1)) (rule assms(3))
  have "?m ?k = items []" "multi_ok ([] @ [show_int t])"
    using assms(4) n bulk_ok_stamp [OF t] by (auto simp: items_def multi_ok_def)
  from makes_rpush [of ?m ?k "[]" "show_int t" E "Suc i", OF this]
  have push: "makes E (on_cli (client_rpush (lib E) ?k (show_int t))) [On_list ?k (L_rpush (show_int t))] (Suc i, ?m)
      (Suc i, ?m(?k := items [show_int t])) (Ret 1)" by simp
  have "makes E (new_mutex (secs E) (lib E) n) ([] @ [On_text n (T_setnx (show_int t))] @ ([On_list ?k (L_rpush (show_int t))] @ []) @ []) (i, m)
      (Suc i, ?m(?k := items [show_int t])) (Ret mx)"
    unfolding new_mutex_def Let_def assms(5) [symmetric] sq_as_bnd boost_okD(1) [OF assms(2)]
    by (rule makes_bnd [OF time], rule makes_bnd [OF fresh], unfold if_True, rule makes_bnd, rule makes_bnd [OF push], rule makes_ret, rule makes_ret)
  then show "makes E (new_mutex (secs E) (lib E) n) [On_text n (T_setnx (show_int t)), On_list ?k (L_rpush (show_int t))] (i, m)
      (Suc i, ?m(?k := items [show_int t])) (Ret mx)" by simp
  show "mutex_store mx t [show_int t] (?m(?k := items [show_int t]))"
    using t n assms(7) bulk_ok_stamp [OF t] stamp_not_missing [of t] by (auto simp: mutex_store_def tokens_ok_def)
qed

text \<open>Clients of servers in given states.\<close>

definition demo_from :: "(int \<Rightarrow> string \<rightharpoonup> redis_value) \<Rightarrow> ('c \<times> redis_op) list \<Rightarrow> 'c \<Rightarrow> redis" where
  "demo_from sts h c = demo_client (shared_answers redis_api store_server demo_route (\<lambda>_. demo_route) h sts c)"

lemma demo_from:
  "clients_ready redis_api store_server (\<lambda>m. m) std_boost demo_route h sts (\<lambda>_ _. []) (demo_from sts h)"
  using store_server std_boost_ok by (simp add: clients_ready_def demo_from_def)

text \<open>A client of two servers with a mutex of its own making, one second after it was made.\<close>

definition demo_world :: "(string \<rightharpoonup> redis_value, int) surroundings" where
  "demo_world = \<lparr>lib = std_boost, answers = store_server, holding = (\<lambda>m. m), home = demo_route, clock = (\<lambda>i. if i < 3 then 101 else 102),
     secs = demo_seconds\<rparr>"

definition demo_states :: "int \<Rightarrow> string \<rightharpoonup> redis_value" where
  "demo_states k = [''ab'' \<mapsto> Text (show_int 160), list_name demo_mutex \<mapsto> Items [show_int 160]]"

definition demo_timed_client :: "redis_op list \<Rightarrow> timed_client" where
  "demo_timed_client ps = \<lparr>cli = demo_from demo_states (map (Pair ()) ps) (), now = (\<lambda>i. clock demo_world i * 1000000), ticks = 0\<rparr>"

lemma demo_timed_ready: "timed_ready demo_world ps demo_states (\<lambda>_. []) (demo_timed_client ps)"
  using demo_from [of "map (Pair ()) ps" demo_states]
  by (simp add: timed_ready_def demo_timed_client_def demo_world_def seconds_ok_def demo_seconds_def)

lemma demo_mutex_store: "mutex_store demo_mutex 160 [show_int 160] (store_of demo_world demo_states)" "clock_ok (clock demo_world)"
  using bulk_ok_stamp [of 160] stamp_not_missing [of 160]
  by (auto simp: mutex_store_def tokens_ok_def store_of_def demo_world_def cluster_map_def demo_states_def demo_mutex_def list_name_def
      items_def stamp_ok_def bulk_ok_def clock_ok_def TIMEOUT_SEC_def)

text \<open>
  Property C21. A client that is alone with a mutex always gets through \<^verbatim>\<open>lock\<close>, whoever holds it: the loop
  takes tokens from the list and throws them away until one is the stamp; when there is none left it
  waits, for one second as long as the stamp lies in the future and otherwise for as long as the stamp is
  old, then writes a new stamp and token and takes that. The number of turns is at most the number
  of tokens and two more. What is sent is pinned: the requests are those of \<open>lock_calls\<close>, so that the new stamp is
  the one that is set and pushed, and \<^verbatim>\<open>GETSET\<close> writes back the stamp that was found.
\<close>

theorem lock_alone_returns:
  assumes "timed_ready E (lock_calls (clock E) mx (ticks w) s xs) sts rest w" "clock_ok (clock E)"
    "mutex_store mx s xs (store_of E sts)" "length xs + 2 \<le> fuel"
  shows "\<exists>w'. case lock_leaves (clock E) (ticks w) s xs of (j, s', ys, tok) \<Rightarrow>
    lock (secs E) fuel (lib E) mx w = (Ret (Some (mx\<lparr>token := show_int tok\<rparr>)), w') \<and> ticks w' = j \<and> inq (cli w') = rest \<and>
    requested E (lock_calls (clock E) mx (ticks w) s xs) w w' \<and>
    store_of E (served E (lock_calls (clock E) mx (ticks w) s xs) sts) =
      (store_of E sts)(list_name mx := items ys, mutex_name mx \<mapsto> Text (show_int s'))"
proof -
  obtain j s' ys tok where l: "lock_leaves (clock E) (ticks w) s xs = (j, s', ys, tok)" by (metis prod_cases4)
  have B: "boost_ok (lib E)" using assms(1) by (simp add: timed_ready_def clients_ready_def)
  from makesD [OF lock_makes [OF assms(3,2) B assms(4) l] assms(1)] l show ?thesis by auto
qed

theorem lock_alone_returns_witness:
  "\<exists>w'. lock demo_seconds 3 std_boost demo_mutex (demo_timed_client (lock_calls (clock demo_world) demo_mutex 0 160 [show_int 160])) =
    (Ret (Some (demo_mutex\<lparr>token := show_int 161\<rparr>)), w')"
proof -
  let ?ps = "lock_calls (clock demo_world) demo_mutex 0 160 [show_int 160]"
  have w: "ticks (demo_timed_client ?ps) = 0" by (simp add: demo_timed_client_def)
  from lock_alone_returns [of demo_world demo_mutex "demo_timed_client ?ps" 160 "[show_int 160]", unfolded w,
      OF demo_timed_ready demo_mutex_store(2,1), of 3]
  obtain w' where "lock (secs demo_world) 3 (lib demo_world) demo_mutex (demo_timed_client ?ps) =
      (Ret (Some (demo_mutex\<lparr>token := show_int (clock demo_world (Suc 0) + TIMEOUT_SEC)\<rparr>)), w')" by auto
  then show ?thesis by (simp add: demo_world_def TIMEOUT_SEC_def del: lock.simps)
qed






end
