(* ===== verification/Spec2Isabelle.thy ===== *)
theory Spec2Isabelle
  imports Window Floor RedisSets RedisTests DistributedValues MutexLock
begin

text \<open>
  \<^bold>\<open>Verification library of the quotation client tdxhq.\<close>

  \<^bold>\<open>The program.\<close> A 32-bit Windows program in two parts. The DLL src/TDXHQ speaks the binary protocol of
  the TDX stock servers: it keeps a table of up to 1000 connections, asks for candlesticks, decodes
  the compressed, delta-coded reply and returns a text table. The application src/HQTEST reads the
  watched securities from MySQL, deals them out to 20 worker threads, triggers the workers once a
  minute in the trading hours, and each worker writes the tables it gets into SQLite files and
  publishes through Redis, with the client library redisclient.h over the socket layer anet.c.

  \<^bold>\<open>Common ground.\<close> \<open>Prelude\<close> has the results: every return, exception and fault (failed assertion,
  undefined behaviour, a call that never returns) is a value; stateful code is a function from a state
  to a result and a state. \<open>Sockets\<close> is the operating system's stream sockets: what a socket will do is a
  script in the state (chunks of any size, interruptions, failures, the end; for sending, short counts, failures and
  calls that never return), and \<open>pending\<close> is the byte stream a script delivers. No call has fuel there: each loop
  terminates because it uses up its script or its buffer.

  \<^bold>\<open>The DLL.\<close>
  \<^item> \<open>ByteBuffer\<close>, \<open>ByteStreams\<close>: class CByteBuffer of ByteBuffer.h (record \<open>bytebuffer\<close> with the two positions
    and the storage; one definition per method, operator and container template). Shown: the
    invariant of the positions, which operations keep it and when the unchecked setters of the positions do, round trips of the stream operators, the error of a short read, and
    the over-read of \<^verbatim>\<open>append(const CByteBuffer&)\<close>.
  \<^item> \<open>Ieee\<close>, \<open>PriceCodec\<close>: rounding of doubles as exact rationals; \<open>getPrice\<close> and \<open>GetVolume\<close> of TDXHQ.cpp.
    Shown: \<open>getPrice\<close> inverts a reference encoder; \<open>GetVolume\<close> is the IEEE value of a positive normal pattern
    outside one branch, where it is wrong.
  \<^item> \<open>TdxConnect\<close>: the globals (record \<open>tdx\<close>), \<open>TDXHQ_Init\<close>, \<open>TDXHQ_Connect\<close>, \<open>TDXHQ_DisConnect\<close>. Shown: the
    invariant of the table, slot allocation, and the order in which servers are tried in every
    interleaving of calls.
  \<^item> \<open>SecurityBars\<close>, \<open>BarsCorrect\<close>: \<open>TDXHQ_GetSecurityBars\<close> from the request to the table, zlib's \<^verbatim>\<open>uncompress\<close>
    being a parameter. Shown: correctness against a reference encoder of candlesticks when the header comes in one
    piece and the body in any segmentation, which code stands for which failure, and the bytes of the request.

  \<^bold>\<open>The Redis client.\<close>
  \<^item> \<open>Anet\<close>: anet.c and anet_win32.c. Host names are the parameter \<open>names\<close>, the system calls a script. Shown: the ways
    in which a write ends.
  \<^item> \<open>RedisWire\<close>, \<open>RedisReplies\<close>: makecmd, command and the reply readers of redisclient.h; Boost's conversions
    and hash are the parameter \<open>boost\<close> with the hypothesis \<open>boost_ok\<close>. The contract of a reader is the
    locale \<open>wire_result\<close> (a text on the wire and the outcome of reading it, an exception included), with
    \<open>wire_value\<close> for outcomes that are values and \<open>wire_reader\<close> for readers that return what was written;
    every reader is an interpretation, once for its replies and once for the refusals of the server, and
    pipelining and the exchange with a server are proved once in the locales.
  \<^item> \<open>RedisClient\<close>, \<open>RedisData\<close>, \<open>Distributed\<close>: class base_client (record \<open>redis\<close>: the connections and the
    system) with all its commands, and the distributed_* value classes.
  \<^item> \<open>RedisCorrect\<close>, \<open>RedisStore\<close>, \<open>RedisEdges\<close>: seen from the servers, a client is queues of bytes. Shown:
    construction, pipelines and \<^verbatim>\<open>mget\<close> over several servers, transactions, round trips of requests and
    replies, closed connections, errors of the server, and that executed commands are well typed.
  \<^item> \<open>ClusterOps\<close>, \<open>RedisTypes\<close>, \<open>RedisCluster\<close>: the refinement of a cluster to one store. A set of calls is a record
    \<open>api\<close>, the locale \<open>client_api\<close> asks of it that a call makes of every documented reply what its
    specification says, and in the locale any history of calls, by any number of clients on any number
    of servers, is shown to give what the specification gives on one map. \<open>redis_client\<close> is its
    interpretation on 43 commands of the client (strings, counters, lists, blocking pops, sets, hashes);
    \<open>store_server\<close> is a server that keeps the contract. The answers of the servers are those to the calls of the
    history, and every theorem states the bytes each client sent, which are the requests of these calls.
  \<^item> \<open>DistributedCorrect\<close>, \<open>DistributedValues\<close>: the value classes as what they stand for: distributed_list a
    sequence, distributed_unordered_set a set, distributed_string and distributed_base_int variables.
    The locale \<open>redis_object\<close> asks of a class that its methods are calls whose effect on the entry of the
    key is the one on the abstract object; it rests on \<open>same_requests\<close>, \<open>wrapped_api\<close> and \<open>object_api\<close> of
    \<open>ClusterOps\<close>. The integer class reads its replies itself and is an \<open>object_api\<close> directly.
  \<^item> \<open>DistributedMutex\<close>: distributed_base_sequence and distributed_mutex, which the source keeps switched off
    as not yet working; the clock is a sequence of readings in the state (record \<open>timed_client\<close>), Boost's
    \<^verbatim>\<open>total_seconds\<close> a parameter, and the loop of \<^verbatim>\<open>lock\<close> has fuel. \<open>MutexCorrect\<close>: for any number of clients
    \<^verbatim>\<open>try_lock\<close>, \<^verbatim>\<open>unlock\<close> and \<^verbatim>\<open>timed_lock\<close> are those of a lock with one holder that \<^verbatim>\<open>timed_lock\<close> loses.
    \<open>MutexLock\<close>: for a client alone, \<^verbatim>\<open>lock\<close> returns when the fuel is the number of tokens and two more, and
    \<^verbatim>\<open>unlock\<close> does not release what \<^verbatim>\<open>lock\<close> took; the relation \<open>makes\<close> tells the calls a piece of code makes, and
    \<open>requested\<close> that their requests are what was sent.
  \<^item> \<open>RedisTests\<close>: the library's own tests of the list and the hash commands, all of their calls, which pass.
  \<^item> \<open>RedisSets\<close>: commands whose keys are spread over the servers, over one lemma on requests and replies
    per server. Shown: \<^verbatim>\<open>sinter\<close> is the intersection of all the sets, \<^verbatim>\<open>del\<close> of several keys tells whether
    one existed, \<^verbatim>\<open>rename\<close> to another server never removes a value before it is stored again.

  \<^bold>\<open>The application.\<close>
  \<^item> \<open>Quotation\<close>, \<open>QuotationCorrect\<close>: CConfig and CQuotation (record \<open>quotation\<close>); one turn of its loop is
    \<open>Run_turn\<close>, and \<open>Run_step\<close> is the same code in the steps between which other threads run. The loops for connecting and for the rows of a table depend on the environment alone
    and have fuel; \<open>connect_loop_returns\<close> shows that one more turn than there are failed attempts is
    enough, \<open>fetch_table_saves_bars\<close> that one more than the candlesticks is, and both that the result is
    reached. The latter composes all layers, from the bytes of the socket to the SQL text.
  \<^item> \<open>Dialog\<close>, \<open>DialogCorrect\<close>: CHQTESTDlg (record \<open>dialog\<close>), OnInitDialog, IsTraderTime and OnTimer. Shown: the
    trading hours, the dealing out of the securities, the pointer that is never set without securities
    and the overflow with too many.
  \<^item> \<open>Floor\<close>: the timer and the workers together, as the step relation \<open>floor_step\<close> whose steps are strikes of
    the timer and single steps of workers, in any order. Shown: the invariant of all
    reachable states, the trigger that is lost when it comes in a round, and that the steps of a worker that is
    not disturbed are a \<open>Run_turn\<close>.
  \<^item> \<open>Window\<close>: the other handlers of CHQTESTDlg, its message map and window procedure (record \<open>window\<close>) and
    CHQTESTApp::InitInstance, over the default processing of the framework (parameter \<open>framework\<close> with
    the hypothesis \<open>framework_ok\<close>). Shown over all sequences of messages, the inductive predicate
    \<open>desktop\<close>: a hidden window can be got back, and which ways of closing leave the icon behind.

  \<^bold>\<open>Width and bounds.\<close> \<^verbatim>\<open>size_t\<close>, \<^verbatim>\<open>long\<close> and \<^verbatim>\<open>int\<close> are 32 bits wide; prices and patterns are 32-bit words,
  lengths are numbers with the wrap-around written out where it can happen.

  \<^bold>\<open>Not modelled.\<close> The vendored headers (zlib, SQLite, MySQL, SecureEngine), seen as parameters or through
  the calls made to them; the body of
  \<^verbatim>\<open>TdxHq_GetSecurityQuotes\<close> after its request, which does not compile (it uses undeclared names); the methods
  \<^verbatim>\<open>get_next_value\<close> and \<^verbatim>\<open>seek\<close> of the sequence class and the three overloads of redisclient.h that do not compile when used; of
  the tests under src/HQTEST/tests those that need sorted sets, time to live, several keys at once or a
  clock, which the specification of the store leaves out. A step of a worker makes one attempt to
  connect, which the DLL does under its mutex, or deals with one security, which touches the worker's own socket only;
  finer interleavings, of the calls within one security, are not modelled. The threads of the workers are taken to run
  only after OnInitDialog; until then they could do nothing but \<^verbatim>\<open>InitInstance\<close>.
\<close>

end
